(* ===== verification/Prelude.thy ===== *)
theory Prelude
  imports Main "HOL-Library.Multiset"
begin

text \<open>
  What every theory of the development shares: the faults a run of the C program can end in,
  the error monad that carries them, the parts of the C library the program uses on bytes and
  strings (\<open>ctype.h\<close> in the "C" locale, \<open>strcmp\<close>, \<open>strchr\<close>, \<open>atoi\<close>, \<open>qsort\<close>), and the
  lemma collections.

  A C string is the list of the characters before its terminating zero byte. A buffer that is
  not known to be terminated is the list of the bytes it holds; reading past them is the fault
  \<open>Overread\<close>.
\<close>

named_theorems res_simps "equations that take a run of the error monad apart"
named_theorems cstr_simps "facts about the C library's string and character functions"
named_theorems darr_simps "how the dynamic array operations act on the abstract list"

section \<open>Faults and results\<close>

text \<open>
  \<open>AssertFail\<close>: a failed \<open>assert\<close>. \<open>Overread\<close>, \<open>Overrun\<close>: a read or a write outside the bytes
  of an object. \<open>NullDeref\<close>, \<open>UseAfterFree\<close>: access through a null pointer or to an object
  that was freed. \<open>BadCast\<close>: a \<open>void\<close> pointer used as a pointer to another type than it has.
  \<open>NoReturn\<close>: the call never returns. After any of them C gives the program no
  meaning, so a run stops there.
\<close>

datatype fault = AssertFail | Overread | Overrun | NullDeref | UseAfterFree | BadCast | NoReturn

type_synonym 'a res = "fault + 'a"

definition bindE :: "'a res \<Rightarrow> ('a \<Rightarrow> 'b res) \<Rightarrow> 'b res" where
  "bindE m f = (case m of Inl e \<Rightarrow> Inl e | Inr x \<Rightarrow> f x)"

lemma bindE_Inr [simp]: "bindE (Inr x) f = f x"
  by (simp add: bindE_def)

lemma bindE_Inl [simp]: "bindE (Inl e) f = Inl e"
  by (simp add: bindE_def)

lemma bindE_eq_Inr [res_simps]: "bindE m f = Inr y \<longleftrightarrow> (\<exists>x. m = Inr x \<and> f x = Inr y)"
  by (cases m) auto

lemma bindE_eq_Inl [res_simps]:
  "bindE m f = Inl e \<longleftrightarrow> m = Inl e \<or> (\<exists>x. m = Inr x \<and> f x = Inl e)"
  by (cases m) auto

lemma bindE_assoc: "bindE (bindE m f) g = bindE m (\<lambda>x. bindE (f x) g)"
  by (cases m) auto

text \<open>
  \<open>safeE E P m\<close>: if the run \<open>m\<close> ends in a fault, it is one of \<open>E\<close>; if it ends in a result,
  the result satisfies \<open>P\<close>. Invariants of stateful code are stated with it: the smaller \<open>E\<close>, the
  more the statement says.
\<close>

definition safeE :: "fault set \<Rightarrow> ('a \<Rightarrow> bool) \<Rightarrow> 'a res \<Rightarrow> bool" where
  "safeE E P m = (case m of Inl e \<Rightarrow> e \<in> E | Inr x \<Rightarrow> P x)"

lemma safeE_Inr [simp]: "safeE E P (Inr x) \<longleftrightarrow> P x"
  by (simp add: safeE_def)

lemma safeE_Inl [simp]: "safeE E P (Inl e) \<longleftrightarrow> e \<in> E"
  by (simp add: safeE_def)

lemma safeE_bind:
  assumes "safeE E Q m" and "\<And>x. m = Inr x \<Longrightarrow> Q x \<Longrightarrow> safeE E P (f x)"
  shows "safeE E P (bindE m f)"
  using assms by (cases m) auto

lemma safeE_mono: "safeE E P m \<Longrightarrow> (\<And>x. P x \<Longrightarrow> Q x) \<Longrightarrow> E \<subseteq> F \<Longrightarrow> safeE F Q m"
  by (cases m) auto

lemma safeE_D: "safeE E P m \<Longrightarrow> m = Inr x \<Longrightarrow> P x"
  by simp

lemma safeE_fault: "safeE E P m \<Longrightarrow> e \<notin> E \<Longrightarrow> m \<noteq> Inl e"
  by auto

section \<open>Characters\<close>

text \<open>The \<open>ctype.h\<close> classes of the "C" locale, where no byte from 128 on is in any class.\<close>

abbreviation NUL :: char where "NUL \<equiv> CHR 0x00"
abbreviation TAB :: char where "TAB \<equiv> CHR 0x09"
abbreviation LF :: char where "LF \<equiv> CHR 0x0A"
abbreviation CR :: char where "CR \<equiv> CHR 0x0D"
abbreviation DQUOTE :: char where "DQUOTE \<equiv> CHR 0x22"

definition ccode :: "char \<Rightarrow> nat" where
  "ccode c = of_char c"

definition isdigit :: "char \<Rightarrow> bool" where
  "isdigit c \<longleftrightarrow> 48 \<le> ccode c \<and> ccode c \<le> 57"

definition isspace :: "char \<Rightarrow> bool" where
  "isspace c \<longleftrightarrow> c = CHR 0x20 \<or> (9 \<le> ccode c \<and> ccode c \<le> 13)"

definition isupper :: "char \<Rightarrow> bool" where
  "isupper c \<longleftrightarrow> 65 \<le> ccode c \<and> ccode c \<le> 90"

definition islower :: "char \<Rightarrow> bool" where
  "islower c \<longleftrightarrow> 97 \<le> ccode c \<and> ccode c \<le> 122"

definition isalpha :: "char \<Rightarrow> bool" where
  "isalpha c \<longleftrightarrow> isupper c \<or> islower c"

definition isalnum :: "char \<Rightarrow> bool" where
  "isalnum c \<longleftrightarrow> isalpha c \<or> isdigit c"

definition toupper :: "char \<Rightarrow> char" where
  "toupper c = (if islower c then char_of (ccode c - 32) else c)"

definition digit_val :: "char \<Rightarrow> nat" where
  "digit_val c = ccode c - 48"

lemma ccode_eq [simp]: "ccode c = ccode d \<longleftrightarrow> c = d"
  by (simp add: ccode_def)

lemma isdigit_not_isspace [cstr_simps]: "isdigit c \<Longrightarrow> \<not> isspace c"
  by (auto simp: isdigit_def isspace_def ccode_def)

lemma ctype_NUL [cstr_simps]: "\<not> isdigit NUL" "\<not> isspace NUL"
  by (simp_all add: isdigit_def isspace_def ccode_def)

lemma isspace_CR_LF [cstr_simps]: "isspace CR" "isspace LF"
  by (simp_all add: isspace_def ccode_def)

section \<open>Strings\<close>

text \<open>
  \<open>strcmp\<close> compares bytes as unsigned characters; only the sign of its result is used, so the
  model returns -1, 0 or 1.
\<close>

fun strcmp :: "string \<Rightarrow> string \<Rightarrow> int" where
  "strcmp [] [] = 0"
| "strcmp [] (d # ds) = -1"
| "strcmp (c # cs) [] = 1"
| "strcmp (c # cs) (d # ds) =
     (if c = d then strcmp cs ds else if ccode c < ccode d then -1 else 1)"

lemma strcmp_eq_0 [simp]: "strcmp a b = 0 \<longleftrightarrow> a = b"
  by (induction a b rule: strcmp.induct) auto

lemma strcmp_refl: "strcmp a a = 0"
  by simp

lemma strcmp_flip: "strcmp b a = - strcmp a b"
proof (induction a b rule: strcmp.induct)
  case (4 c cs d ds)
  then show ?case
    using ccode_eq [of c d] by auto
qed auto

lemma strcmp_trans: "strcmp a b \<le> 0 \<Longrightarrow> strcmp b c \<le> 0 \<Longrightarrow> strcmp a c \<le> 0"
proof (induction a b arbitrary: c rule: strcmp.induct)
  case (2 d ds)
  then show ?case by (cases c) auto
next
  case (4 x xs y ys)
  then show ?case
    by (cases c) (auto split: if_splits)
qed auto

text \<open>The C string at the start of a buffer: what precedes its first zero byte.\<close>

definition cstr :: "string \<Rightarrow> string" where
  "cstr buf = takeWhile (\<lambda>c. c \<noteq> NUL) buf"

text \<open>\<open>strchr\<close> on a C string, as the suffix the returned pointer points to.\<close>

fun strchr :: "string \<Rightarrow> char \<Rightarrow> string option" where
  "strchr [] x = None"
| "strchr (c # cs) x = (if c = x then Some (c # cs) else strchr cs x)"

lemma strchr_None [cstr_simps]: "strchr s x = None \<longleftrightarrow> x \<notin> set s"
  by (induction s) auto

lemma strchr_append [cstr_simps]: "x \<notin> set p \<Longrightarrow> strchr (p @ s) x = strchr s x"
  by (induction p) auto

lemma strchr_eq_Some: "strchr s x = Some t \<longleftrightarrow> x \<in> set s \<and> t = dropWhile (\<lambda>c. c \<noteq> x) s"
  by (induction s) auto

text \<open>\<open>atoi\<close>: blanks, a sign, digits; the value is kept in 32 bits as two's complement.\<close>

fun dec_val :: "nat \<Rightarrow> string \<Rightarrow> nat" where
  "dec_val acc [] = acc"
| "dec_val acc (c # cs) = (if isdigit c then dec_val (10 * acc + digit_val c) cs else acc)"

definition int32 :: "int \<Rightarrow> int" where
  "int32 n = (n + 2 ^ 31) mod 2 ^ 32 - 2 ^ 31"

definition atoi :: "string \<Rightarrow> int" where
  "atoi s =
     (case dropWhile isspace s of
        [] \<Rightarrow> 0
      | c # cs \<Rightarrow>
          if c = CHR ''-'' then int32 (- int (dec_val 0 cs))
          else if c = CHR ''+'' then int32 (int (dec_val 0 cs))
          else int32 (int (dec_val 0 (c # cs))))"

text \<open>A \<open>long\<close> of 64 bits.\<close>

definition int64 :: "int \<Rightarrow> int" where
  "int64 n = (n + 2 ^ 63) mod 2 ^ 64 - 2 ^ 63"

lemma int32_id [simp]: "- (2 ^ 31) \<le> n \<Longrightarrow> n < 2 ^ 31 \<Longrightarrow> int32 n = n"
  by (simp add: int32_def)

lemma int32_neg:
  assumes "2 ^ 31 \<le> n" "n < 2 ^ 32"
  shows "int32 n < 0"
proof -
  have "(n + 2 ^ 31) mod 2 ^ 32 = (n + 2 ^ 31 - 2 ^ 32) mod 2 ^ 32" by (rule minus_mod_self2 [symmetric])
  also have "\<dots> = n + 2 ^ 31 - 2 ^ 32" using assms by (intro mod_pos_pos_trivial) auto
  finally show ?thesis using assms by (simp add: int32_def)
qed

lemma int32_bounds: "- (2 ^ 31) \<le> int32 n \<and> int32 n < 2 ^ 31"
proof -
  have "0 \<le> (n + 2 ^ 31) mod 2 ^ 32" "(n + 2 ^ 31) mod 2 ^ 32 < (2 ^ 32 :: int)"
    by simp_all
  then show ?thesis unfolding int32_def by simp
qed

text \<open>Decimal output, what \<open>printf\<close> writes for a non-negative \<open>%d\<close> or \<open>%u\<close>.\<close>

fun dec_str :: "nat \<Rightarrow> string" where
  "dec_str n = (if n < 10 then [char_of (48 + n)]
                else dec_str (n div 10) @ [char_of (48 + n mod 10)])"

declare dec_str.simps [simp del]

lemma char_of_digit:
  assumes "d < 10"
  shows "isdigit (char_of (48 + d))" "digit_val (char_of (48 + d)) = d"
  using assms by (simp_all add: isdigit_def digit_val_def ccode_def)

lemma dec_val_append: "list_all isdigit p \<Longrightarrow> dec_val acc (p @ s) = dec_val (dec_val acc p) s"
  by (induction p arbitrary: acc) auto

lemma dec_str_digits: "list_all isdigit (dec_str n)"
proof (induction n rule: dec_str.induct)
  case (1 n)
  show ?case
  proof (cases "n < 10")
    case True
    then show ?thesis by (simp add: dec_str.simps [of n] char_of_digit)
  next
    case False
    with 1 show ?thesis by (simp add: dec_str.simps [of n] char_of_digit)
  qed
qed

lemma dec_str_nonempty [simp]: "dec_str n \<noteq> []"
  by (simp add: dec_str.simps [of n])

lemma dec_val_dec_str: "dec_val 0 (dec_str n) = n"
proof (induction n rule: dec_str.induct)
  case (1 n)
  show ?case
  proof (cases "n < 10")
    case True
    then show ?thesis by (simp add: dec_str.simps [of n] char_of_digit)
  next
    case False
    with 1 have "dec_val 0 (dec_str (n div 10)) = n div 10" by simp
    with False show ?thesis
      by (simp add: dec_str.simps [of n] dec_val_append dec_str_digits char_of_digit)
  qed
qed

section \<open>Sorting\<close>

text \<open>
  \<open>qsort\<close> returns the elements in an order that the comparison function accepts. C leaves the
  order of elements that compare equal open; the model keeps them in their order, and the facts
  below do not depend on that: the result is a sorted permutation, and the only one when
  distinct elements never compare equal.
\<close>

fun qs_insert :: "('a \<Rightarrow> 'a \<Rightarrow> int) \<Rightarrow> 'a \<Rightarrow> 'a list \<Rightarrow> 'a list" where
  "qs_insert cmp x [] = [x]"
| "qs_insert cmp x (y # ys) = (if cmp x y \<le> 0 then x # y # ys else y # qs_insert cmp x ys)"

fun qsort :: "('a \<Rightarrow> 'a \<Rightarrow> int) \<Rightarrow> 'a list \<Rightarrow> 'a list" where
  "qsort cmp [] = []"
| "qsort cmp (x # xs) = qs_insert cmp x (qsort cmp xs)"

lemma mset_qs_insert: "mset (qs_insert cmp x xs) = add_mset x (mset xs)"
  by (induction xs) auto

lemma mset_qsort [simp]: "mset (qsort cmp xs) = mset xs"
  by (induction xs) (auto simp: mset_qs_insert)

lemma set_qsort [simp]: "set (qsort cmp xs) = set xs"
  by (metis mset_qsort set_mset_mset)

lemma length_qsort [simp]: "length (qsort cmp xs) = length xs"
  by (metis mset_qsort size_mset)

lemma set_qs_insert [simp]: "set (qs_insert cmp x xs) = insert x (set xs)"
  by (induction xs) auto

locale comparison =
  fixes cmp :: "'a \<Rightarrow> 'a \<Rightarrow> int"
  assumes cmp_total: "cmp a b \<le> 0 \<or> cmp b a \<le> 0"
    and cmp_trans: "cmp a b \<le> 0 \<Longrightarrow> cmp b c \<le> 0 \<Longrightarrow> cmp a c \<le> 0"
begin

lemma sorted_qs_insert:
  "sorted_wrt (\<lambda>a b. cmp a b \<le> 0) xs \<Longrightarrow> sorted_wrt (\<lambda>a b. cmp a b \<le> 0) (qs_insert cmp x xs)"
proof (induction xs)
  case (Cons y ys)
  show ?case
  proof (cases "cmp x y \<le> 0")
    case True
    with Cons.prems show ?thesis by (auto intro: cmp_trans)
  next
    case False
    then have "cmp y x \<le> 0" using cmp_total by blast
    with False Cons show ?thesis by simp
  qed
qed simp

lemma sorted_qsort: "sorted_wrt (\<lambda>a b. cmp a b \<le> 0) (qsort cmp xs)"
  by (induction xs) (simp_all add: sorted_qs_insert)

lemma sorted_unique:
  assumes ties: "\<And>a b. a \<in> set xs \<Longrightarrow> b \<in> set xs \<Longrightarrow> cmp a b \<le> 0 \<Longrightarrow> cmp b a \<le> 0 \<Longrightarrow> a = b"
    and "mset ys = mset xs"
    and "sorted_wrt (\<lambda>a b. cmp a b \<le> 0) xs" and "sorted_wrt (\<lambda>a b. cmp a b \<le> 0) ys"
  shows "ys = xs"
  using assms
proof (induction xs arbitrary: ys)
  case (Cons x xs)
  then obtain y ys' where ys: "ys = y # ys'" by (cases ys) auto
  have sets: "set (y # ys') = set (x # xs)"
    using Cons.prems(2) ys by (metis set_mset_mset)
  have "cmp x y \<le> 0"
    using Cons.prems(3) sets cmp_total [of x x] by auto
  moreover have "cmp y x \<le> 0"
    using Cons.prems(4) ys sets cmp_total [of y y] by auto
  ultimately have eq: "y = x"
    using Cons.prems(1) [of x y] sets by auto
  have "ys' = xs"
  proof (rule Cons.IH)
    show "mset ys' = mset xs" using Cons.prems(2) ys eq by simp
  qed (use Cons.prems ys in auto)
  with ys eq show ?case by simp
qed simp

end

interpretation strcmp_order: comparison strcmp
proof
  fix a b c
  show "strcmp a b \<le> 0 \<or> strcmp b a \<le> 0" using strcmp_flip [of a b] by linarith
  show "strcmp a b \<le> 0 \<Longrightarrow> strcmp b c \<le> 0 \<Longrightarrow> strcmp a c \<le> 0" by (rule strcmp_trans)
qed

section \<open>Answers of the operating system\<close>

text \<open>
  A script of answers, and the answer to give when it is used up. Every call takes the next
  answer; a theorem for all scripts is a theorem for every behaviour of the system.
\<close>

fun next_ans :: "'a \<Rightarrow> 'a list \<Rightarrow> 'a \<times> 'a list" where
  "next_ans d [] = (d, [])"
| "next_ans d (x # xs) = (x, xs)"

lemma snd_next_ans_length: "length (snd (next_ans d xs)) \<le> length xs"
  by (cases xs) auto

section \<open>Division of C\<close>

text \<open>\<open>/\<close> on \<open>int\<close> rounds towards zero.\<close>

definition cdiv :: "int \<Rightarrow> int \<Rightarrow> int" where
  "cdiv a b = sgn a * sgn b * (\<bar>a\<bar> div \<bar>b\<bar>)"

lemma cdiv_nonneg [simp]: "0 \<le> a \<Longrightarrow> 0 < b \<Longrightarrow> cdiv a b = a div b"
  by (cases "a = 0") (simp_all add: cdiv_def)

end
