(* ===== verification/Darray.thy ===== *)
theory Darray
  imports Prelude
begin

text \<open>
  The dynamic array of \<open>src/darray.c\<close> and \<open>src/darray.h\<close>. An array is its descriptor
  (\<open>struct arrdesc\<close>) and the buffer that follows it, one cell for each element slot; a cell that
  no one has written since it was allocated is \<open>None\<close>. \<open>malloc_nf\<close> and \<open>realloc_nf\<close> end the
  process when memory runs out (\<open>src/util.c\<close>), so a run that continues got its memory.

  \<open>darr_list\<close> is the list an array stands for, \<open>darr_ok\<close> its invariant. The locale
  \<open>stack_array\<close> is the interface the other components use; the interpretation \<open>da\<close> discharges
  it for the code's operations.
\<close>

section \<open>State and operations\<close>

record 'a darr =
  nelem :: nat
  szelem :: nat
  max_elem :: nat
  bufsz :: nat
  cells :: "'a option list"

definition darr_alloc :: "nat \<Rightarrow> nat \<Rightarrow> 'a darr" where
  "darr_alloc elem sz =
     \<lparr>nelem = elem, szelem = sz, max_elem = elem, bufsz = elem * sz, cells = replicate elem None\<rparr>"

text \<open>\<open>realloc\<close> keeps the bytes both sizes have; the bytes it adds are not initialised.\<close>

definition realloc_cells :: "nat \<Rightarrow> 'a option list \<Rightarrow> 'a option list" where
  "realloc_cells n cs = take n cs @ replicate (n - length cs) None"

definition darr_resize_desc :: "nat \<Rightarrow> 'a darr \<Rightarrow> 'a darr" where
  "darr_resize_desc elem d =
     (let newsz = szelem d * elem
      in d\<lparr>cells := realloc_cells elem (cells d), nelem := elem, max_elem := elem, bufsz := newsz\<rparr>)"

text \<open>The null check of \<open>darr_resize_impl\<close>: no array stays no array.\<close>

definition darr_resize_impl :: "'a darr option \<Rightarrow> nat \<Rightarrow> 'a darr option" where
  "darr_resize_impl da elem = (case da of None \<Rightarrow> None | Some d \<Rightarrow> Some (darr_resize_desc elem d))"

definition darr_empty :: "'a darr \<Rightarrow> bool" where
  "darr_empty d \<longleftrightarrow> nelem d = 0"

definition darr_size :: "'a darr \<Rightarrow> nat" where
  "darr_size d = nelem d"

definition darr_clear :: "'a darr \<Rightarrow> 'a darr" where
  "darr_clear d = darr_resize_desc 0 d"

text \<open>The item pointer may be null: then the new element keeps the bytes of its slot.\<close>

definition darr_push_impl :: "'a darr \<Rightarrow> 'a option \<Rightarrow> 'a darr" where
  "darr_push_impl da item =
     (let n = nelem da;
          d = (if n \<ge> max_elem da
               then (let newsz = (if max_elem da \<noteq> 0 then max_elem da * 2 else 1)
                     in (darr_resize_desc newsz da)\<lparr>nelem := n\<rparr>)
               else da);
          d' = (case item of
                  None \<Rightarrow> d
                | Some x \<Rightarrow> d\<lparr>cells := (cells d)[nelem d := Some x]\<rparr>)
      in d'\<lparr>nelem := nelem d' + 1\<rparr>)"

definition darr_push :: "'a darr \<Rightarrow> 'a \<Rightarrow> 'a darr" where
  "darr_push d x = darr_push_impl d (Some x)"

definition darr_pop :: "'a darr \<Rightarrow> 'a darr" where
  "darr_pop da =
     (let n = nelem da
      in if n = 0 then da
         else
           let d = (if n \<le> max_elem da div 3
                    then (let newsz = max_elem da div 2
                          in (darr_resize_desc newsz da)\<lparr>nelem := n\<rparr>)
                    else da)
           in d\<lparr>nelem := nelem d - 1\<rparr>)"

text \<open>\<open>darr_finalize\<close> moves the whole buffer to the front of the block and hands it out.\<close>

definition darr_finalize :: "'a darr \<Rightarrow> 'a option list" where
  "darr_finalize d = take (max_elem d) (cells d)"

text \<open>The macros \<open>darr_strpush\<close> and \<open>darr_strpop\<close>: strings kept with their zero byte.\<close>

definition darr_strpush :: "char darr \<Rightarrow> char \<Rightarrow> char darr" where
  "darr_strpush d c =
     (let cnull = NUL; d = darr_pop d; d = darr_push d c in darr_push d cnull)"

definition darr_strpop :: "char darr \<Rightarrow> char darr" where
  "darr_strpop d = (let cnull = NUL; d = darr_pop d; d = darr_pop d in darr_push d cnull)"

text \<open>
  Access by index, \<open>da[i]\<close>: C checks nothing, so a slot outside the buffer or one that was
  never written is an \<open>Overread\<close>. \<open>qsort\<close> is called on the elements in use.
\<close>

definition darr_get :: "'a darr \<Rightarrow> int \<Rightarrow> 'a res" where
  "darr_get d i =
     (if 0 \<le> i \<and> i < int (length (cells d))
      then (case cells d ! nat i of None \<Rightarrow> Inl Overread | Some x \<Rightarrow> Inr x)
      else Inl Overread)"

definition darr_list :: "'a darr \<Rightarrow> 'a list" where
  "darr_list d = map the (take (nelem d) (cells d))"

definition darr_qsort :: "('a \<Rightarrow> 'a \<Rightarrow> int) \<Rightarrow> 'a darr \<Rightarrow> 'a darr" where
  "darr_qsort cmp d =
     d\<lparr>cells := map Some (qsort cmp (darr_list d)) @ drop (nelem d) (cells d)\<rparr>"

section \<open>Invariant\<close>

text \<open>
  \<open>darr_wf\<close> ties the descriptor to the buffer, \<open>darr_ok\<close> adds that every element in use was
  written, \<open>darr_tight\<close> bounds the buffer by the number of elements.
\<close>

definition darr_wf :: "'a darr \<Rightarrow> bool" where
  "darr_wf d \<longleftrightarrow> nelem d \<le> max_elem d \<and> length (cells d) = max_elem d
     \<and> bufsz d = max_elem d * szelem d"

definition darr_ok :: "'a darr \<Rightarrow> bool" where
  "darr_ok d \<longleftrightarrow> darr_wf d \<and> None \<notin> set (take (nelem d) (cells d))"

definition darr_tight :: "'a darr \<Rightarrow> bool" where
  "darr_tight d \<longleftrightarrow> max_elem d \<le> 3 * nelem d + 2"

lemmas darr_defs = darr_resize_desc_def darr_push_def darr_push_impl_def darr_pop_def
  darr_clear_def darr_size_def darr_alloc_def realloc_cells_def Let_def

lemma realloc_cells_length [simp]: "length (realloc_cells n cs) = n"
  by (simp add: realloc_cells_def)

lemma take_realloc_cells: "m \<le> n \<Longrightarrow> m \<le> length cs \<Longrightarrow> take m (realloc_cells n cs) = take m cs"
  by (simp add: realloc_cells_def)

lemma resize_wf: "darr_wf (darr_resize_desc n d)"
  by (simp add: darr_wf_def darr_resize_desc_def Let_def)

lemma grow_fields:
  assumes "darr_wf d"
  shows "darr_wf ((darr_resize_desc n d)\<lparr>nelem := nelem d\<rparr>) \<longleftrightarrow> nelem d \<le> n"
    and "nelem d \<le> n \<Longrightarrow> take (nelem d) (cells (darr_resize_desc n d)) = take (nelem d) (cells d)"
  using assms by (auto simp: darr_wf_def darr_resize_desc_def Let_def take_realloc_cells)

lemma darr_ok_wf: "darr_ok d \<Longrightarrow> darr_wf d"
  by (simp add: darr_ok_def)

lemma length_darr_list: "darr_wf d \<Longrightarrow> length (darr_list d) = nelem d"
  by (simp add: darr_list_def darr_wf_def)

lemma darr_ok_alloc [simp]: "darr_ok (darr_alloc 0 sz)"
  by (simp add: darr_ok_def darr_wf_def darr_alloc_def)

lemma darr_list_alloc [darr_simps]: "darr_list (darr_alloc 0 sz) = []"
  by (simp add: darr_list_def darr_alloc_def)

lemma darr_ok_clear [simp]: "darr_ok (darr_clear d)"
  by (simp add: darr_ok_def darr_clear_def resize_wf) (simp add: darr_resize_desc_def Let_def)

lemma darr_list_clear [darr_simps]: "darr_list (darr_clear d) = []"
  by (simp add: darr_list_def darr_clear_def darr_resize_desc_def Let_def)

text \<open>Every write of a push is inside the buffer: room was made before it.\<close>

lemma push_room:
  assumes "darr_wf d" and "nelem d \<ge> max_elem d"
  shows "nelem d < (if max_elem d \<noteq> 0 then max_elem d * 2 else 1)"
  using assms by (auto simp: darr_wf_def)

lemma darr_push_body:
  assumes "darr_wf d"
  obtains d' where "darr_wf d'" "nelem d' = nelem d" "nelem d' < max_elem d'"
    "take (nelem d) (cells d') = take (nelem d) (cells d)" "szelem d' = szelem d"
    "max_elem d' \<le> max (max_elem d) (2 * nelem d + 1)"
    "\<And>x. darr_push_impl d (Some x) = d'\<lparr>cells := (cells d')[nelem d := Some x], nelem := nelem d + 1\<rparr>"
    "darr_push_impl d None = d'\<lparr>nelem := nelem d + 1\<rparr>"
proof (cases "nelem d \<ge> max_elem d")
  case True
  let ?n = "if max_elem d \<noteq> 0 then max_elem d * 2 else 1"
  let ?d = "(darr_resize_desc ?n d)\<lparr>nelem := nelem d\<rparr>"
  have lt: "nelem d < ?n" using assms True by (rule push_room)
  show ?thesis
  proof (rule that [of ?d])
    show "darr_wf ?d" using grow_fields(1) [OF assms, of ?n] lt by simp
    show "take (nelem d) (cells ?d) = take (nelem d) (cells d)"
      using grow_fields(2) [OF assms, of ?n] lt by simp
  qed (use lt True assms in
      \<open>auto simp: darr_push_impl_def darr_resize_desc_def Let_def darr_wf_def\<close>)
next
  case False
  show ?thesis
    by (rule that [of d]) (use False assms in \<open>auto simp: darr_push_impl_def Let_def\<close>)
qed

lemma darr_push_list [darr_simps]:
  assumes "darr_ok d"
  shows "darr_list (darr_push d x) = darr_list d @ [x]" and "darr_ok (darr_push d x)"
proof -
  from assms have wf: "darr_wf d" by (rule darr_ok_wf)
  obtain d' where d': "darr_wf d'" "nelem d' = nelem d" "nelem d' < max_elem d'"
    "take (nelem d) (cells d') = take (nelem d) (cells d)"
    "\<And>x. darr_push_impl d (Some x) = d'\<lparr>cells := (cells d')[nelem d := Some x], nelem := nelem d + 1\<rparr>"
    using darr_push_body [OF wf] by metis
  have len: "nelem d < length (cells d')" using d' by (simp add: darr_wf_def)
  have upd: "take (Suc (nelem d)) ((cells d')[nelem d := Some x]) = take (nelem d) (cells d) @ [Some x]"
    using len d'(4) by (simp add: take_Suc_conv_app_nth)
  show "darr_list (darr_push d x) = darr_list d @ [x]"
    using upd by (simp add: darr_push_def d'(5) darr_list_def)
  show "darr_ok (darr_push d x)"
    using upd assms d' by (simp add: darr_push_def d'(5) darr_ok_def darr_wf_def)
qed

lemma darr_pop_body:
  assumes "darr_wf d" and "nelem d \<noteq> 0"
  obtains d' where "darr_wf d'" "nelem d' = nelem d"
    "take (nelem d) (cells d') = take (nelem d) (cells d)" "szelem d' = szelem d"
    "max_elem d' = (if nelem d \<le> max_elem d div 3 then max_elem d div 2 else max_elem d)"
    "darr_pop d = d'\<lparr>nelem := nelem d - 1\<rparr>"
proof (cases "nelem d \<le> max_elem d div 3")
  case True
  let ?n = "max_elem d div 2"
  let ?d = "(darr_resize_desc ?n d)\<lparr>nelem := nelem d\<rparr>"
  have le: "nelem d \<le> ?n" using True by linarith
  show ?thesis
  proof (rule that [of ?d])
    show "darr_wf ?d" using grow_fields(1) [OF assms(1), of ?n] le by simp
    show "take (nelem d) (cells ?d) = take (nelem d) (cells d)"
      using grow_fields(2) [OF assms(1), of ?n] le by simp
  qed (use True assms in \<open>auto simp: darr_pop_def darr_resize_desc_def Let_def\<close>)
next
  case False
  show ?thesis
    by (rule that [of d]) (use False assms in \<open>auto simp: darr_pop_def Let_def\<close>)
qed

lemma butlast_take_Suc: "n \<noteq> 0 \<Longrightarrow> n \<le> length xs \<Longrightarrow> butlast (take n xs) = take (n - 1) xs"
  by (simp add: butlast_conv_take min_def)

lemma darr_pop_list [darr_simps]:
  assumes "darr_ok d"
  shows "darr_list (darr_pop d) = butlast (darr_list d)" and "darr_ok (darr_pop d)"
proof -
  from assms have wf: "darr_wf d" by (rule darr_ok_wf)
  have "darr_list (darr_pop d) = butlast (darr_list d) \<and> darr_ok (darr_pop d)"
  proof (cases "nelem d = 0")
    case True
    then show ?thesis using assms by (simp add: darr_pop_def darr_list_def)
  next
    case False
    obtain d' where d': "darr_wf d'" "nelem d' = nelem d"
      "take (nelem d) (cells d') = take (nelem d) (cells d)"
      "darr_pop d = d'\<lparr>nelem := nelem d - 1\<rparr>"
      using darr_pop_body [OF wf False] by metis
    have t: "take (nelem d - 1) (cells d') = take (nelem d - 1) (cells d)"
      using arg_cong [OF d'(3), of "take (nelem d - 1)"] by (simp add: min_def)
    have "set (take (nelem d - 1) (cells d)) \<subseteq> set (take (nelem d) (cells d))"
      by (rule set_take_subset_set_take) simp
    moreover have "butlast (take (nelem d) (cells d)) = take (nelem d - 1) (cells d)"
      using False wf by (intro butlast_take_Suc) (auto simp: darr_wf_def)
    ultimately show ?thesis
      using assms d' t by (auto simp: darr_list_def darr_ok_def darr_wf_def map_butlast [symmetric])
  qed
  then show "darr_list (darr_pop d) = butlast (darr_list d)" and "darr_ok (darr_pop d)"
    by auto
qed

lemma darr_size_list: "darr_ok d \<Longrightarrow> darr_size d = length (darr_list d)"
  by (simp add: darr_size_def length_darr_list darr_ok_wf)

section \<open>The interface\<close>

locale stack_array =
  fixes size :: "'d \<Rightarrow> nat"
    and push :: "'d \<Rightarrow> 'a \<Rightarrow> 'd"
    and pop :: "'d \<Rightarrow> 'd"
    and clear :: "'d \<Rightarrow> 'd"
    and list :: "'d \<Rightarrow> 'a list"
    and inv :: "'d \<Rightarrow> bool"
  assumes size_list: "inv d \<Longrightarrow> size d = length (list d)"
    and push_list: "inv d \<Longrightarrow> list (push d x) = list d @ [x]"
    and push_inv: "inv d \<Longrightarrow> inv (push d x)"
    and pop_list: "inv d \<Longrightarrow> list (pop d) = butlast (list d)"
    and pop_inv: "inv d \<Longrightarrow> inv (pop d)"
    and clear_list: "list (clear d) = []"
    and clear_inv: "inv (clear d)"
begin

lemma push_all_inv: "inv d \<Longrightarrow> inv (foldl push d xs)"
  by (induction xs arbitrary: d) (auto simp: push_inv)

lemma push_all_list: "inv d \<Longrightarrow> list (foldl push d xs) = list d @ xs"
  by (induction xs arbitrary: d) (auto simp: push_inv push_list)

lemma refill_list: "list (foldl push (clear d) xs) = xs"
  by (simp add: push_all_list clear_inv clear_list)

lemma pop_push_list: "inv d \<Longrightarrow> list (pop (push d x)) = list d"
  by (simp add: pop_list push_inv push_list)

text \<open>Replacing the terminator, what the string macros do.\<close>

lemma strpush_list: "inv d \<Longrightarrow> list d = s @ [z] \<Longrightarrow> list (push (push (pop d) c) z) = s @ [c, z]"
  by (simp add: push_list push_inv pop_inv pop_list)

lemma strpush_empty_list: "inv d \<Longrightarrow> list d = [] \<Longrightarrow> list (push (push (pop d) c) z) = [c, z]"
  by (simp add: push_list push_inv pop_inv pop_list)

lemma strpop_list: "inv d \<Longrightarrow> list d = s @ [c, z] \<Longrightarrow> list (push (pop (pop d)) z) = s @ [z]"
  by (simp add: push_list push_inv pop_inv pop_list butlast_append)

end

interpretation da: stack_array darr_size darr_push darr_pop darr_clear darr_list darr_ok
  by unfold_locales (auto simp: darr_simps darr_size_list)

section \<open>Reading and sorting\<close>

lemma darr_list_nth: "i < nelem d \<Longrightarrow> darr_ok d \<Longrightarrow> cells d ! i = Some (darr_list d ! i)"
proof -
  assume i: "i < nelem d" and ok: "darr_ok d"
  then have len: "i < length (cells d)" by (simp add: darr_ok_def darr_wf_def)
  have "cells d ! i \<in> set (take (nelem d) (cells d))"
    using i len by (metis in_set_conv_nth length_take min_less_iff_conj nth_take)
  with ok have "cells d ! i \<noteq> None" by (metis darr_ok_def)
  then show ?thesis using i len by (simp add: darr_list_def)
qed

lemma darr_get_list:
  assumes "darr_ok d" and "0 \<le> i" and "i < int (length (darr_list d))"
  shows "darr_get d i = Inr (darr_list d ! nat i)"
proof -
  have "nelem d \<le> length (cells d)" using assms(1) by (simp add: darr_ok_def darr_wf_def)
  moreover have "nat i < nelem d"
    using assms by (simp add: length_darr_list darr_ok_wf)
  ultimately show ?thesis
    using assms by (simp add: darr_get_def darr_list_nth)
qed

lemma darr_get_negative: "i < 0 \<Longrightarrow> darr_get d i = Inl Overread"
  by (simp add: darr_get_def)

lemma darr_qsort_list [darr_simps]: "darr_ok d \<Longrightarrow> darr_list (darr_qsort cmp d) = qsort cmp (darr_list d)"
  by (simp add: darr_qsort_def darr_list_def [of "cells_update _ d"] length_darr_list darr_ok_wf comp_def)

lemma darr_qsort_ok [simp]: "darr_ok d \<Longrightarrow> darr_ok (darr_qsort cmp d)"
  by (auto simp: darr_qsort_def darr_ok_def darr_wf_def darr_list_def)

section \<open>Memory bound\<close>

lemma darr_tight_clear: "darr_tight (darr_clear d)"
  by (simp add: darr_tight_def darr_clear_def darr_resize_desc_def Let_def)

lemma darr_tight_push:
  assumes "darr_wf d" and "darr_tight d"
  shows "darr_tight (darr_push d x)"
proof -
  obtain d' where "max_elem d' \<le> max (max_elem d) (2 * nelem d + 1)"
    "\<And>x. darr_push_impl d (Some x) = d'\<lparr>cells := (cells d')[nelem d := Some x], nelem := nelem d + 1\<rparr>"
    using darr_push_body [OF assms(1)] by metis
  then show ?thesis using assms(2) by (simp add: darr_tight_def darr_push_def)
qed

lemma darr_tight_pop:
  assumes "darr_wf d" and "darr_tight d"
  shows "darr_tight (darr_pop d)"
proof (cases "nelem d = 0")
  case True
  then show ?thesis using assms by (simp add: darr_pop_def)
next
  case False
  obtain d' where
    "max_elem d' = (if nelem d \<le> max_elem d div 3 then max_elem d div 2 else max_elem d)"
    "darr_pop d = d'\<lparr>nelem := nelem d - 1\<rparr>"
    using darr_pop_body [OF assms(1) False] by metis
  then show ?thesis using assms(2) False by (auto simp: darr_tight_def)
qed

text \<open>Writing one element through its index.\<close>

lemma darr_set_ok:
  assumes "darr_ok d" and "i < nelem d"
  shows "darr_ok (d\<lparr>cells := (cells d)[i := Some x]\<rparr>)
    \<and> darr_list (d\<lparr>cells := (cells d)[i := Some x]\<rparr>) = (darr_list d)[i := x]"
proof -
  have "take (nelem d) ((cells d)[i := Some x]) = (take (nelem d) (cells d))[i := Some x]"
    by (simp add: take_update_swap)
  moreover have "None \<notin> set ((take (nelem d) (cells d))[i := Some x])"
    using assms(1) set_update_subset_insert [of "take (nelem d) (cells d)" i "Some x"]
    by (auto simp: darr_ok_def)
  ultimately show ?thesis
    using assms by (simp add: darr_ok_def darr_wf_def darr_list_def map_update)
qed

end
