(* ===== verification/Ftp_Text.thy ===== *)
theory Ftp_Text
  imports Darray "HOL-Library.Word"
begin

unbundle bit_operations_syntax

text \<open>
  The texts of the FTP conversation, from \<open>src/ftp.c\<close>: reply codes (\<open>respcode\<close>), the line
  \<open>proc_control\<close> looks at, quoted directory names (\<open>get_quoted_text\<close>), the address of a passive
  mode reply (the \<open>sscanf\<close> loop of \<open>cproc_pasv\<close>) and the one of a \<open>PORT\<close> command
  (\<open>ftp_active\<close>). All of them reach the code as C strings.

  The lemmas show what each decoder returns on the text the protocol prescribes: the code of a
  reply, the name between quotes, the address and port that the six numbers encode.
\<close>

section \<open>Reply codes\<close>

text \<open>
  A reply that ends is a positive code, a line that announces more of the same reply a negative
  one; 0 is no reply.
\<close>

definition respcode :: "string \<Rightarrow> int" where
  "respcode resp =
     (case resp of
        a # b # c # rest \<Rightarrow>
          if \<not> isdigit a \<or> \<not> isdigit b \<or> \<not> isdigit c then 0
          else (case rest of
                  [] \<Rightarrow> 0
                | d # _ \<Rightarrow> if isspace d then atoi resp
                           else if d = CHR ''-'' then - atoi resp
                           else 0)
      | _ \<Rightarrow> 0)"

text \<open>What \<open>proc_control\<close> does to the line first: leading blanks, then a cut at the first CR.\<close>

definition reply_line :: "string \<Rightarrow> string" where
  "reply_line buf = takeWhile (\<lambda>c. c \<noteq> CR) (dropWhile isspace buf)"

definition get_quoted_text :: "string \<Rightarrow> string option" where
  "get_quoted_text str =
     (case strchr str DQUOTE of
        None \<Rightarrow> None
      | Some q \<Rightarrow>
          let src = tl q;
              rest = dropWhile (\<lambda>c. c \<noteq> DQUOTE) src
          in if rest = [] then None
             else let len = length src - length rest in Some (take len src))"

section \<open>Addresses\<close>

text \<open>
  One \<open>%u\<close> of \<open>sscanf\<close>: blanks, a sign, digits, read into an \<open>unsigned int\<close>; the result is the
  value and what follows it.
\<close>

definition scan_u :: "string \<Rightarrow> (32 word \<times> string) option" where
  "scan_u s =
     (let t = dropWhile isspace s;
          neg = (t \<noteq> [] \<and> hd t = CHR ''-'');
          u = (if t \<noteq> [] \<and> (hd t = CHR ''-'' \<or> hd t = CHR ''+'') then tl t else t);
          v = of_nat (dec_val 0 u)
      in if u = [] \<or> \<not> isdigit (hd u) then None
         else Some (if neg then - v else v, dropWhile isdigit u))"

text \<open>\<open>sscanf\<close> with the conversions separated by commas; \<open>None\<close> when not all of them match.\<close>

fun scan_us :: "nat \<Rightarrow> string \<Rightarrow> 32 word list option" where
  "scan_us 0 s = Some []"
| "scan_us (Suc n) s =
     (case scan_u s of
        None \<Rightarrow> None
      | Some (v, r) \<Rightarrow>
          if n = 0 then Some [v]
          else (case r of
                  [] \<Rightarrow> None
                | c # r' \<Rightarrow> if c = CHR '','' then map_option ((#) v) (scan_us n r') else None))"

fun scan_addr :: "string \<Rightarrow> 32 word list option" where
  "scan_addr [] = None"
| "scan_addr (c # cs) =
     (case scan_us 6 (c # cs) of Some a \<Rightarrow> Some a | None \<Rightarrow> scan_addr cs)"

text \<open>The address and the port of a passive mode reply.\<close>

definition parse_pasv :: "string \<Rightarrow> (32 word \<times> int) option" where
  "parse_pasv buf =
     (case scan_addr buf of
        Some [a0, a1, a2, a3, a4, a5] \<Rightarrow>
          if (a0 OR a1 OR a2 OR a3 OR a4 OR a5) \<ge> 256 then None
          else let port = uint (push_bit 8 a4 OR a5);
                   ipaddr = push_bit 24 a0 OR push_bit 16 a1 OR push_bit 8 a2 OR a3
               in Some (ipaddr, port)
      | _ \<Rightarrow> None)"

text \<open>The argument of the \<open>PORT\<close> command that \<open>ftp_active\<close> sends, and the whole command.\<close>

definition commas :: "string list \<Rightarrow> string" where
  "commas xs = concat (map (\<lambda>(i, x). (if i = 0 then [] else '','') @ x) (enumerate (0::nat) xs))"

definition port_args :: "32 word \<Rightarrow> 16 word \<Rightarrow> string" where
  "port_args addr port =
     commas (map (\<lambda>n. dec_str n)
       [unat (drop_bit 24 addr), unat (drop_bit 16 addr AND 0xff), unat (drop_bit 8 addr AND 0xff),
        unat (addr AND 0xff), unat (drop_bit 8 port), unat (port AND 0xff)])"

section \<open>What the decoders return\<close>

subsection \<open>Reply codes and quoted names\<close>

text \<open>The three digits of a reply code.\<close>

definition code3 :: "nat \<Rightarrow> string" where
  "code3 n = [char_of (48 + n div 100), char_of (48 + n div 10 mod 10), char_of (48 + n mod 10)]"

lemma code3_digits:
  assumes "n < 1000"
  obtains a b c where "code3 n = [a, b, c]" "isdigit a" "isdigit b" "isdigit c"
    "100 * digit_val a + 10 * digit_val b + digit_val c = n"
proof -
  have d: "n div 100 < 10" "n div 10 mod 10 < 10" "n mod 10 < 10" using assms by auto
  have "n div 100 = n div 10 div 10" using div_mult2_eq [of n 10 10] by simp
  moreover have "10 * q + r = n \<Longrightarrow> 10 * q' + r' = q \<Longrightarrow> 100 * q' + 10 * r' + r = n" for q r q' r'
    by linarith
  ultimately have "100 * (n div 100) + 10 * (n div 10 mod 10) + n mod 10 = n"
    using mult_div_mod_eq [of 10 n] mult_div_mod_eq [of 10 "n div 10"] by metis
  then show ?thesis
    using that [of "char_of (48 + n div 100)" "char_of (48 + n div 10 mod 10)" "char_of (48 + n mod 10)"]
      char_of_digit [OF d(1)] char_of_digit [OF d(2)] char_of_digit [OF d(3)]
    by (simp add: code3_def)
qed

lemma atoi_code:
  assumes "isdigit a" "isdigit b" "isdigit c" "\<not> isdigit d"
  shows "atoi (a # b # c # d # t) = int (100 * digit_val a + 10 * digit_val b + digit_val c)"
proof -
  have v: "digit_val a \<le> 9" "digit_val b \<le> 9" "digit_val c \<le> 9"
    using assms(1-3) by (auto simp: isdigit_def digit_val_def)
  have "\<not> isspace a" "a \<noteq> CHR ''-''" "a \<noteq> CHR ''+''"
    using assms(1) by (auto simp: isdigit_not_isspace isdigit_def ccode_def)
  then show ?thesis using assms v by (simp add: atoi_def algebra_simps)
qed

lemma respcode_code3:
  assumes "n < 1000" and "\<not> isdigit d"
  shows "respcode (code3 n @ d # t)
    = (if isspace d then int n else if d = CHR ''-'' then - int n else 0)"
  using assms by (elim code3_digits) (auto simp: respcode_def atoi_code)

lemma respcode_bounds: "\<bar>respcode r\<bar> \<le> 999"
proof -
  have v: "isdigit x \<Longrightarrow> digit_val x \<le> 9" for x
    by (auto simp: isdigit_def digit_val_def)
  have "\<not> isdigit d" if "isspace d \<or> d = CHR ''-''" for d
    using that by (auto simp: isdigit_def isspace_def ccode_def)
  then have "\<bar>atoi (a # b # c # d # t)\<bar> \<le> 999"
    if "isdigit a" "isdigit b" "isdigit c" "isspace d \<or> d = CHR ''-''" for a b c d t
    using atoi_code [of a b c d t] that v [of a] v [of b] v [of c] by auto
  then show ?thesis by (auto simp: respcode_def split: list.splits)
qed

lemma get_quoted_eq:
  assumes "DQUOTE \<notin> set p"
  shows "get_quoted_text (p @ DQUOTE # s) =
    (if DQUOTE \<in> set s then Some (takeWhile (\<lambda>c. c \<noteq> DQUOTE) s) else None)"
proof -
  have "length s - length (dropWhile (\<lambda>c. c \<noteq> DQUOTE) s) = length (takeWhile (\<lambda>c. c \<noteq> DQUOTE) s)"
    by (metis add_diff_cancel_right' length_append takeWhile_dropWhile_id)
  then show ?thesis
    using assms by (auto simp: get_quoted_text_def strchr_append Let_def takeWhile_eq_take [symmetric] dropWhile_eq_Nil_conv)
qed

definition rfc_quoted :: "string \<Rightarrow> string" where
  "rfc_quoted s = concat (map (\<lambda>c. if c = DQUOTE then [DQUOTE, DQUOTE] else [c]) s)"

lemma takeWhile_rfc_quoted:
  "takeWhile (\<lambda>c. c \<noteq> DQUOTE) (rfc_quoted s @ DQUOTE # t) = takeWhile (\<lambda>c. c \<noteq> DQUOTE) s"
  by (induction s) (auto simp: rfc_quoted_def)

lemma get_quoted_rfc:
  assumes "DQUOTE \<notin> set p"
  shows "get_quoted_text (p @ DQUOTE # rfc_quoted s @ DQUOTE # t) = Some (takeWhile (\<lambda>c. c \<noteq> DQUOTE) s)"
  using assms by (simp add: get_quoted_eq takeWhile_rfc_quoted)

lemma get_quoted_length: "get_quoted_text s = Some t \<Longrightarrow> length t < length s"
proof -
  assume s: "get_quoted_text s = Some t"
  then obtain q where q: "strchr s DQUOTE = Some q" by (auto simp: get_quoted_text_def split: option.splits)
  then obtain p r where pr: "s = p @ DQUOTE # r" "DQUOTE \<notin> set p"
    using split_list_first [of DQUOTE s] by (auto simp: strchr_eq_Some)
  then show ?thesis using s length_takeWhile_le [of "\<lambda>c. c \<noteq> DQUOTE" r]
    by (auto simp: get_quoted_eq split: if_splits)
qed

subsection \<open>Addresses\<close>

lemma scan_u_dec:
  assumes "r = [] \<or> \<not> isdigit (hd r)"
  shows "scan_u (dec_str n @ r) = Some (of_nat n, r)"
proof -
  obtain c cs where dc: "dec_str n = c # cs" by (cases "dec_str n") auto
  have digs: "list_all isdigit (dec_str n)" by (rule dec_str_digits)
  with dc have c: "isdigit c" by simp
  then have nosp: "\<not> isspace c" and nosign: "c \<noteq> CHR ''-''" "c \<noteq> CHR ''+''"
    by (auto simp: isdigit_not_isspace isdigit_def ccode_def)
  have drop: "dropWhile isdigit (dec_str n @ r) = r"
    using digs assms by (auto simp: dropWhile_append list_all_iff dropWhile_eq_Nil_conv)
      (cases r; simp)
  have stop: "dec_val acc r = acc" for acc using assms by (cases r) auto
  have val: "dec_val 0 (dec_str n @ r) = n"
    using digs by (simp add: dec_val_append dec_val_dec_str stop)
  show ?thesis using drop val c nosp nosign by (simp add: scan_u_def dc Let_def)
qed

lemma scan_us_commas:
  assumes "post = [] \<or> \<not> isdigit (hd post)"
  shows "scan_us (Suc (length ns)) (dec_str n @ concat (map (\<lambda>m. '','' @ dec_str m) ns) @ post)
    = Some (map of_nat (n # ns))"
proof (induction ns arbitrary: n)
  case Nil
  then show ?case using scan_u_dec [OF assms] by simp
next
  case (Cons m ns)
  have "\<not> isdigit CHR '',''" by (simp add: isdigit_def ccode_def)
  then show ?case using Cons.IH [of m] by (simp add: scan_u_dec)
qed

lemma scan_us_fail_hd:
  assumes "n \<noteq> 0" and "c \<noteq> CHR ''-''" "c \<noteq> CHR ''+''" "\<not> isdigit c" "\<not> isspace c"
  shows "scan_us n (c # cs) = None"
  using assms by (cases n) (auto simp: scan_u_def)

text \<open>Text without a digit, up to an opening bracket, matches no number.\<close>

lemma scan_u_no_digit:
  assumes "\<forall>c \<in> set tx. \<not> isdigit c"
  shows "scan_u (tx @ CHR ''('' # s) = None"
proof -
  have br: "\<not> isdigit CHR ''(''" "\<not> isspace CHR ''(''" by (simp_all add: isdigit_def isspace_def ccode_def)
  have "\<exists>c p'. dropWhile isspace (tx @ CHR ''('' # s) = c # p'
    \<and> (c = CHR ''('' \<or> c \<in> set tx \<and> (\<exists>d q. p' = d # q \<and> (d = CHR ''('' \<or> d \<in> set tx)))"
  proof (induction tx)
    case Nil
    then show ?case using br by simp
  next
    case (Cons a bs)
    show ?case
    proof (cases "isspace a")
      case True
      with Cons show ?thesis by auto
    next
      case False
      then show ?thesis by (cases bs) auto
    qed
  qed
  then show ?thesis using assms br by (auto simp: scan_u_def Let_def)
qed

lemma scan_addr_skip:
  assumes "\<forall>c \<in> set tx. \<not> isdigit c"
  shows "scan_addr (tx @ CHR ''('' # s) = scan_addr s"
  using assms
proof (induction tx)
  case Nil
  then show ?case using scan_u_no_digit [of "[]" s] by (simp add: eval_nat_numeral)
next
  case (Cons a bs)
  then have "scan_u ((a # bs) @ CHR ''('' # s) = None" by (intro scan_u_no_digit) auto
  then show ?case using Cons by (simp add: eval_nat_numeral)
qed

lemma scan_addr_227:
  assumes "\<forall>c \<in> set tx. \<not> isdigit c"
  shows "scan_addr (''227 '' @ tx @ CHR ''('' # s) = scan_addr s"
proof -
  have d: "isdigit CHR ''2''" "isdigit CHR ''7''" "\<not> isdigit CHR '' ''"
    by (simp_all add: isdigit_def ccode_def)
  have sp: "\<not> isspace CHR ''2''" "\<not> isspace CHR ''7''" 
    by (simp_all add: isspace_def ccode_def)
  have tail: "scan_addr (CHR '' '' # tx @ CHR ''('' # s) = scan_addr s"
    using scan_addr_skip [of "CHR '' '' # tx" s] assms d by simp
  have "scan_us 6 (''227 '' @ tx @ CHR ''('' # s) = None"
    "scan_us 6 (''27 '' @ tx @ CHR ''('' # s) = None"
    "scan_us 6 (''7 '' @ tx @ CHR ''('' # s) = None"
    using d sp by (simp_all add: eval_nat_numeral scan_u_def Let_def)
  then show ?thesis using tail by simp
qed

lemma commas_Cons: "commas (x # xs) = x @ concat (map (\<lambda>y. '','' @ y) xs)"
proof -
  have "concat (map (\<lambda>(i, x). (if i = 0 then [] else '','') @ x) (enumerate (Suc k) xs))
    = concat (map (\<lambda>y. '','' @ y) xs)" for k
    by (induction xs arbitrary: k) auto
  then show ?thesis by (simp add: commas_def)
qed

lemma and_255: "(x :: 'a :: len word) AND 255 = take_bit 8 x"
proof -
  have "mask 8 = (255 :: 'a word)" by (simp add: mask_eq_exp_minus_1)
  then show ?thesis by (simp add: take_bit_eq_mask)
qed

lemma bytes_join:
  fixes a :: "32 word"
  shows "push_bit 24 (drop_bit 24 a) OR push_bit 16 (drop_bit 16 a AND 255)
    OR push_bit 8 (drop_bit 8 a AND 255) OR (a AND 255) = a"
proof (rule bit_word_eqI)
  fix n
  assume "n < LENGTH(32)"
  then show "bit (push_bit 24 (drop_bit 24 a) OR push_bit 16 (drop_bit 16 a AND 255)
    OR push_bit 8 (drop_bit 8 a AND 255) OR (a AND 255)) n = bit a n"
    by (cases "n < 8"; cases "n < 16"; cases "n < 24") (auto simp: and_255 bit_simps less_diff_conv2)
qed

lemma port_join:
  fixes p :: "16 word"
  shows "push_bit 8 (of_nat (unat (drop_bit 8 p))) OR of_nat (unat (p AND 255)) = (ucast p :: 32 word)"
proof (rule bit_word_eqI)
  fix n
  assume "n < LENGTH(32)"
  show "bit (push_bit 8 (of_nat (unat (drop_bit 8 p))) OR of_nat (unat (p AND 255)) :: 32 word) n 
     = bit (ucast p :: 32 word) n"
    by (auto simp: and_255 bit_simps)
qed

lemma byte_bounds:
  fixes a :: "32 word" and p :: "16 word"
  shows "drop_bit 24 a < 256" "drop_bit 16 a AND 255 < 256" "drop_bit 8 a AND 255 < 256" "a AND 255 < 256"
   "unat (drop_bit 8 p) < 256" "unat (p AND 255) < 256"
proof -
  have w: "x AND 255 < 256" for x :: "32 word"
    by (rule le_less_trans [OF word_and_le1]) simp
  show "drop_bit 16 a AND 255 < 256" "drop_bit 8 a AND 255 < 256" "a AND 255 < 256" by (rule w)+
  have "unat (drop_bit 24 a) < 256"
    using unsigned_less [of a, where ?'a = nat] by (simp only: unat_drop_bit_eq drop_bit_eq_div [where 'a = nat]) (simp add: less_mult_imp_div_less)
  then show "drop_bit 24 a < 256" by (simp add: word_less_nat_alt)
  show "unat (drop_bit 8 p) < 256"
    using unsigned_less [of p, where ?'a = nat] by (simp only: unat_drop_bit_eq drop_bit_eq_div [where 'a = nat]) (simp add: less_mult_imp_div_less)
  have "p AND 255 < 256" by (rule le_less_trans [OF word_and_le1]) simp
  then show "unat (p AND 255) < 256" by (simp add: word_less_nat_alt)
qed

lemma or_less_256: "x < 256 \<Longrightarrow> y < 256 \<Longrightarrow> x OR y < (256 :: 32 word)"
proof -
  have iff: "z < 256 \<longleftrightarrow> take_bit 8 (unat z) = unat z" for z :: "32 word"
    by (simp add: word_less_nat_alt take_bit_nat_eq_self_iff)
  show "x < 256 \<Longrightarrow> y < 256 \<Longrightarrow> x OR y < 256" by (simp only: iff unsigned_or_eq take_bit_or)
qed

lemma of_nat_less_256: "n < 256 \<Longrightarrow> (of_nat n :: 32 word) < 256"
  by (simp add: word_less_nat_alt unat_of_nat)

lemma not_digit_comma_paren: "\<not> isdigit CHR '',''" "\<not> isdigit CHR '')''"
  by (simp_all add: isdigit_def ccode_def)

lemma scan_addr_first: "scan_us 6 s = Some v \<Longrightarrow> s \<noteq> [] \<Longrightarrow> scan_addr s = Some v"
  by (cases s) auto

lemma scan_addr_port_args:
  assumes "post = [] \<or> \<not> isdigit (hd post)"
  shows "scan_addr (port_args a p @ post)
    = Some [drop_bit 24 a, drop_bit 16 a AND 255, drop_bit 8 a AND 255, a AND 255,
        of_nat (unat (drop_bit 8 p)), of_nat (unat (p AND 255))]"
proof (rule scan_addr_first)
  show "port_args a p @ post \<noteq> []" by (simp add: port_args_def commas_Cons)
  show "scan_us 6 (port_args a p @ post)
    = Some [drop_bit 24 a, drop_bit 16 a AND 255, drop_bit 8 a AND 255, a AND 255,
        of_nat (unat (drop_bit 8 p)), of_nat (unat (p AND 255))]"
    using scan_us_commas [OF assms, of
        "[unat (drop_bit 16 a AND 255), unat (drop_bit 8 a AND 255), unat (a AND 255),
          unat (drop_bit 8 p), unat (p AND 255)]" "unat (drop_bit 24 a)"]
    by (simp add: port_args_def commas_Cons eval_nat_numeral del: scan_us.simps)
qed

lemma parse_pasv_port_args:
  assumes "\<forall>c \<in> set tx. \<not> isdigit c" and "post = [] \<or> \<not> isdigit (hd post)"
  shows "parse_pasv (''227 '' @ tx @ CHR ''('' # port_args a p @ post) = Some (a, uint p)"
proof -
  let ?v = "[drop_bit 24 a, drop_bit 16 a AND 255, drop_bit 8 a AND 255, a AND 255,
        of_nat (unat (drop_bit 8 p)), of_nat (unat (p AND 255))]"
  have s: "scan_addr (''227 '' @ tx @ CHR ''('' # port_args a p @ post) = Some ?v"
    using scan_addr_227 [OF assms(1)] scan_addr_port_args [OF assms(2)] by simp
  have lt: "\<not> 256 \<le> drop_bit 24 a OR (drop_bit 16 a AND 255) OR (drop_bit 8 a AND 255) OR (a AND 255)
      OR of_nat (unat (drop_bit 8 p)) OR of_nat (unat (p AND 255))"
    unfolding not_le
    by (intro or_less_256 byte_bounds of_nat_less_256)
  have "uint (push_bit 8 (of_nat (unat (drop_bit 8 p))) OR of_nat (unat (p AND 255)) :: 32 word) = uint p"
    by (simp only: port_join) (simp add: unsigned_ucast_eq take_bit_int_eq_self_iff order_less_le_trans [OF uint_bounded])
  then show ?thesis using s lt bytes_join [of a]
    by (simp add: parse_pasv_def or.assoc Let_def)
qed

end
