(* ===== verification/Ftp_Listing.thy ===== *)
theory Ftp_Listing
  imports Ftp_Text
begin

text \<open>
  Directory listings, from \<open>src/ftp.c\<close>: \<open>parse_dirent\<close> with its macro \<open>SKIP_FIELD\<close>,
  \<open>ftp_direntcmp\<close>, and the loop of \<open>dproc_list\<close> over the bytes of the listing.

  A pointer into the listing is the list of the bytes from it to the end of the block \<open>rbuf->buf\<close>, which is longer
  than what was received; no zero byte was put behind the received bytes. A scan that leaves the block is an
  \<open>Overread\<close>, one that only leaves the received bytes goes on with whatever the memory held.

  \<open>ls_text\<close> is a line of a listing in the form the parser expects (nine columns, an optional
  link target, CR LF); the lemmas show that a listing of such lines is read back entry by entry, whatever
  is behind it in the block, and what becomes of lines that end with LF alone (\<open>ls_lf\<close>).
\<close>

section \<open>Directory listings\<close>

datatype dtype = FTP_DIR | FTP_FILE

text \<open>\<open>de_size\<close> is \<open>None\<close> while nothing was stored in it: the code never sets it for directories.\<close>

record ftp_dirent =
  de_name :: string
  de_type :: dtype
  de_size :: "int option"

text \<open>\<open>strchr\<close> on bytes that no zero byte ends.\<close>

fun mem_chr :: "string \<Rightarrow> char \<Rightarrow> string option res" where
  "mem_chr [] x = Inl Overread"
| "mem_chr (c # cs) x =
     (if c = x then Inr (Some (c # cs)) else if c = NUL then Inr None else mem_chr cs x)"

text \<open>The two loops of the macro \<open>SKIP_FIELD\<close>.\<close>

fun skip_word :: "string \<Rightarrow> string res" where
  "skip_word [] = Inl Overread"
| "skip_word (c # cs) =
     (if c \<noteq> NUL \<and> c \<noteq> LF \<and> \<not> isspace c then skip_word cs else Inr (c # cs))"

fun skip_blank :: "string \<Rightarrow> string res" where
  "skip_blank [] = Inl Overread"
| "skip_blank (c # cs) =
     (if c \<noteq> NUL \<and> c \<noteq> LF \<and> isspace c then skip_blank cs else Inr (c # cs))"

definition skip_field :: "string \<Rightarrow> string res" where
  "skip_field p = bindE (skip_word p) skip_blank"

fun skip_fields :: "nat \<Rightarrow> string \<Rightarrow> string res" where
  "skip_fields 0 p = Inr p"
| "skip_fields (Suc n) p = bindE (skip_field p) (skip_fields n)"

text \<open>\<open>atoi\<close> on bytes that no zero byte ends: it must meet a byte that stops it.\<close>

definition mem_atoi :: "string \<Rightarrow> int res" where
  "mem_atoi p =
     (let t = dropWhile isspace p;
          u = (if t \<noteq> [] \<and> (hd t = CHR ''-'' \<or> hd t = CHR ''+'') then tl t else t)
      in if dropWhile isdigit u = [] then Inl Overread else Inr (atoi p))"

text \<open>
  The search for the arrow of a symbolic link in the \<open>n\<close> bytes of the name, and the loop that
  then drops the blanks before it; it never looks at the first byte of the name.
\<close>

fun find_arrow :: "nat \<Rightarrow> nat \<Rightarrow> string \<Rightarrow> nat option" where
  "find_arrow i 0 p = None"
| "find_arrow i (Suc n) p =
     (case p of
        a # b # r \<Rightarrow> if a = CHR ''-'' \<and> b = CHR ''>'' then Some i else find_arrow (Suc i) n (b # r)
      | _ \<Rightarrow> None)"

fun trim_back :: "string \<Rightarrow> nat \<Rightarrow> nat" where
  "trim_back name 0 = 0"
| "trim_back name (Suc e) = (if 0 < e \<and> isspace (name ! e) then trim_back name e else Suc e)"

definition name_length :: "string \<Rightarrow> nat \<Rightarrow> nat" where
  "name_length name n = (case find_arrow 0 n name of None \<Rightarrow> n | Some e \<Rightarrow> trim_back name e)"

text \<open>
  \<open>parse_dirent\<close> fills in the entry it is given; the second result is false where the C function
  returns -1. Pointers are compared by the number of bytes after them.
\<close>

abbreviation line_end :: "string \<Rightarrow> string option res" where
  "line_end line \<equiv>
     bindE (mem_chr line CR) (\<lambda>e. case e of Some e' \<Rightarrow> Inr (Some e') | None \<Rightarrow> mem_chr line LF)"

definition parse_dirent :: "ftp_dirent \<Rightarrow> string \<Rightarrow> (ftp_dirent \<times> bool) res" where
  "parse_dirent ent line =
     bindE (line_end line)
       (\<lambda>eolp. case eolp of
          None \<Rightarrow> Inr (ent, False)
        | Some eolp \<Rightarrow>
            let ent1 = ent\<lparr>de_type := if hd line = CHR ''d'' then FTP_DIR else FTP_FILE\<rparr>
            in bindE (skip_fields 4 line) (\<lambda>p.
               bindE (if de_type ent1 = FTP_FILE
                      then bindE (mem_atoi p) (\<lambda>n. Inr (ent1\<lparr>de_size := Some n\<rparr>))
                      else Inr ent1) (\<lambda>ent2.
               bindE (skip_fields 4 p) (\<lambda>name.
               if length name \<le> length eolp then Inr (ent2, False)
               else
                 let len = name_length name (length name - length eolp)
                 in if len = 0 then Inr (ent2, False)
                    else Inr (ent2\<lparr>de_name := take len name\<rparr>, True)))))"

definition ftp_direntcmp :: "ftp_dirent \<Rightarrow> ftp_dirent \<Rightarrow> int" where
  "ftp_direntcmp da db =
     (if de_type da = de_type db then strcmp (de_name da) (de_name db)
      else if de_type da = FTP_DIR then -1 else 1)"

text \<open>
  The loop over the received bytes in \<open>dproc_list\<close>: \<open>n\<close> is \<open>end - ptr\<close>. The two inner loops stop at \<open>end\<close>,
  \<open>parse_dirent\<close> does not. The entry is a local variable that each call of \<open>parse_dirent\<close> writes to, so it
  carries over from line to line.
\<close>

abbreviation is_eol :: "char \<Rightarrow> bool" where
  "is_eol c \<equiv> c = LF \<or> c = CR"

definition next_line :: "string \<Rightarrow> string" where
  "next_line p = dropWhile is_eol (dropWhile (\<lambda>c. \<not> is_eol c) p)"

lemma next_line_shorter: "p \<noteq> [] \<Longrightarrow> length (next_line p) < length p"
proof -
  assume "p \<noteq> []"
  then obtain c cs where p: "p = c # cs" by (cases p) auto
  have le: "length (dropWhile is_eol (dropWhile (\<lambda>c. \<not> is_eol c) cs)) \<le> length cs"
    by (meson le_trans length_dropWhile_le)
  show ?thesis
    using p le length_dropWhile_le [of is_eol cs] by (auto simp: next_line_def less_Suc_eq_le)
qed

lemma next_line_less: "0 < n \<Longrightarrow> length (next_line (take n p)) < n"
proof (cases "take n p = []")
  case False
  show ?thesis using next_line_shorter [OF False] by simp
qed (simp add: next_line_def)

function parse_listing :: "ftp_dirent \<Rightarrow> nat \<Rightarrow> string \<Rightarrow> ftp_dirent darr \<Rightarrow> ftp_dirent darr res" where
  "parse_listing ent n ptr dirent =
     (if n = 0 then Inr dirent
      else bindE (parse_dirent ent ptr) (\<lambda>(ent', ok).
           let n' = length (next_line (take n ptr))
           in parse_listing ent' n' (drop (n - n') ptr) (if ok then darr_push dirent ent' else dirent)))"
  by pat_completeness auto
termination
  by (relation "measure (\<lambda>(ent, n, ptr, d). n)") (auto simp: next_line_less)

declare parse_listing.simps [simp del]

section \<open>Listings in the expected form\<close>

record ls_entry =
  ls_mode :: string
  ls_links :: string
  ls_owner :: string
  ls_group :: string
  ls_size :: nat
  ls_month :: string
  ls_day :: string
  ls_year :: string
  ls_name :: string
  ls_target :: "string option"
  ls_pad :: "nat \<Rightarrow> nat"

fun ls_cols :: "(string \<times> nat) list \<Rightarrow> string" where
  "ls_cols [] = []"
| "ls_cols ((f, n) # cs) = f @ replicate (Suc n) CHR '' '' @ ls_cols cs"

definition ls_name_text :: "ls_entry \<Rightarrow> string" where
  "ls_name_text e = ls_name e @ (case ls_target e of None \<Rightarrow> [] | Some t \<Rightarrow> '' -> '' @ t)"

definition ls_text :: "ls_entry \<Rightarrow> string" where
  "ls_text e =
     ls_cols [(ls_mode e, ls_pad e 0), (ls_links e, ls_pad e 1), (ls_owner e, ls_pad e 2), (ls_group e, ls_pad e 3)]
     @ ls_cols [(dec_str (ls_size e), ls_pad e 4), (ls_month e, ls_pad e 5), (ls_day e, ls_pad e 6), (ls_year e, ls_pad e 7)]
     @ ls_name_text e @ [CR, LF]"

text \<open>A line without its end, and a line that ends with LF alone.\<close>

definition ls_line :: "ls_entry \<Rightarrow> string" where
  "ls_line e =
     ls_cols [(ls_mode e, ls_pad e 0), (ls_links e, ls_pad e 1), (ls_owner e, ls_pad e 2), (ls_group e, ls_pad e 3)]
     @ ls_cols [(dec_str (ls_size e), ls_pad e 4), (ls_month e, ls_pad e 5), (ls_day e, ls_pad e 6), (ls_year e, ls_pad e 7)]
     @ ls_name_text e"

definition ls_lf :: "ls_entry \<Rightarrow> string" where
  "ls_lf e = ls_line e @ [LF]"

definition ls_word :: "string \<Rightarrow> bool" where
  "ls_word f \<longleftrightarrow> f \<noteq> [] \<and> list_all (\<lambda>c. c \<noteq> NUL \<and> \<not> isspace c) f"

fun no_arrow :: "string \<Rightarrow> bool" where
  "no_arrow (a # b # r) \<longleftrightarrow> \<not> (a = CHR ''-'' \<and> b = CHR ''>'') \<and> no_arrow (b # r)"
| "no_arrow _ \<longleftrightarrow> True"

definition line_text :: "string \<Rightarrow> bool" where
  "line_text s \<longleftrightarrow> list_all (\<lambda>c. c \<noteq> NUL \<and> c \<noteq> CR \<and> c \<noteq> LF) s"

definition ls_wf :: "ls_entry \<Rightarrow> bool" where
  "ls_wf e \<longleftrightarrow> list_all ls_word [ls_mode e, ls_links e, ls_owner e, ls_group e, ls_month e, ls_day e, ls_year e]
     \<and> ls_name e \<noteq> [] \<and> \<not> isspace (hd (ls_name e)) \<and> \<not> isspace (last (ls_name e))
     \<and> no_arrow (ls_name e) \<and> line_text (ls_name_text e)"

definition ls_type :: "ls_entry \<Rightarrow> dtype" where
  "ls_type e = (if hd (ls_mode e) = CHR ''d'' then FTP_DIR else FTP_FILE)"

definition ls_view :: "ls_entry \<Rightarrow> string \<times> dtype \<times> int option" where
  "ls_view e = (ls_name e, ls_type e,
     if ls_type e = FTP_FILE then Some (int32 (int (ls_size e))) else None)"

definition dirent_view :: "ftp_dirent \<Rightarrow> string \<times> dtype \<times> int option" where
  "dirent_view d = (de_name d, de_type d, if de_type d = FTP_FILE then de_size d else None)"

lemma skip_word_app: "list_all (\<lambda>c. c \<noteq> NUL \<and> \<not> isspace c) f \<Longrightarrow> skip_word (f @ r) = skip_word r"
  by (induction f) (auto simp: isspace_CR_LF)

lemma skip_blank_pad: "skip_blank (replicate n CHR '' '' @ r) = skip_blank r"
  by (induction n) (auto simp: isspace_def)

lemma skip_field_col:
  assumes "ls_word f" and "r \<noteq> []" and "\<not> isspace (hd r)"
  shows "skip_field (f @ replicate (Suc n) CHR '' '' @ r) = Inr r"
proof -
  have "skip_word (f @ replicate (Suc n) CHR '' '' @ r) = Inr (replicate (Suc n) CHR '' '' @ r)"
    using assms(1) by (simp add: ls_word_def skip_word_app isspace_def)
  moreover have "skip_blank (replicate (Suc n) CHR '' '' @ r) = Inr r"
    using assms(2,3) by (cases r) (simp_all only: skip_blank_pad, auto)
  ultimately show ?thesis by (simp add: skip_field_def)
qed

lemma ls_cols_hd:
  "\<forall>c \<in> set cs. ls_word (fst c) \<Longrightarrow> r \<noteq> [] \<Longrightarrow> \<not> isspace (hd r) \<Longrightarrow>
     ls_cols cs @ r \<noteq> [] \<and> \<not> isspace (hd (ls_cols cs @ r))"
  by (cases cs rule: ls_cols.cases) (auto simp: ls_word_def hd_append list_all_iff)

lemma skip_fields_cols:
  assumes "r \<noteq> []" and "\<not> isspace (hd r)" and "\<forall>c \<in> set cs. ls_word (fst c)"
  shows "skip_fields (length cs) (ls_cols cs @ r) = Inr r"
  using assms(3)
proof (induction cs rule: ls_cols.induct)
  case (2 f n cs)
  then have "\<forall>c \<in> set cs. ls_word (fst c)" and "ls_word f" by simp_all
  then have "skip_field (f @ replicate (Suc n) CHR '' '' @ ls_cols cs @ r) = Inr (ls_cols cs @ r)"
    using ls_cols_hd [of cs r] assms(1,2) by (intro skip_field_col) blast+
  then show ?case using 2 by simp
qed simp

lemma mem_chr_first: "x \<notin> set p \<Longrightarrow> NUL \<notin> set p \<Longrightarrow> mem_chr (p @ x # r) x = Inr (Some (x # r))"
  by (induction p) auto

lemma mem_chr_overread: "x \<notin> set p \<Longrightarrow> NUL \<notin> set p \<Longrightarrow> mem_chr p x = Inl Overread"
  by (induction p) auto

lemma find_arrow_skip:
  "no_arrow (u @ [hd r]) \<Longrightarrow> r \<noteq> [] \<Longrightarrow>
     find_arrow i (length u + n) (u @ r) = find_arrow (i + length u) n r"
proof (induction u arbitrary: i)
  case (Cons a u)
  then obtain b w where bw: "u @ r = b # w" "u @ [hd r] = b # tl (u @ [hd r])"
    by (cases u; cases r) auto
  with Cons.prems have "\<not> (a = CHR ''-'' \<and> b = CHR ''>'')" "no_arrow (u @ [hd r])"
    by (metis append_Cons no_arrow.simps(1))+
  then have "find_arrow i (length (a # u) + n) (a # b # w) = find_arrow (Suc i) (length u + n) (b # w)"
    by auto
  with Cons.IH [of "Suc i"] Cons.prems(2) bw \<open>no_arrow (u @ [hd r])\<close> show ?case by simp
qed simp

lemma no_arrow_snoc: "no_arrow u \<Longrightarrow> c \<noteq> CHR ''>'' \<Longrightarrow> no_arrow (u @ [c])"
  by (induction u rule: no_arrow.induct) auto

lemma no_arrow_append: "no_arrow u \<Longrightarrow> no_arrow v \<Longrightarrow> c \<noteq> CHR ''-'' \<Longrightarrow> c \<noteq> CHR ''>'' \<Longrightarrow> no_arrow (u @ c # v)"
proof (induction u)
  case (Cons a u)
  then show ?case by (cases u; cases v) auto
qed (cases v; auto)

lemma name_length_plain:
  assumes "no_arrow nm" "c \<noteq> CHR ''>''"
  shows "name_length (nm @ c # r) (length nm) = length nm"
  using find_arrow_skip [of nm "c # r" 0 0] no_arrow_snoc [OF assms] by (simp add: name_length_def)

lemma name_length_link:
  assumes "no_arrow nm" and "nm \<noteq> []" and "\<not> isspace (last nm)"
  shows "name_length (nm @ '' -> '' @ t @ r) (length nm + 4 + n) = length nm"
proof -
  have a: "find_arrow 0 (length (nm @ '' '') + (3 + n)) ((nm @ '' '') @ ''-> '' @ t @ r) = Some (Suc (length nm))"
    using find_arrow_skip [of "nm @ '' ''" "''-> '' @ t @ r" 0 "3 + n"]
      no_arrow_snoc [OF no_arrow_snoc [OF assms(1)], of "CHR '' ''" "CHR ''-''"]
    by (simp add: eval_nat_numeral)
  obtain k where k: "length nm = Suc k" using assms(2) by (cases nm) auto
  have "(nm @ '' -> '' @ t @ r) ! k = last nm"
    using k assms(2) by (simp add: nth_append last_conv_nth)
  then have "trim_back (nm @ '' -> '' @ t @ r) (Suc (length nm)) = length nm"
    using k assms(3) by (auto simp: nth_append isspace_def)
  moreover have "find_arrow 0 (length nm + 4 + n) (nm @ '' -> '' @ t @ r) = Some (Suc (length nm))"
    using a by (simp add: ac_simps)
  ultimately show ?thesis by (simp only: name_length_def option.case)
qed

lemma mem_atoi_size:
  assumes "r \<noteq> []" "\<not> isdigit (hd r)"
  shows "mem_atoi (dec_str n @ r) = Inr (int32 (int n))"
proof -
  obtain c cs where dc: "dec_str n = c # cs" by (cases "dec_str n") auto
  have digs: "list_all isdigit (dec_str n)" by (rule dec_str_digits)
  with dc have c: "isdigit c" by simp
  then have nosp: "\<not> isspace c" and nosign: "c \<noteq> CHR ''-''" "c \<noteq> CHR ''+''"
    by (auto simp: isdigit_not_isspace isdigit_def ccode_def)
  have stop: "dec_val acc r = acc" for acc using assms by (cases r) auto
  have val: "dec_val 0 (c # cs @ r) = n"
    using dec_val_append [OF digs, of 0 r] by (simp only: dec_val_dec_str stop) (simp add: dc)
  have "dropWhile isdigit (dec_str n @ r) = r"
    using digs assms by (auto simp: dropWhile_append list_all_iff dropWhile_eq_Nil_conv)
      (cases r; simp)
  with assms(1) dc nosp nosign val hd_in_set [OF assms(1)] assms(2) show ?thesis
    by (auto simp add: mem_atoi_def atoi_def Let_def del: dec_val.simps)
qed

definition ls_head :: "ls_entry \<Rightarrow> (string \<times> nat) list" where
  "ls_head e = [(ls_mode e, ls_pad e 0), (ls_links e, ls_pad e 1), (ls_owner e, ls_pad e 2), (ls_group e, ls_pad e 3)]"

definition ls_rest :: "ls_entry \<Rightarrow> (string \<times> nat) list" where
  "ls_rest e = [(dec_str (ls_size e), ls_pad e 4), (ls_month e, ls_pad e 5), (ls_day e, ls_pad e 6), (ls_year e, ls_pad e 7)]"

lemma ls_line_eq: "ls_line e = ls_cols (ls_head e) @ ls_cols (ls_rest e) @ ls_name_text e"
  by (simp only: ls_line_def ls_head_def ls_rest_def)

lemma ls_text_eq: "ls_text e = ls_line e @ [CR, LF]"
  by (simp add: ls_text_def ls_line_def)

lemma ls_word_dec_str: "ls_word (dec_str n)"
  using dec_str_digits [of n] by (auto simp: ls_word_def list_all_iff isdigit_not_isspace ctype_NUL)

lemma ls_wf_words:
  assumes "ls_wf e"
  shows "ls_word (ls_mode e)" "ls_word (ls_links e)" "ls_word (ls_owner e)" "ls_word (ls_group e)"
    "ls_word (ls_month e)" "ls_word (ls_day e)" "ls_word (ls_year e)"
  using assms by (simp_all add: ls_wf_def)

lemma ls_wf_cols:
  assumes "ls_wf e"
  shows "\<forall>c \<in> set (ls_head e). ls_word (fst c)" "\<forall>c \<in> set (ls_rest e). ls_word (fst c)"
  unfolding ls_head_def ls_rest_def
  by (simp_all only: list.set ball_simps fst_conv ls_wf_words [OF assms] ls_word_dec_str simp_thms)

lemma length_ls_cols: "length (ls_head e) = 4" "length (ls_rest e) = 4"
  by (simp_all add: ls_head_def ls_rest_def)

lemma ls_word_line: "ls_word f \<Longrightarrow> line_text f"
  unfolding ls_word_def line_text_def by (rule list.pred_mono_strong, blast) (use isspace_CR_LF in blast)

lemma line_text_append: "line_text (a @ b) \<longleftrightarrow> line_text a \<and> line_text b"
  by (simp add: line_text_def)

lemma line_text_pad: "line_text (replicate n CHR '' '')"
  by (induction n) (simp_all add: line_text_def)

lemma ls_cols_line: "\<forall>c \<in> set cs. ls_word (fst c) \<Longrightarrow> line_text (ls_cols cs)"
proof (induction cs rule: ls_cols.induct)
  case (2 f n cs)
  then show ?case by (simp only: ls_cols.simps line_text_append line_text_pad) (simp add: ls_word_line)
qed (simp add: line_text_def)

lemma ls_line_text: "ls_wf e \<Longrightarrow> line_text (ls_line e)"
  using ls_cols_line [OF ls_wf_cols(1)] ls_cols_line [OF ls_wf_cols(2)]
  by (simp add: ls_line_eq line_text_append ls_wf_def)

lemma ls_line_hd:
  assumes "ls_wf e"
  shows "ls_line e \<noteq> []" "\<not> is_eol (hd (ls_line e @ r))" "hd (ls_line e @ r) = hd (ls_mode e)"
proof -
  from assms have "ls_word (ls_mode e)" by (simp add: ls_wf_def)
  then obtain a b where ab: "ls_mode e = a # b" "\<not> isspace a"
    by (cases "ls_mode e") (auto simp: ls_word_def)
  then have "\<exists>t. ls_line e = a # t" by (simp add: ls_line_eq ls_head_def)
  with ab show "ls_line e \<noteq> []" "\<not> is_eol (hd (ls_line e @ r))" "hd (ls_line e @ r) = hd (ls_mode e)"
    by (auto simp: isspace_CR_LF)
qed

text \<open>The name goes on up to the line end that was found, which need not be the one of its line.\<close>

lemma parse_dirent_line:
  assumes wf: "ls_wf e" and z: "z \<noteq> []" and eol: "line_end (ls_line e @ z) = Inr (Some y)" "z = u @ y"
  shows "\<exists>ent'. parse_dirent ent (ls_line e @ z)
      = Inr (if name_length (ls_name_text e @ z) (length (ls_name_text e @ u)) = 0 then (ent', False)
          else (ent'\<lparr>de_name := take (name_length (ls_name_text e @ z) (length (ls_name_text e @ u))) (ls_name_text e @ z)\<rparr>, True))
    \<and> de_type ent' = ls_type e \<and> (ls_type e = FTP_FILE \<longrightarrow> de_size ent' = Some (int32 (int (ls_size e))))"
proof -
  let ?name = "ls_name_text e @ z"
  let ?size = "ls_cols (ls_rest e) @ ?name"
  have line: "ls_line e @ z = ls_cols (ls_head e) @ ?size" by (simp add: ls_line_eq)
  have nm: "ls_name e \<noteq> []" "\<not> isspace (hd (ls_name e))" using wf by (auto simp: ls_wf_def)
  have hd_name: "?name \<noteq> []" "\<not> isspace (hd ?name)" using nm by (auto simp: ls_name_text_def hd_append)
  note cols = ls_wf_cols [OF wf]
  have hd_size: "?size \<noteq> []" "\<not> isspace (hd ?size)" using ls_cols_hd [OF cols(2) hd_name] by auto
  have skip1: "skip_fields 4 (ls_line e @ z) = Inr ?size"
    using skip_fields_cols [OF hd_size cols(1)] unfolding line length_ls_cols .
  have skip2: "skip_fields 4 ?size = Inr ?name"
    using skip_fields_cols [OF hd_name cols(2)] unfolding length_ls_cols .
  have atoi: "mem_atoi ?size = Inr (int32 (int (ls_size e)))"
    unfolding ls_rest_def ls_cols.simps append_assoc by (rule mem_atoi_size) (auto simp: isdigit_def ccode_def)
  have len: "length ?name - length y = length (ls_name_text e @ u)" "\<not> length ?name \<le> length y"
    using nm(1) eol(2) by (simp_all add: ls_name_text_def)
  show ?thesis
    using eol(1) skip1 skip2 atoi len ls_line_hd(3) [OF wf, of z]
    by (cases "hd (ls_mode e) = CHR ''d''") (auto simp: parse_dirent_def ls_type_def Let_def)
qed

lemma parse_dirent_end:
  assumes wf: "ls_wf e" and z: "is_eol c" and eol: "line_end (ls_line e @ c # z) = Inr (Some (c # z))"
  obtains ent' where "parse_dirent ent (ls_line e @ c # z) = Inr (ent', True)" "dirent_view ent' = ls_view e"
proof -
  let ?name = "ls_name_text e @ c # z"
  have nm: "ls_name e \<noteq> []" "\<not> isspace (last (ls_name e))" "no_arrow (ls_name e)" using wf by (auto simp: ls_wf_def)
  have "name_length ?name (length (ls_name_text e)) = length (ls_name e)"
  proof (cases "ls_target e")
    case None
    with nm(3) name_length_plain z show ?thesis by (auto simp: ls_name_text_def)
  next
    case (Some t)
    then have "length (ls_name_text e) = length (ls_name e) + 4 + length t"
      "?name = ls_name e @ '' -> '' @ t @ c # z" by (simp_all add: ls_name_text_def)
    then show ?thesis using name_length_link [OF nm(3,1,2), of t "c # z" "length t"] by (simp only:)
  qed
  moreover have "take (length (ls_name e)) ?name = ls_name e" by (simp add: ls_name_text_def)
  moreover have "\<exists>ent'. parse_dirent ent (ls_line e @ c # z)
      = Inr (if name_length ?name (length (ls_name_text e)) = 0 then (ent', False)
          else (ent'\<lparr>de_name := take (name_length ?name (length (ls_name_text e))) ?name\<rparr>, True))
    \<and> de_type ent' = ls_type e \<and> (ls_type e = FTP_FILE \<longrightarrow> de_size ent' = Some (int32 (int (ls_size e))))"
    using parse_dirent_line [OF wf _ eol, of "[]" ent] unfolding append_Nil append_Nil2 by blast
  ultimately show thesis using nm(1) that by (auto simp: dirent_view_def ls_view_def)
qed

lemma parse_dirent_ls:
  assumes "ls_wf e"
  obtains ent' where "parse_dirent ent (ls_text e @ rest) = Inr (ent', True)" "dirent_view ent' = ls_view e"
proof -
  have "CR \<notin> set (ls_line e)" "NUL \<notin> set (ls_line e)"
    using ls_line_text [OF assms] by (auto simp: line_text_def list_all_iff)
  then have "line_end (ls_line e @ CR # LF # rest) = Inr (Some (CR # LF # rest))" by (simp add: mem_chr_first)
  from parse_dirent_end [OF assms _ this, of ent] obtain ent' where
    "parse_dirent ent (ls_line e @ CR # LF # rest) = Inr (ent', True)" "dirent_view ent' = ls_view e" by blast
  moreover have "ls_text e @ rest = ls_line e @ CR # LF # rest" by (simp add: ls_text_eq)
  ultimately show thesis using that by (simp only:)
qed

lemma next_line_line:
  assumes "ls_wf e" "list_all is_eol z" "z \<noteq> []" "rest = [] \<or> \<not> is_eol (hd rest)"
  shows "next_line (ls_line e @ z @ rest) = rest"
proof -
  obtain c z' where c: "z = c # z'" using assms(3) by (cases z) simp_all
  have eol: "is_eol c" using assms(2) c by simp
  have "\<forall>x \<in> set (ls_line e). \<not> is_eol x"
    using ls_line_text [OF assms(1)] by (auto simp: line_text_def list_all_iff)
  then have "dropWhile (\<lambda>c. \<not> is_eol c) (ls_line e @ z @ rest) = dropWhile (\<lambda>c. \<not> is_eol c) (z @ rest)"
    by (intro dropWhile_append2) blast
  then have "dropWhile (\<lambda>c. \<not> is_eol c) (ls_line e @ z @ rest) = z @ rest"
    unfolding c using eol by auto
  moreover have "dropWhile is_eol (z @ rest) = dropWhile is_eol rest"
    using assms(2) by (intro dropWhile_append2) (simp add: list_all_iff)
  moreover have "dropWhile is_eol rest = rest" using assms(4) by (cases rest) auto
  ultimately show ?thesis by (simp only: next_line_def)
qed

lemma next_line_ls: "ls_wf e \<Longrightarrow> rest = [] \<or> \<not> is_eol (hd rest) \<Longrightarrow> next_line (ls_text e @ rest) = rest"
  using next_line_line [of e "[CR, LF]" rest] by (simp add: ls_text_eq)

lemma next_line_lf: "ls_wf e \<Longrightarrow> rest = [] \<or> \<not> is_eol (hd rest) \<Longrightarrow> next_line (ls_lf e @ rest) = rest"
  using next_line_line [of e "[LF]" rest] by (simp add: ls_lf_def)

text \<open>One line of a listing; \<open>junk\<close> is what the block holds behind the received bytes.\<close>

lemma parse_listing_step:
  assumes "line \<noteq> []" "next_line (line @ rest) = rest" "parse_dirent ent (line @ rest @ junk) = Inr (ent', ok)"
  shows "parse_listing ent (length (line @ rest)) (line @ rest @ junk) d
    = parse_listing ent' (length rest) (rest @ junk) (if ok then darr_push d ent' else d)"
  using assms by (subst parse_listing.simps) (simp add: Let_def)

lemma lines_hd:
  assumes "list_all ls_wf es" "\<And>e. ls_wf e \<Longrightarrow> f e \<noteq> [] \<and> \<not> is_eol (hd (f e))"
  shows "concat (map f es) = [] \<or> \<not> is_eol (hd (concat (map f es)))"
  using assms by (cases es) (auto simp: hd_append)

lemma ls_text_hd:
  assumes "ls_wf e"
  shows "ls_text e \<noteq> [] \<and> \<not> is_eol (hd (ls_text e))" "ls_lf e \<noteq> [] \<and> \<not> is_eol (hd (ls_lf e))"
  using ls_line_hd [OF assms] by (simp_all add: ls_text_eq ls_lf_def)

lemma parse_listing_lines:
  assumes "list_all ls_wf es" "darr_ok d"
    and f: "\<And>e. ls_wf e \<Longrightarrow> f e \<noteq> [] \<and> \<not> is_eol (hd (f e))"
    and next_line: "\<And>e rest. ls_wf e \<Longrightarrow> rest = [] \<or> \<not> is_eol (hd rest) \<Longrightarrow> next_line (f e @ rest) = rest"
    and parse: "\<And>e es ent. list_all ls_wf (e # es) \<Longrightarrow>
      \<exists>ent'. parse_dirent ent (f e @ concat (map f es) @ junk) = Inr (ent', True) \<and> dirent_view ent' = ls_view e"
  shows "\<exists>d'. parse_listing ent (length (concat (map f es))) (concat (map f es) @ junk) d = Inr d' \<and> darr_ok d'
    \<and> map dirent_view (darr_list d') = map dirent_view (darr_list d) @ map ls_view es"
  using assms(1,2)
proof (induction es arbitrary: ent d)
  case Nil
  then show ?case by (simp add: parse_listing.simps)
next
  case (Cons e es)
  let ?rest = "concat (map f es)"
  obtain ent' where ent': "parse_dirent ent (f e @ ?rest @ junk) = Inr (ent', True)" "dirent_view ent' = ls_view e"
    using parse [OF Cons.prems(1)] by blast
  have nl: "next_line (f e @ ?rest) = ?rest" using next_line lines_hd [OF _ f] Cons.prems(1) by auto
  have "parse_listing ent (length (f e @ ?rest)) (f e @ ?rest @ junk) d
      = parse_listing ent' (length ?rest) (?rest @ junk) (darr_push d ent')"
    using parse_listing_step [OF _ nl ent'(1)] f Cons.prems(1) by simp
  moreover have "darr_ok (darr_push d ent')" using Cons.prems(2) by (rule da.push_inv)
  ultimately show ?case
    using Cons.IH [of "darr_push d ent'" ent'] Cons.prems ent'(2) by (auto simp: da.push_list)
qed

lemma parse_listing_ls:
  assumes "list_all ls_wf es" and "darr_ok d"
  shows "\<exists>d'. parse_listing ent (length (concat (map ls_text es))) (concat (map ls_text es) @ junk) d = Inr d' \<and> darr_ok d'
    \<and> map dirent_view (darr_list d') = map dirent_view (darr_list d) @ map ls_view es"
proof (rule parse_listing_lines [OF assms])
  fix e :: ls_entry and es ent
  assume "list_all ls_wf (e # es)"
  then have "ls_wf e" by simp
  then show "\<exists>ent'. parse_dirent ent (ls_text e @ concat (map ls_text es) @ junk) = Inr (ent', True) \<and> dirent_view ent' = ls_view e"
    using parse_dirent_ls by metis
qed (simp_all add: ls_text_hd next_line_ls)

section \<open>Listings without CR\<close>

lemma lf_no_CR: "list_all ls_wf es \<Longrightarrow> CR \<notin> set (concat (map ls_lf es)) \<and> NUL \<notin> set (concat (map ls_lf es))"
proof (induction es)
  case (Cons e es)
  then show ?case using ls_line_text [of e] by (auto simp: ls_lf_def line_text_def list_all_iff)
qed simp

lemma mem_chr_skip: "x \<notin> set p \<Longrightarrow> NUL \<notin> set p \<Longrightarrow> mem_chr (p @ r) x = mem_chr r x"
  by (induction p) auto

lemma lf_line_end:
  assumes "ls_wf e" "list_all ls_wf es"
  shows "line_end (ls_lf e @ concat (map ls_lf es) @ r)
    = bindE (mem_chr r CR) (\<lambda>y. case y of Some y \<Rightarrow> Inr (Some y) | None \<Rightarrow> Inr (Some (LF # concat (map ls_lf es) @ r)))"
proof -
  have "mem_chr ((ls_lf e @ concat (map ls_lf es)) @ r) CR = mem_chr r CR"
    using lf_no_CR [of "e # es"] assms by (intro mem_chr_skip) auto
  moreover have "mem_chr (ls_lf e @ concat (map ls_lf es) @ r) LF = Inr (Some (LF # concat (map ls_lf es) @ r))"
    using ls_line_text [OF assms(1)] mem_chr_first [of LF "ls_line e"]
    by (auto simp: ls_lf_def line_text_def list_all_iff)
  ultimately show ?thesis by (cases "mem_chr r CR") (auto split: option.split)
qed

text \<open>Neither CR nor a zero byte behind the text: the search leaves the block.\<close>

lemma parse_listing_no_CR:
  assumes "CR \<notin> set m" and "NUL \<notin> set m" and "0 < n"
  shows "parse_listing ent n m d = Inl Overread"
  using assms mem_chr_overread [of CR m] by (subst parse_listing.simps) (simp add: parse_dirent_def)

text \<open>A zero byte comes first: the lines end at their LF.\<close>

lemma parse_listing_lf:
  assumes "list_all ls_wf es" "darr_ok d" "CR \<notin> set a"
  shows "\<exists>d'. parse_listing ent (length (concat (map ls_lf es))) (concat (map ls_lf es) @ a @ NUL # c) d = Inr d' \<and> darr_ok d'
    \<and> map dirent_view (darr_list d') = map dirent_view (darr_list d) @ map ls_view es"
proof (rule parse_listing_lines [OF assms(1,2)])
  fix e :: ls_entry and es ent
  assume wf: "list_all ls_wf (e # es)"
  have none: "mem_chr (a @ NUL # c) CR = Inr None" using assms(3) by (induction a) auto
  have "line_end (ls_line e @ LF # concat (map ls_lf es) @ a @ NUL # c) = Inr (Some (LF # concat (map ls_lf es) @ a @ NUL # c))"
    using lf_line_end [of e es "a @ NUL # c"] wf none by (simp add: ls_lf_def)
  then obtain ent' where "parse_dirent ent (ls_line e @ LF # concat (map ls_lf es) @ a @ NUL # c) = Inr (ent', True)"
    "dirent_view ent' = ls_view e"
    using parse_dirent_end [of e LF "concat (map ls_lf es) @ a @ NUL # c" ent] wf by auto
  then show "\<exists>ent'. parse_dirent ent (ls_lf e @ concat (map ls_lf es) @ a @ NUL # c) = Inr (ent', True) \<and> dirent_view ent' = ls_view e"
    by (auto simp: ls_lf_def)
qed (simp_all add: ls_text_hd next_line_lf)

text \<open>A CR comes first: the name of the last entry runs on to it.\<close>

lemma parse_listing_far_CR:
  assumes "list_all ls_wf es" "ls_wf e" "ls_target e = None" "CR \<notin> set a" "NUL \<notin> set a" "no_arrow a" "darr_ok d"
  shows "\<exists>d' x. parse_listing ent (length (concat (map ls_lf (es @ [e])))) (concat (map ls_lf (es @ [e])) @ a @ CR # c) d = Inr d'
    \<and> darr_ok d' \<and> x \<in> set (darr_list d') \<and> de_name x = ls_name e @ LF # a"
  using assms(1,7)
proof (induction es arbitrary: ent d)
  case Nil
  have far: "mem_chr (a @ CR # c) CR = Inr (Some (CR # c))" using assms(4,5) by (rule mem_chr_first)
  have eol: "line_end (ls_line e @ LF # a @ CR # c) = Inr (Some (CR # c))"
    using lf_line_end [of e "[]" "a @ CR # c"] assms(2) far by (simp add: ls_lf_def)
  have nm: "ls_name_text e = ls_name e" "ls_name e \<noteq> []" "no_arrow (ls_name e)"
    using assms(2,3) by (auto simp: ls_name_text_def ls_wf_def)
  have "no_arrow (ls_name e @ LF # a)" using no_arrow_append [OF nm(3) assms(6)] by simp
  then have len: "name_length ((ls_name e @ LF # a) @ CR # c) (length (ls_name e @ LF # a)) = length (ls_name e @ LF # a)"
    by (rule name_length_plain) simp
  have u: "LF # a @ CR # c \<noteq> []" "LF # a @ CR # c = (LF # a) @ CR # c" by simp_all
  obtain ent' where "parse_dirent ent (ls_line e @ LF # a @ CR # c)
      = Inr (if name_length ((ls_name e @ LF # a) @ CR # c) (length (ls_name e @ LF # a)) = 0 then (ent', False)
          else (ent'\<lparr>de_name := take (name_length ((ls_name e @ LF # a) @ CR # c) (length (ls_name e @ LF # a)))
            ((ls_name e @ LF # a) @ CR # c)\<rparr>, True))"
    using parse_dirent_line [OF assms(2) u(1) eol u(2), of ent] unfolding nm(1) u(2) append_assoc by blast
  then have "parse_dirent ent (ls_line e @ LF # a @ CR # c) = Inr (ent'\<lparr>de_name := ls_name e @ LF # a\<rparr>, True)"
    unfolding len by simp
  then have "parse_listing ent (length (ls_lf e)) (ls_lf e @ a @ CR # c) d
      = Inr (darr_push d (ent'\<lparr>de_name := ls_name e @ LF # a\<rparr>))"
    using parse_listing_step [of "ls_lf e" "[]" ent "a @ CR # c"] next_line_lf [OF assms(2), of "[]"] ls_text_hd(2) [OF assms(2)]
    by (simp add: ls_lf_def parse_listing.simps)
  then show ?case
    using Nil.prems(2) by (auto simp: da.push_inv da.push_list)
next
  case (Cons k es)
  let ?rest = "concat (map ls_lf (es @ [e]))"
  have wf: "ls_wf k" "list_all ls_wf (es @ [e])" using Cons.prems(1) assms(2) by simp_all
  have far: "mem_chr (a @ CR # c) CR = Inr (Some (CR # c))" using assms(4,5) by (rule mem_chr_first)
  have u: "LF # ?rest @ a @ CR # c \<noteq> []" "LF # ?rest @ a @ CR # c = (LF # ?rest @ a) @ CR # c" by simp_all
  have line: "ls_lf k @ ?rest @ a @ CR # c = ls_line k @ LF # ?rest @ a @ CR # c" by (simp add: ls_lf_def)
  have eol: "line_end (ls_line k @ LF # ?rest @ a @ CR # c) = Inr (Some (CR # c))"
    using lf_line_end [OF wf, of "a @ CR # c"] unfolding line far by simp
  obtain ent' ok where p: "parse_dirent ent (ls_lf k @ ?rest @ a @ CR # c) = Inr (ent', ok)"
    unfolding line using parse_dirent_line [OF wf(1) u(1) eol u(2), of ent] that unfolding line by (cases "parse_dirent ent (ls_line k @ LF # ?rest @ a @ CR # c)") auto
  have nl: "next_line (ls_lf k @ ?rest) = ?rest"
    using next_line_lf [OF wf(1)] lines_hd [OF wf(2), of ls_lf] ls_text_hd(2) by blast
  have "darr_ok (if ok then darr_push d ent' else d)" using Cons.prems(2) by (simp add: da.push_inv)
  from Cons.IH [OF _ this, of ent'] Cons.prems(1) show ?case
    using parse_listing_step [OF _ nl p] ls_text_hd(2) [OF wf(1)] by simp
qed

lemma direntcmp_trans:
  assumes "ftp_direntcmp a b \<le> 0" and "ftp_direntcmp b c \<le> 0"
  shows "ftp_direntcmp a c \<le> 0"
  using assms strcmp_trans [of "de_name a" "de_name b" "de_name c"]
  by (auto simp: ftp_direntcmp_def split: if_splits)

interpretation direntcmp: comparison ftp_direntcmp
proof
  fix a b c
  show "ftp_direntcmp a b \<le> 0 \<or> ftp_direntcmp b a \<le> 0"
    using strcmp_flip [of "de_name a" "de_name b"] by (auto simp: ftp_direntcmp_def) (metis dtype.exhaust)
  show "ftp_direntcmp a b \<le> 0 \<Longrightarrow> ftp_direntcmp b c \<le> 0 \<Longrightarrow> ftp_direntcmp a c \<le> 0"
    by (rule direntcmp_trans)
qed

lemma direntcmp_le:
  "ftp_direntcmp a b \<le> 0 \<longleftrightarrow>
     (if de_type a = de_type b then strcmp (de_name a) (de_name b) \<le> 0 else de_type a = FTP_DIR)"
  by (auto simp: ftp_direntcmp_def)

text \<open>What a listing can do at worst: run over the end of the bytes. The array stays well formed.\<close>

lemma mem_chr_safe: "safeE {Overread} (\<lambda>_. True) (mem_chr p x)"
  by (induction p x rule: mem_chr.induct) auto

lemma skip_word_safe: "safeE {Overread} (\<lambda>_. True) (skip_word p)"
  by (induction p rule: skip_word.induct) auto

lemma skip_blank_safe: "safeE {Overread} (\<lambda>_. True) (skip_blank p)"
  by (induction p rule: skip_blank.induct) auto

lemma skip_fields_safe: "safeE {Overread} (\<lambda>_. True) (skip_fields n p)"
  by (induction n arbitrary: p)
    (auto simp: skip_field_def intro!: safeE_bind [where Q = "\<lambda>_. True"] skip_word_safe skip_blank_safe)

lemma mem_atoi_safe: "safeE {Overread} (\<lambda>_. True) (mem_atoi p)"
  by (simp add: mem_atoi_def Let_def)

lemma parse_dirent_safe: "safeE {Overread} (\<lambda>_. True) (parse_dirent ent p)"
  unfolding parse_dirent_def Let_def
  by (auto simp: mem_chr_safe skip_fields_safe mem_atoi_safe
      intro!: safeE_bind [where Q = "\<lambda>_. True"] split: option.splits)

lemma parse_listing_safe: "darr_ok d \<Longrightarrow> safeE {Overread} darr_ok (parse_listing ent n p d)"
proof (induction ent n p d rule: parse_listing.induct)
  case (1 ent n p d)
  show ?case
  proof (cases "n = 0")
    case False
    have step: "safeE {Overread} darr_ok (case r of (ent', ok) \<Rightarrow>
        let n' = length (next_line (take n p))
        in parse_listing ent' n' (drop (n - n') p) (if ok then darr_push d ent' else d))" for r
    proof (cases r)
      case (Pair e ok)
      then show ?thesis using "1.IH" [OF False] "1.prems" by (auto simp: da.push_inv Let_def)
    qed
    with False show ?thesis
      by (subst parse_listing.simps) (auto intro!: safeE_bind [OF parse_dirent_safe])
  qed (use 1 in \<open>simp add: parse_listing.simps\<close>)
qed

end
