(* ===== verification/Ftp_Queue.thy ===== *)
theory Ftp_Queue
  imports Prelude
begin

text \<open>
  The queue of pending operations of \<open>src/ftp.c\<close>: \<open>struct ftp_op\<close> nodes linked by \<open>next\<close>, with
  the pointers \<open>qhead\<close> and \<open>qtail\<close> of \<open>struct ftp\<close>. \<open>enq_op\<close> is the part of \<open>ftp_queue\<close> and
  \<open>ftp_queue_transfer\<close> that links a new node, \<open>deq_op\<close> the part of \<open>exec_queued\<close> that unlinks the
  first. The nodes live in a store from addresses to nodes; \<open>malloc\<close> returns an address that was
  not in use before.

  The locale \<open>fifo\<close> is what the client needs: enqueuing appends, dequeuing takes from the front.
  The interpretation \<open>opq\<close> proves it for the pointer code.
\<close>

section \<open>Operations\<close>

datatype opcode =
    FTP_TYPE | FTP_PWD | FTP_CHDIR | FTP_CDUP | FTP_MKDIR | FTP_RMDIR | FTP_DEL | FTP_LIST
  | FTP_RETR | FTP_STORE | FTP_XFER

text \<open>\<open>op_data\<close> is the pointer to the transfer of an \<open>FTP_XFER\<close>, as the address of the transfer.\<close>

record ftp_op =
  op_code :: opcode
  op_arg :: "string option"
  op_data :: "nat option"

record op_queue =
  qmem :: "nat \<Rightarrow> (ftp_op \<times> nat option) option"
  qhead :: "nat option"
  qtail :: "nat option"
  qbrk :: nat

definition empty_queue :: op_queue where
  "empty_queue = \<lparr>qmem = (\<lambda>_. None), qhead = None, qtail = None, qbrk = 0\<rparr>"

definition enq_op :: "ftp_op \<Rightarrow> op_queue \<Rightarrow> op_queue res" where
  "enq_op op q =
     (let fop = qbrk q;
          mem = (qmem q)(fop \<mapsto> (op, None));
          q' = q\<lparr>qmem := mem, qbrk := Suc fop\<rparr>
      in case qhead q of
           None \<Rightarrow> Inr (q'\<lparr>qhead := Some fop, qtail := Some fop\<rparr>)
         | Some _ \<Rightarrow>
             (case qtail q of
                None \<Rightarrow> Inl NullDeref
              | Some t \<Rightarrow>
                  (case mem t of
                     None \<Rightarrow> Inl UseAfterFree
                   | Some (o', _) \<Rightarrow>
                       Inr (q'\<lparr>qmem := mem(t \<mapsto> (o', Some fop)), qtail := Some fop\<rparr>))))"

text \<open>
  \<open>exec_queued\<close> frees the node after it has run the operation; no pointer to it is left by then,
  so the model frees it when it is unlinked.
\<close>

definition deq_op :: "op_queue \<Rightarrow> (ftp_op \<times> op_queue) option res" where
  "deq_op q =
     (case qhead q of
        None \<Rightarrow> Inr None
      | Some fop \<Rightarrow>
          (case qmem q fop of
             None \<Rightarrow> Inl UseAfterFree
           | Some (op, nxt) \<Rightarrow>
               let q' = (if qtail q = Some fop then q\<lparr>qhead := None, qtail := None\<rparr>
                         else q\<lparr>qhead := nxt\<rparr>)
               in Inr (Some (op, q'\<lparr>qmem := (qmem q')(fop := None)\<rparr>))))"

section \<open>The list a queue stands for\<close>

fun walk :: "nat \<Rightarrow> (nat \<Rightarrow> (ftp_op \<times> nat option) option) \<Rightarrow> nat option \<Rightarrow> ftp_op list" where
  "walk 0 m p = []"
| "walk (Suc n) m p =
     (case p of
        None \<Rightarrow> []
      | Some a \<Rightarrow> (case m a of None \<Rightarrow> [] | Some (op, nxt) \<Rightarrow> op # walk n m nxt))"

definition q_list :: "op_queue \<Rightarrow> ftp_op list" where
  "q_list q = walk (qbrk q) (qmem q) (qhead q)"

text \<open>\<open>chain m p ns\<close>: following \<open>next\<close> from \<open>p\<close> visits exactly the nodes \<open>ns\<close> and then a null pointer.\<close>

fun chain :: "(nat \<Rightarrow> (ftp_op \<times> nat option) option) \<Rightarrow> nat option \<Rightarrow> nat list \<Rightarrow> bool" where
  "chain m p [] \<longleftrightarrow> p = None"
| "chain m p (a # ns) \<longleftrightarrow> p = Some a \<and> (\<exists>op nxt. m a = Some (op, nxt) \<and> chain m nxt ns)"

definition q_nodes :: "op_queue \<Rightarrow> nat list \<Rightarrow> bool" where
  "q_nodes q ns \<longleftrightarrow> chain (qmem q) (qhead q) ns \<and> distinct ns \<and> (\<forall>a \<in> set ns. a < qbrk q)
     \<and> qtail q = (if ns = [] then None else Some (last ns))"

definition q_ok :: "op_queue \<Rightarrow> bool" where
  "q_ok q \<longleftrightarrow> (\<exists>ns. q_nodes q ns)"

lemma chain_cong: "(\<And>a. a \<in> set ns \<Longrightarrow> m' a = m a) \<Longrightarrow> chain m' p ns = chain m p ns"
  by (induction ns arbitrary: p) auto

lemma chain_upd: "a \<notin> set ns \<Longrightarrow> chain (m(a := x)) p ns = chain m p ns"
  by (rule chain_cong) auto

lemma walk_chain:
  "chain m p ns \<Longrightarrow> length ns \<le> n \<Longrightarrow> walk n m p = map (\<lambda>a. fst (the (m a))) ns"
proof (induction ns arbitrary: n p)
  case Nil
  then show ?case by (cases n) auto
next
  case (Cons a ns)
  then show ?case by (cases n) auto
qed

lemma q_nodes_list: "q_nodes q ns \<Longrightarrow> q_list q = map (\<lambda>a. fst (the (qmem q a))) ns"
proof -
  assume n: "q_nodes q ns"
  then have "set ns \<subseteq> {..<qbrk q}" and "distinct ns" by (auto simp: q_nodes_def)
  then have "length ns \<le> qbrk q"
    by (metis card_lessThan card_mono distinct_card finite_lessThan)
  with n show ?thesis by (auto simp: q_list_def q_nodes_def intro: walk_chain)
qed

text \<open>Linking a node behind the last one.\<close>

lemma chain_snoc:
  assumes "chain m p ns" and "ns \<noteq> []" and "distinct ns" and "b \<notin> set ns"
    and "m (last ns) = Some (op, nx)"
  shows "chain (m(last ns \<mapsto> (op, Some b), b \<mapsto> (op', None))) p (ns @ [b])"
  using assms
proof (induction ns arbitrary: p)
  case (Cons a ns)
  show ?case
  proof (cases "ns = []")
    case True
    with Cons.prems show ?thesis by auto
  next
    case False
    from Cons.prems obtain o' nxt where a: "p = Some a" "m a = Some (o', nxt)" "chain m nxt ns"
      by auto
    have "chain (m(last ns \<mapsto> (op, Some b), b \<mapsto> (op', None))) nxt (ns @ [b])"
      using Cons.prems False a(3) by (intro Cons.IH) auto
    moreover have "(m(last ns \<mapsto> (op, Some b), b \<mapsto> (op', None))) a = Some (o', nxt)"
      using Cons.prems False a(2) by auto
    ultimately show ?thesis using a(1) False by (simp del: fun_upd_apply)
  qed
qed simp

lemma chain_in: "chain m p ns \<Longrightarrow> a \<in> set ns \<Longrightarrow> \<exists>op nxt. m a = Some (op, nxt)"
  by (induction ns arbitrary: p) auto

lemma enq_op_ok:
  assumes "q_ok q"
  shows "\<exists>q'. enq_op op q = Inr q' \<and> q_ok q' \<and> q_list q' = q_list q @ [op]"
proof -
  from assms obtain ns where ns: "q_nodes q ns" by (auto simp: q_ok_def)
  let ?b = "qbrk q"
  have b: "?b \<notin> set ns" using ns by (auto simp: q_nodes_def)
  show ?thesis
  proof (cases "ns = []")
    case True
    let ?q = "\<lparr>qmem = (qmem q)(?b \<mapsto> (op, None)), qhead = Some ?b, qtail = Some ?b, qbrk = Suc ?b\<rparr>"
    have "enq_op op q = Inr ?q" and n: "q_nodes ?q [?b]"
      using ns True by (auto simp: enq_op_def q_nodes_def Let_def)
    moreover have "q_ok ?q" using n by (auto simp: q_ok_def)
    ultimately show ?thesis
      using q_nodes_list [OF n] q_nodes_list [OF ns] True by auto
  next
    case False
    then have l: "last ns \<in> set ns" by simp
    then obtain o' nx where last: "qmem q (last ns) = Some (o', nx)"
      using ns chain_in by (fastforce simp: q_nodes_def)
    have lb: "last ns \<noteq> ?b" using l b by auto
    let ?m = "(qmem q)(last ns \<mapsto> (o', Some ?b), ?b \<mapsto> (op, None))"
    let ?q = "q\<lparr>qmem := ?m, qtail := Some ?b, qbrk := Suc ?b\<rparr>"
    have "qhead q \<noteq> None" using ns False by (cases ns) (auto simp: q_nodes_def)
    then have e: "enq_op op q = Inr ?q"
      using ns False last lb by (auto simp: enq_op_def q_nodes_def Let_def fun_upd_twist)
    have n: "q_nodes ?q (ns @ [?b])"
      using ns False b last chain_snoc [of "qmem q" "qhead q" ns ?b o' nx op]
      by (auto simp: q_nodes_def less_Suc_eq)
    have "map (\<lambda>a. fst (the (?m a))) ns = map (\<lambda>a. fst (the (qmem q a))) ns"
      using b last by (intro map_cong) auto
    then have "q_list ?q = q_list q @ [op]"
      using q_nodes_list [OF n] q_nodes_list [OF ns] by simp
    with e n show ?thesis by (auto simp: q_ok_def)
  qed
qed

lemma deq_op_ok:
  assumes "q_ok q"
  shows "case q_list q of
      [] \<Rightarrow> deq_op q = Inr None
    | op # ops \<Rightarrow> \<exists>q'. deq_op q = Inr (Some (op, q')) \<and> q_ok q' \<and> q_list q' = ops"
proof -
  from assms obtain ns where ns: "q_nodes q ns" by (auto simp: q_ok_def)
  show ?thesis
  proof (cases ns)
    case Nil
    with ns q_nodes_list [OF ns] show ?thesis by (simp add: deq_op_def q_nodes_def)
  next
    case (Cons a as')
    then obtain op nx where a: "qhead q = Some a" "qmem q a = Some (op, nx)" "chain (qmem q) nx as'"
      using ns by (auto simp: q_nodes_def)
    let ?q = "(if qtail q = Some a then q\<lparr>qhead := None, qtail := None\<rparr> else q\<lparr>qhead := nx\<rparr>)
      \<lparr>qmem := (qmem q)(a := None)\<rparr>"
    have d: "deq_op q = Inr (Some (op, ?q))"
      using a by (auto simp: deq_op_def Let_def)
    have notin: "a \<notin> set as'" using ns Cons by (simp add: q_nodes_def)
    have tail: "qtail q = Some a \<longleftrightarrow> as' = []"
      using ns Cons notin by (auto simp: q_nodes_def)
    have n: "q_nodes ?q as'"
    proof (cases "as' = []")
      case True
      then show ?thesis using tail by (simp add: q_nodes_def)
    next
      case False
      then show ?thesis using tail ns Cons a notin by (auto simp: q_nodes_def chain_upd)
    qed
    have "map (\<lambda>x. fst (the (((qmem q)(a := None)) x))) as' = map (\<lambda>x. fst (the (qmem q x))) as'"
      using notin by (intro map_cong) auto
    then have "q_list ?q = map (\<lambda>x. fst (the (qmem q x))) as'"
      using q_nodes_list [OF n] by simp
    moreover have "q_list q = op # map (\<lambda>x. fst (the (qmem q x))) as'"
      using q_nodes_list [OF ns] Cons a by simp
    ultimately show ?thesis using d n by (auto simp: q_ok_def)
  qed
qed

lemma q_head_list: "q_ok q \<Longrightarrow> qhead q = None \<longleftrightarrow> q_list q = []"
proof -
  assume "q_ok q"
  then obtain ns where ns: "q_nodes q ns" by (auto simp: q_ok_def)
  show ?thesis
    using ns q_nodes_list [OF ns] by (cases ns) (auto simp: q_nodes_def)
qed

lemma empty_queue_ok [simp]: "q_ok empty_queue" "q_list empty_queue = []"
  by (auto simp: q_ok_def q_nodes_def empty_queue_def q_list_def intro: exI [of _ "[]"])

section \<open>The interface\<close>

locale fifo =
  fixes enq :: "'a \<Rightarrow> 'q \<Rightarrow> 'q res"
    and deq :: "'q \<Rightarrow> ('a \<times> 'q) option res"
    and is_empty :: "'q \<Rightarrow> bool"
    and list :: "'q \<Rightarrow> 'a list"
    and inv :: "'q \<Rightarrow> bool"
  assumes enq_list: "inv q \<Longrightarrow> \<exists>q'. enq x q = Inr q' \<and> inv q' \<and> list q' = list q @ [x]"
    and deq_list: "inv q \<Longrightarrow> (case list q of [] \<Rightarrow> deq q = Inr None
        | x # xs \<Rightarrow> \<exists>q'. deq q = Inr (Some (x, q')) \<and> inv q' \<and> list q' = xs)"
    and empty_list: "inv q \<Longrightarrow> is_empty q \<longleftrightarrow> list q = []"
begin

lemma enqE:
  assumes "inv q"
  obtains q' where "enq x q = Inr q'" "inv q'" "list q' = list q @ [x]"
  using enq_list [OF assms] by blast

lemma deqE:
  assumes "inv q"
  obtains (empty) "list q = []" "deq q = Inr None"
  | (item) x q' where "list q = x # list q'" "deq q = Inr (Some (x, q'))" "inv q'"
  using deq_list [OF assms] by (cases "list q") auto

lemma enq_safe: "inv q \<Longrightarrow> safeE {} (\<lambda>q'. inv q' \<and> list q' = list q @ [x]) (enq x q)"
  by (erule enqE [where x = x]) simp

lemma deq_safe:
  "inv q \<Longrightarrow> safeE {} (\<lambda>r. case r of None \<Rightarrow> list q = [] | Some (x, q') \<Rightarrow> inv q' \<and> list q = x # list q') (deq q)"
  by (erule deqE) simp_all

text \<open>Items leave in the order in which they entered.\<close>

primrec enq_all :: "'a list \<Rightarrow> 'q \<Rightarrow> 'q res" where
  "enq_all [] q = Inr q"
| "enq_all (x # xs) q = bindE (enq x q) (enq_all xs)"

primrec deq_many :: "nat \<Rightarrow> 'q \<Rightarrow> 'a list res" where
  "deq_many 0 q = Inr []"
| "deq_many (Suc n) q = bindE (deq q) (\<lambda>r. case r of
      None \<Rightarrow> Inr []
    | Some (x, q') \<Rightarrow> bindE (deq_many n q') (\<lambda>xs. Inr (x # xs)))"

lemma enq_all_list: "inv q \<Longrightarrow> \<exists>q'. enq_all xs q = Inr q' \<and> inv q' \<and> list q' = list q @ xs"
proof (induction xs arbitrary: q)
  case (Cons x xs)
  from enqE [OF Cons.prems, of x] obtain q' where q': "enq x q = Inr q'" "inv q'" "list q' = list q @ [x]" .
  with Cons.IH [OF q'(2)] show ?case by auto
qed simp

lemma deq_many_list: "inv q \<Longrightarrow> deq_many n q = Inr (take n (list q))"
proof (induction n arbitrary: q)
  case (Suc n)
  from Suc.prems show ?case
    by (cases rule: deqE) (auto simp: Suc.IH)
qed simp

lemma fifo_order: "inv q \<Longrightarrow> list q = [] \<Longrightarrow> bindE (enq_all xs q) (deq_many (length xs)) = Inr xs"
  using enq_all_list [of q xs] by (auto simp: deq_many_list)

end

interpretation opq: fifo enq_op deq_op "\<lambda>q. qhead q = None" q_list q_ok
proof
  fix q x
  assume q: "q_ok q"
  show "\<exists>q'. enq_op x q = Inr q' \<and> q_ok q' \<and> q_list q' = q_list q @ [x]"
    using q by (rule enq_op_ok)
  show "case q_list q of [] \<Rightarrow> deq_op q = Inr None
      | x # xs \<Rightarrow> \<exists>q'. deq_op q = Inr (Some (x, q')) \<and> q_ok q' \<and> q_list q' = xs"
    using q by (rule deq_op_ok)
  show "qhead q = None \<longleftrightarrow> q_list q = []"
    using q by (rule q_head_list)
qed

end
