(* ===== verification/Ftp.thy ===== *)
theory Ftp
  imports Ftp_Listing Ftp_Queue
begin

text \<open>
  The FTP client engine of \<open>src/ftp.c\<close>: \<open>struct ftp\<close>, the commands, the reply handlers
  (\<open>cproc_*\<close>), the data handlers (\<open>dproc_*\<close>) and the event entry point \<open>ftp_handle\<close>.

  State. The record \<open>ftp\<close> is \<open>struct ftp\<close> (its field \<open>passive\<close> is \<open>pasv_mode\<close>; the scratch buffer \<open>drecv\<close>, which no call reads after
  the one that filled it, and the unused \<open>lis_port\<close> are left out). The record \<open>sys\<close> extends it
  with what the engine points to (receive buffers, transfers, open files), with the scripts of
  the answers the operating system will give, with the trace \<open>out\<close> of what the engine did, and
  with the state \<open>app\<close> of the client that owns the transfers. A pointer is the address of the
  object; an object that was freed has no entry.

  Operating system. Every system call takes the next answer of its script. A script that is
  used up means that nothing more happens: \<open>recv\<close> would block, \<open>select\<close> waits until its timeout,
  \<open>socket\<close>, \<open>connect\<close>, \<open>bind\<close>, \<open>accept\<close> fail and \<open>malloc\<close> succeeds.

  Recursion. \<open>ftp_waitresp\<close>, which \<open>ftp_list\<close> and \<open>ftp_transfer\<close> reach, calls \<open>ftp_handle\<close> again.
  The functions below \<open>ftp_handle\<close> take the function to call as the parameter \<open>h\<close>; the parameter
  \<open>cb\<close> is the callback \<open>xfer->done\<close> that the client installs. \<open>ftp_handle\<close> ties the knot with a
  bound on the nesting; every nested call follows an answer of \<open>select\<close>, so one more than the
  number of answers left is enough (\<open>Ftp_Inv\<close>).
\<close>

section \<open>State\<close>

datatype conn_status = FTP_DISC | FTP_CONN_PASV | FTP_CONN_ACT

datatype cproc = Cproc_active | Cproc_pasv | Cproc_pwd | Cproc_cwd | Cproc_list | Cproc_xfer

datatype dproc = Dproc_list | Dproc_xfer

text \<open>The \<open>void\<close> pointers \<open>cproc_cls\<close> and \<open>dproc_cls\<close>: null, to a receive buffer, to a transfer.\<close>

datatype cls = ClsNull | ClsBuf nat | ClsXfer nat

record ftp =
  ctl :: int
  lis :: int
  data :: int
  status :: conn_status
  busy :: int
  user :: "string option"
  pass :: "string option"
  pasv_mode :: bool
  opqueue :: op_queue
  cproc :: "cproc option"
  dproc :: "dproc option"
  cproc_cls :: cls
  dproc_cls :: cls
  crecv :: string
  num_crecv :: nat
  curdir :: "string option"
  dirent :: "ftp_dirent darr"
  last_resp :: int
  modified :: "32 word"

text \<open>
  \<open>struct recvbuf\<close>: \<open>rb_buf\<close> is the whole block, of which the first \<open>rb_size\<close> bytes were received.
\<close>

record recvbuf =
  rb_buf :: string
  rb_size :: nat
  rb_bufsz :: int

datatype done_fn = Xfer_done | View_done

text \<open>\<open>struct ftp_transfer\<close>: \<open>x_fp\<close> is the handle of an open file.\<close>

record ftp_transfer =
  x_op :: opcode
  x_rname :: string
  x_fp :: "nat option"
  x_mem :: "char darr option"
  x_total :: int
  x_count :: int
  x_done :: "done_fn option"

text \<open>
  Answers: \<open>Rx bs\<close> is data that arrived (none: the peer closed the connection), \<open>RxIntr\<close> is EINTR,
  \<open>RxBlock\<close> any other error. \<open>Sel r t\<close>: \<open>select\<close> returned, \<open>r\<close> tells whether the descriptor is
  set, \<open>t\<close> is \<open>time(0) - start\<close> afterwards.
\<close>

datatype rx_ans = Rx string | RxIntr | RxBlock
datatype sel_ans = SelIntr | Sel bool int

datatype log_level = Info | Warn | Err

datatype out_ev =
    OSend int string
  | OClose int
  | OConnect int "32 word" int
  | OListen int
  | OFclose nat
  | OLog log_level string "string list"

record 'a sys = ftp +
  bufs :: "nat \<Rightarrow> recvbuf option"
  xfers :: "nat \<Rightarrow> ftp_transfer option"
  files :: "nat \<Rightarrow> string"
  next_buf :: nat
  ctl_rx :: "rx_ans list"
  dat_rx :: "rx_ans list"
  sel_in :: "sel_ans list"
  sock_in :: "int list"
  conn_in :: "bool list"
  bind_in :: "bool list"
  name_in :: "(32 word \<times> 16 word) option list"
  host_in :: "32 word option list"
  acc_in :: "int list"
  mem_in :: "bool list"
  stale :: "nat \<Rightarrow> nat \<Rightarrow> char"
  out :: "out_ev list"
  app :: 'a

type_synonym 'a handler = "int \<Rightarrow> 'a sys \<Rightarrow> 'a sys res"
type_synonym 'a callback = "done_fn \<Rightarrow> nat \<Rightarrow> 'a sys \<Rightarrow> 'a sys res"

definition FTP_MOD_DIR :: "32 word" where
  "FTP_MOD_DIR = 0x100"

definition CRECV_SIZE :: nat where
  "CRECV_SIZE = 256"

definition DRECV_SIZE :: nat where
  "DRECV_SIZE = 256"

definition TIMEOUT :: int where
  "TIMEOUT = 15"

subsection \<open>The calls to the system\<close>

definition emit :: "out_ev \<Rightarrow> 'a sys \<Rightarrow> 'a sys" where
  "emit e s = s\<lparr>out := out s @ [e]\<rparr>"

definition sys_socket :: "'a sys \<Rightarrow> int \<times> 'a sys" where
  "sys_socket s = (case next_ans (-1) (sock_in s) of (fd, r) \<Rightarrow> (fd, s\<lparr>sock_in := r\<rparr>))"

definition sys_connect :: "'a sys \<Rightarrow> bool \<times> 'a sys" where
  "sys_connect s = (case next_ans False (conn_in s) of (ok, r) \<Rightarrow> (ok, s\<lparr>conn_in := r\<rparr>))"

definition sys_bind :: "'a sys \<Rightarrow> bool \<times> 'a sys" where
  "sys_bind s = (case next_ans False (bind_in s) of (ok, r) \<Rightarrow> (ok, s\<lparr>bind_in := r\<rparr>))"

definition sys_getsockname :: "'a sys \<Rightarrow> (32 word \<times> 16 word) option \<times> 'a sys" where
  "sys_getsockname s = (case next_ans None (name_in s) of (a, r) \<Rightarrow> (a, s\<lparr>name_in := r\<rparr>))"

definition sys_gethostbyname :: "'a sys \<Rightarrow> 32 word option \<times> 'a sys" where
  "sys_gethostbyname s = (case next_ans None (host_in s) of (a, r) \<Rightarrow> (a, s\<lparr>host_in := r\<rparr>))"

definition sys_accept :: "'a sys \<Rightarrow> int \<times> 'a sys" where
  "sys_accept s = (case next_ans (-1) (acc_in s) of (fd, r) \<Rightarrow> (fd, s\<lparr>acc_in := r\<rparr>))"

definition sys_malloc :: "'a sys \<Rightarrow> bool \<times> 'a sys" where
  "sys_malloc s = (case next_ans True (mem_in s) of (ok, r) \<Rightarrow> (ok, s\<lparr>mem_in := r\<rparr>))"

text \<open>
  The bytes \<open>malloc\<close> and \<open>realloc\<close> hand out are not initialised: \<open>stale i k\<close> is what the memory holds at offset
  \<open>k\<close> of the receive buffer \<open>i\<close> before the program writes to it. A negative size is converted to a \<open>size_t\<close> beyond
  the address space, for which \<open>realloc\<close> fails.
\<close>

definition fresh_bytes :: "'a sys \<Rightarrow> nat \<Rightarrow> nat \<Rightarrow> nat \<Rightarrow> string" where
  "fresh_bytes s i m n = map (stale s i) [m..<n]"

definition sys_realloc :: "int \<Rightarrow> 'a sys \<Rightarrow> bool \<times> 'a sys" where
  "sys_realloc sz s = (if sz < 0 then (False, s) else sys_malloc s)"

text \<open>\<open>recv\<close> into \<open>sz\<close> bytes: what does not fit stays for the next call.\<close>

definition rx_take :: "nat \<Rightarrow> rx_ans list \<Rightarrow> rx_ans \<times> rx_ans list" where
  "rx_take sz rx =
     (case rx of
        [] \<Rightarrow> (RxBlock, [])
      | Rx bs # r \<Rightarrow> (Rx (take sz bs), if sz < length bs then Rx (drop sz bs) # r else r)
      | a # r \<Rightarrow> (a, r))"

definition inet_ntoa :: "32 word \<Rightarrow> string" where
  "inet_ntoa a =
     dec_str (unat (drop_bit 24 a)) @ ''.'' @ dec_str (unat (drop_bit 16 a AND 255)) @ ''.'' @
     dec_str (unat (drop_bit 8 a AND 255)) @ ''.'' @ dec_str (unat (a AND 255))"

section \<open>Connection\<close>

definition ftp_alloc :: "'a sys \<Rightarrow> 'a sys option" where
  "ftp_alloc s =
     (case sys_malloc s of
        (False, s) \<Rightarrow> None
      | (True, s) \<Rightarrow>
          Some (s\<lparr>ctl := -1, lis := -1, data := -1, status := FTP_DISC, busy := 0, user := None,
            pass := None, pasv_mode := True, opqueue := empty_queue, cproc := None, dproc := None,
            cproc_cls := ClsNull, dproc_cls := ClsNull, crecv := replicate CRECV_SIZE NUL,
            num_crecv := 0, curdir := None, dirent := darr_alloc 0 12, last_resp := 0,
            modified := 0\<rparr>))"

definition ftp_auth :: "string \<Rightarrow> string \<Rightarrow> 'a sys \<Rightarrow> 'a sys" where
  "ftp_auth u p s = s\<lparr>user := Some u, pass := Some p\<rparr>"

text \<open>\<open>htons\<close> keeps the low 16 bits of the port.\<close>

definition ftp_connect :: "string \<Rightarrow> int \<Rightarrow> 'a sys \<Rightarrow> 'a sys \<times> int" where
  "ftp_connect hostname port s =
     (case sys_socket s of (fd, s) \<Rightarrow>
      let s = s\<lparr>ctl := fd\<rparr> in
      if fd = -1 then (emit (OLog Err ''failed to create control socket'' []) s, -1)
      else
        case sys_gethostbyname s of
          (None, s) \<Rightarrow>
            let s = emit (OLog Err ''failed to resolve host: %s'' [hostname]) s;
                s = emit (OClose (ctl s)) s
            in (s\<lparr>ctl := -1\<rparr>, -1)
        | (Some addr, s) \<Rightarrow>
            (case sys_connect (emit (OConnect (ctl s) addr (uint (word_of_int port :: 16 word))) s) of
               (False, s) \<Rightarrow>
                 let s = emit (OLog Err ''failed to connect to: %s (port: %d)''
                                 [hostname, dec_str (nat port)]) s;
                     s = emit (OClose (ctl s)) s
                 in (s\<lparr>ctl := -1\<rparr>, -1)
             | (True, s) \<Rightarrow> (s\<lparr>num_crecv := 0\<rparr>, 0)))"

definition ftp_close :: "'a sys \<Rightarrow> 'a sys" where
  "ftp_close s =
     (let s = (if ctl s \<ge> 0 then (emit (OClose (ctl s)) s)\<lparr>ctl := -1, num_crecv := 0\<rparr> else s);
          s = (if lis s \<ge> 0 then (emit (OClose (lis s)) s)\<lparr>lis := -1\<rparr> else s)
      in if data s \<ge> 0 then (emit (OClose (data s)) s)\<lparr>data := -1\<rparr> else s)"

text \<open>
  \<open>ftp_free\<close> frees the directory with the names in it; no one reads the structure afterwards.
\<close>

definition free_dir :: "ftp_dirent darr \<Rightarrow> ftp_dirent darr" where
  "free_dir dir = dir\<lparr>nelem := 0, max_elem := 0, bufsz := 0, cells := []\<rparr>"

definition ftp_free :: "'a sys \<Rightarrow> 'a sys" where
  "ftp_free s =
     (let s = (if ctl s \<ge> 0 then ftp_close s else s)
      in s\<lparr>dirent := free_dir (dirent s)\<rparr>)"

text \<open>\<open>ftp_sockets\<close> writes the open descriptors to an array; each test counts \<open>maxsize\<close> down.\<close>

definition put_socket :: "int \<Rightarrow> int list \<times> int \<Rightarrow> int list \<times> int" where
  "put_socket fd v =
     (case v of (sockv, maxsize) \<Rightarrow>
        if fd \<ge> 0 then (if maxsize > 0 then sockv @ [fd] else sockv, maxsize - 1)
        else (sockv, maxsize))"

definition ftp_sockets :: "'a sys \<Rightarrow> int \<Rightarrow> int list" where
  "ftp_sockets s maxsize =
     fst (put_socket (data s) (put_socket (lis s) (put_socket (ctl s) ([], maxsize))))"

section \<open>Commands\<close>

text \<open>
  \<open>sendcmd\<close> formats into 256 bytes and then appends CR LF and a zero byte: a command of more than
  253 bytes writes past the buffer. Nothing is sent, and nothing counted, without a connection.
  The text is the formatted command.
\<close>

definition sendcmd :: "string \<Rightarrow> 'a sys \<Rightarrow> 'a sys res" where
  "sendcmd cmd s =
     (if ctl s < 0 then Inr s
      else
        let s = s\<lparr>busy := busy s + 1\<rparr>;
            buf = take 255 cmd;
            s = (if take 5 buf = ''pass '' then emit (OLog Info ''send: pass <password>'' []) s
                 else emit (OLog Info ''send: %s'' [buf]) s)
        in if length buf + 3 > 256 then Inl Overrun
           else Inr (emit (OSend (ctl s) (buf @ [CR, LF])) s))"

definition ftp_update :: "'a sys \<Rightarrow> 'a sys \<times> int" where
  "ftp_update s = (s, -1)"

definition ftp_type :: "string option \<Rightarrow> 'a sys \<Rightarrow> 'a sys res" where
  "ftp_type typ s =
     (case typ of
        None \<Rightarrow> Inl NullDeref
      | Some t \<Rightarrow>
          let tc = toupper (case t of [] \<Rightarrow> NUL | c # _ \<Rightarrow> c)
          in if tc \<noteq> CHR ''I'' \<and> tc \<noteq> CHR ''A'' then Inr s
             else sendcmd (''type '' @ [tc]) s)"

definition ftp_pwd :: "'a sys \<Rightarrow> 'a sys res" where
  "ftp_pwd s = bindE (sendcmd ''pwd'' s) (\<lambda>s. Inr (s\<lparr>cproc := Some Cproc_pwd\<rparr>))"

definition ftp_chdir :: "string option \<Rightarrow> 'a sys \<Rightarrow> 'a sys res" where
  "ftp_chdir dirname s =
     (case dirname of
        None \<Rightarrow> Inl NullDeref
      | Some d \<Rightarrow>
          bindE (if strcmp d ''..'' = 0 then sendcmd ''cdup'' s else sendcmd (''cwd '' @ d) s)
            (\<lambda>s. Inr (s\<lparr>cproc := Some Cproc_cwd\<rparr>)))"

definition ftp_active :: "'a sys \<Rightarrow> ('a sys \<times> int) res" where
  "ftp_active s =
     (let s = (if lis s \<ge> 0 then emit (OClose (lis s)) s else s);
          s = (if data s \<ge> 0 then (emit (OClose (data s)) s)\<lparr>data := -1\<rparr> else s)
      in case sys_socket s of (fd, s) \<Rightarrow>
         let s = s\<lparr>lis := fd\<rparr> in
         if fd = -1
         then Inr (emit (OLog Err ''ftp_active: failed to create listening socket'' []) s, -1)
         else
           case sys_bind s of
             (False, s) \<Rightarrow>
               let s = emit (OLog Err ''ftp_active: failed to bind listening socket'' []) s;
                   s = emit (OClose (lis s)) s
               in Inr (s\<lparr>lis := -1\<rparr>, -1)
           | (True, s) \<Rightarrow>
               (case sys_getsockname (emit (OListen (lis s)) s) of
                  (None, s) \<Rightarrow>
                    let s = emit (OLog Err
                              ''ftp_active: failed to retrieve listening socket address'' []) s;
                        s = emit (OClose (lis s)) s
                    in Inr (s\<lparr>lis := -1\<rparr>, -1)
                | (Some (addr, port), s) \<Rightarrow>
                    let s = emit (OLog Info ''listening on %s port %d''
                              [inet_ntoa addr, dec_str (unat port)]) s
                    in bindE (sendcmd (''PORT '' @ port_args addr port) s)
                         (\<lambda>s. Inr (s\<lparr>cproc := Some Cproc_active\<rparr>, 0))))"

definition ftp_passive :: "'a sys \<Rightarrow> 'a sys res" where
  "ftp_passive s =
     (let s = (if lis s \<ge> 0 then (emit (OClose (lis s)) s)\<lparr>lis := -1\<rparr> else s);
          s = (if data s \<ge> 0 then (emit (OClose (data s)) s)\<lparr>data := -1\<rparr> else s)
      in bindE (sendcmd ''PASV'' s) (\<lambda>s. Inr (s\<lparr>cproc := Some Cproc_pasv\<rparr>)))"

text \<open>
  \<open>ftp_waitresp\<close>: the first argument bounds the rounds of the loop, each of which takes an answer
  of \<open>select\<close>. Without a connection \<open>FD_SET\<close> writes outside the descriptor set.
\<close>

fun wait_loop :: "'a handler \<Rightarrow> nat \<Rightarrow> int \<Rightarrow> 'a sys \<Rightarrow> ('a sys \<times> int) res" where
  "wait_loop h 0 timeout s = Inl NoReturn"
| "wait_loop h (Suc n) timeout s =
     (if ctl s < 0 then Inl Overrun
      else if sel_in s = [] \<and> timeout < 0 then Inl NoReturn
      else
        case next_ans (Sel False timeout) (sel_in s) of
          (SelIntr, r) \<Rightarrow> wait_loop h n timeout (s\<lparr>sel_in := r\<rparr>)
        | (Sel ready elapsed, r) \<Rightarrow>
            bindE (if ready then h (ctl s) (s\<lparr>sel_in := r, last_resp := -1\<rparr>)
                   else Inr (s\<lparr>sel_in := r\<rparr>))
              (\<lambda>s'. if ready \<and> last_resp s' \<noteq> 0 then Inr (s', last_resp s')
                    else if timeout > 0
                    then (let timeout' = timeout - elapsed
                          in if timeout' \<le> 0 then Inr (s', -1) else wait_loop h n timeout' s')
                    else wait_loop h n timeout s'))"

definition ftp_waitresp :: "'a handler \<Rightarrow> int \<Rightarrow> 'a sys \<Rightarrow> ('a sys \<times> int) res" where
  "ftp_waitresp h timeout s =
     wait_loop h (Suc (length (sel_in s))) timeout (s\<lparr>last_resp := -1\<rparr>)"

definition prepare_data :: "'a handler \<Rightarrow> 'a sys \<Rightarrow> ('a sys \<times> int) res" where
  "prepare_data h s =
     (if data s \<ge> 0 then Inr (s, 0)
      else
        bindE (if pasv_mode s
               then bindE (ftp_passive s) (\<lambda>s.
                    bindE (ftp_waitresp h TIMEOUT s) (\<lambda>(s, _). Inr (s, 0)))
               else ftp_active s)
          (\<lambda>(s, r). if r = -1 then Inr (s, -1)
                    else if data s = -1 then Inr (s, -1) else Inr (s, 0)))"

definition ftp_list :: "'a handler \<Rightarrow> 'a sys \<Rightarrow> ('a sys \<times> int) res" where
  "ftp_list h s =
     bindE (prepare_data h s) (\<lambda>(s, r).
     if r = -1 then Inr (s, -1)
     else
       case sys_malloc s of
         (False, s) \<Rightarrow> Inr (emit (OLog Err ''failed to allocate receive buffer'' []) s, -1)
       | (True, s) \<Rightarrow>
           (case sys_malloc s of
              (False, s) \<Rightarrow> Inr (emit (OLog Err ''failed to allocate receive buffer'' []) s, -1)
            | (True, s) \<Rightarrow>
                let rbuf = next_buf s;
                    s = s\<lparr>bufs := (bufs s)(rbuf \<mapsto>
                            \<lparr>rb_buf = fresh_bytes s rbuf 0 1024, rb_size = 0, rb_bufsz = 1024\<rparr>),
                          next_buf := Suc rbuf\<rparr>
                in bindE (sendcmd ''list'' s) (\<lambda>s.
                   let s = s\<lparr>cproc := Some Cproc_list, dproc := Some Dproc_list,
                             cproc_cls := ClsBuf rbuf, dproc_cls := ClsBuf rbuf\<rparr>
                   in Inr (s\<lparr>busy := busy s + 1\<rparr>, 0))))"

definition ftp_transfer :: "'a handler \<Rightarrow> nat option \<Rightarrow> 'a sys \<Rightarrow> ('a sys \<times> int) res" where
  "ftp_transfer h xfer s =
     bindE (prepare_data h s) (\<lambda>(s, r).
     if r = -1 then Inr (s, -1)
     else
       case xfer of
         None \<Rightarrow> Inl NullDeref
       | Some i \<Rightarrow>
           (case xfers s i of
              None \<Rightarrow> Inl UseAfterFree
            | Some x \<Rightarrow>
                if x_op x = FTP_RETR
                then bindE (sendcmd (''retr '' @ x_rname x) s) (\<lambda>s.
                     let s = s\<lparr>cproc := Some Cproc_xfer, dproc := Some Dproc_xfer,
                               cproc_cls := ClsXfer i, dproc_cls := ClsXfer i\<rparr>
                     in Inr (s\<lparr>busy := busy s + 1\<rparr>, 0))
                else Inr (s, 0)))"

text \<open>
  \<open>ftp_mkdir\<close>, \<open>ftp_rmdir\<close>, \<open>ftp_delete\<close>, \<open>ftp_retrieve\<close> and \<open>ftp_store\<close> return -1 and do nothing.
\<close>

definition ftp_mkdir :: "string option \<Rightarrow> 'a sys \<Rightarrow> 'a sys \<times> int" where
  "ftp_mkdir dirname s = (s, -1)"

definition ftp_rmdir :: "string option \<Rightarrow> 'a sys \<Rightarrow> 'a sys \<times> int" where
  "ftp_rmdir dirname s = (s, -1)"

definition ftp_delete :: "string option \<Rightarrow> 'a sys \<Rightarrow> 'a sys \<times> int" where
  "ftp_delete fname s = (s, -1)"

definition ftp_retrieve :: "string option \<Rightarrow> 'a sys \<Rightarrow> 'a sys \<times> int" where
  "ftp_retrieve fname s = (s, -1)"

definition ftp_store :: "string option \<Rightarrow> 'a sys \<Rightarrow> 'a sys \<times> int" where
  "ftp_store fname s = (s, -1)"

fun exec_op :: "'a handler \<Rightarrow> ftp_op \<Rightarrow> 'a sys \<Rightarrow> 'a sys res" where
  "exec_op h fop s =
     (case op_code fop of
        FTP_TYPE \<Rightarrow> ftp_type (op_arg fop) s
      | FTP_PWD \<Rightarrow> ftp_pwd s
      | FTP_CHDIR \<Rightarrow> ftp_chdir (op_arg fop) s
      | FTP_CDUP \<Rightarrow> ftp_chdir (Some ''..'') s
      | FTP_MKDIR \<Rightarrow> Inr (fst (ftp_mkdir (op_arg fop) s))
      | FTP_RMDIR \<Rightarrow> Inr (fst (ftp_rmdir (op_arg fop) s))
      | FTP_DEL \<Rightarrow> Inr (fst (ftp_delete (op_arg fop) s))
      | FTP_LIST \<Rightarrow> bindE (ftp_list h s) (\<lambda>(s, _). Inr s)
      | FTP_RETR \<Rightarrow> Inr (fst (ftp_retrieve (op_arg fop) s))
      | FTP_STORE \<Rightarrow> Inr (fst (ftp_store (op_arg fop) s))
      | FTP_XFER \<Rightarrow> bindE (ftp_transfer h (op_data fop) s) (\<lambda>(s, _). Inr s))"

declare exec_op.simps [simp del]

definition exec_queued :: "'a handler \<Rightarrow> 'a sys \<Rightarrow> 'a sys res" where
  "exec_queued h s =
     bindE (deq_op (opqueue s)) (\<lambda>r. case r of
         None \<Rightarrow> Inr s
       | Some (fop, q) \<Rightarrow> exec_op h fop (s\<lparr>opqueue := q\<rparr>))"

definition ftp_queue :: "'a handler \<Rightarrow> opcode \<Rightarrow> string option \<Rightarrow> 'a sys \<Rightarrow> ('a sys \<times> int) res" where
  "ftp_queue h op arg s =
     (if busy s = 0 \<and> qhead (opqueue s) = None
      then bindE (exec_op h \<lparr>op_code = op, op_arg = arg, op_data = None\<rparr> s) (\<lambda>s. Inr (s, 0))
      else
        case sys_malloc s of
          (False, s) \<Rightarrow> Inr (s, -1)
        | (True, s) \<Rightarrow>
            (case (if arg \<noteq> None then sys_malloc s else (True, s)) of
               (False, s) \<Rightarrow> Inr (s, -1)
             | (True, s) \<Rightarrow>
                 bindE (enq_op \<lparr>op_code = op, op_arg = arg, op_data = None\<rparr> (opqueue s))
                   (\<lambda>q. Inr (s\<lparr>opqueue := q\<rparr>, 0))))"

definition ftp_queue_transfer :: "'a handler \<Rightarrow> nat \<Rightarrow> 'a sys \<Rightarrow> ('a sys \<times> int) res" where
  "ftp_queue_transfer h xfer s =
     (if busy s = 0 \<and> qhead (opqueue s) = None
      then bindE (exec_op h \<lparr>op_code = FTP_XFER, op_arg = None, op_data = Some xfer\<rparr> s)
             (\<lambda>s. Inr (s, 0))
      else
        case sys_malloc s of
          (False, s) \<Rightarrow> Inr (s, -1)
        | (True, s) \<Rightarrow>
            bindE (enq_op \<lparr>op_code = FTP_XFER, op_arg = None, op_data = Some xfer\<rparr> (opqueue s))
              (\<lambda>q. Inr (s\<lparr>opqueue := q\<rparr>, 0)))"

definition newconn :: "'a handler \<Rightarrow> 'a sys \<Rightarrow> ('a sys \<times> int) res" where
  "newconn h s =
     bindE (ftp_queue h FTP_TYPE (Some ''I'') s) (\<lambda>(s, _).
     bindE (ftp_queue h FTP_PWD None s) (\<lambda>(s, _).
     bindE (ftp_queue h FTP_LIST None s) (\<lambda>(s, _). Inr (s, 0))))"

section \<open>Replies\<close>

text \<open>Following a \<open>void\<close> pointer.\<close>

definition deref_buf :: "cls \<Rightarrow> 'a sys \<Rightarrow> (nat \<times> recvbuf) res" where
  "deref_buf c s =
     (case c of
        ClsNull \<Rightarrow> Inl NullDeref
      | ClsXfer _ \<Rightarrow> Inl BadCast
      | ClsBuf i \<Rightarrow> (case bufs s i of None \<Rightarrow> Inl UseAfterFree | Some b \<Rightarrow> Inr (i, b)))"

definition deref_xfer :: "cls \<Rightarrow> 'a sys \<Rightarrow> (nat \<times> ftp_transfer) res" where
  "deref_xfer c s =
     (case c of
        ClsNull \<Rightarrow> Inl NullDeref
      | ClsBuf _ \<Rightarrow> Inl BadCast
      | ClsXfer i \<Rightarrow> (case xfers s i of None \<Rightarrow> Inl UseAfterFree | Some x \<Rightarrow> Inr (i, x)))"

definition cproc_active :: "int \<Rightarrow> 'a sys \<Rightarrow> 'a sys \<times> int" where
  "cproc_active code s =
     (if code \<noteq> 200 then (ftp_close (emit (OLog Err ''ftp_active failed'' []) s), 0)
      else (s\<lparr>status := FTP_CONN_ACT\<rparr>, 0))"

text \<open>The label \<open>nopasv\<close> of \<open>cproc_pasv\<close>: no passive mode from here on, try active mode.\<close>

definition nopasv :: "'a sys \<Rightarrow> ('a sys \<times> int) res" where
  "nopasv s = bindE (ftp_active (s\<lparr>pasv_mode := False\<rparr>)) (\<lambda>(s, _). Inr (s, 0))"

definition cproc_pasv :: "int \<Rightarrow> string \<Rightarrow> 'a sys \<Rightarrow> ('a sys \<times> int) res" where
  "cproc_pasv code buf s =
     (if code \<noteq> 227 then nopasv (emit (OLog Err ''ftp_passive failed'' []) s)
      else
        case parse_pasv buf of
          None \<Rightarrow> nopasv (emit (OLog Err ''ftp_passive: failed to parse response: %s'' [buf]) s)
        | Some (ipaddr, port) \<Rightarrow>
            (case sys_socket s of (fd, s) \<Rightarrow>
             let s = s\<lparr>data := fd\<rparr> in
             if fd = -1 then nopasv s
             else
               let s = emit (OLog Info ''passive mode: %s port %d''
                               [inet_ntoa ipaddr, dec_str (nat port)]) s
               in case sys_connect (emit (OConnect (data s) ipaddr port) s) of
                    (False, s) \<Rightarrow>
                      let s = emit (OLog Err ''ftp_passive: failed to connect to %s:%p''
                                      [inet_ntoa ipaddr, dec_str (nat port)]) s;
                          s = emit (OClose (data s)) s
                      in nopasv (s\<lparr>data := -1\<rparr>)
                  | (True, s) \<Rightarrow> Inr (s\<lparr>status := FTP_CONN_PASV\<rparr>, 0)))"

definition cproc_pwd :: "int \<Rightarrow> string \<Rightarrow> 'a sys \<Rightarrow> 'a sys \<times> int" where
  "cproc_pwd code buf s =
     (if code \<noteq> 257 then (emit (OLog Warn ''pwd failed'' []) s, -1)
      else
        case get_quoted_text buf of
          None \<Rightarrow> (emit (OLog Warn ''pwd: invalid response: %s'' [buf]) s, -1)
        | Some dirname \<Rightarrow> (s\<lparr>curdir := Some dirname, modified := FTP_MOD_DIR\<rparr>, 0))"

definition cproc_cwd :: "'a handler \<Rightarrow> int \<Rightarrow> 'a sys \<Rightarrow> ('a sys \<times> int) res" where
  "cproc_cwd h code s =
     (if code \<noteq> 250 then Inr (emit (OLog Warn ''cwd failed'' []) s, -1)
      else
        bindE (ftp_queue h FTP_PWD None s) (\<lambda>(s, _).
        bindE (ftp_queue h FTP_LIST None s) (\<lambda>(s, _). Inr (s, 0))))"

definition cproc_list :: "int \<Rightarrow> 'a sys \<Rightarrow> 'a sys \<times> int" where
  "cproc_list code s =
     (if code < 200 then (s, 1)
      else if code \<ge> 400
      then (emit (OLog Err ''failed to retrieve directory listing'' []) s, 0)
      else (s, 0))"

text \<open>\<open>sscanf (ptr, "(%ld bytes)")\<close>: what is assigned depends on the number alone.\<close>

definition scan_total :: "string \<Rightarrow> int option" where
  "scan_total p =
     (case p of
        [] \<Rightarrow> None
      | c # r \<Rightarrow>
          if c \<noteq> CHR ''('' then None
          else
            let t = dropWhile isspace r;
                neg = (t \<noteq> [] \<and> hd t = CHR ''-'');
                u = (if t \<noteq> [] \<and> (hd t = CHR ''-'' \<or> hd t = CHR ''+'') then tl t else t);
                v = int (dec_val 0 u)
            in if u = [] \<or> \<not> isdigit (hd u) then None
               else Some (if neg then max (- (2 ^ 63)) (- v) else min (2 ^ 63 - 1) v))"

definition call_done :: "'a callback \<Rightarrow> nat \<Rightarrow> ftp_transfer \<Rightarrow> 'a sys \<Rightarrow> 'a sys res" where
  "call_done cb i x s = (case x_done x of None \<Rightarrow> Inl NullDeref | Some f \<Rightarrow> cb f i s)"

definition cproc_xfer :: "'a callback \<Rightarrow> int \<Rightarrow> string \<Rightarrow> cls \<Rightarrow> 'a sys \<Rightarrow> ('a sys \<times> int) res" where
  "cproc_xfer cb code buf c s =
     (if code < 200
      then (if code = 150
            then (case strchr buf CHR ''('' of
                    None \<Rightarrow> Inr (s, 1)
                  | Some ptr \<Rightarrow>
                      (case scan_total ptr of
                         None \<Rightarrow> Inr (s, 1)
                       | Some n \<Rightarrow>
                           bindE (deref_xfer c s) (\<lambda>(i, x).
                           Inr (s\<lparr>xfers := (xfers s)(i \<mapsto> x\<lparr>x_total := n\<rparr>)\<rparr>, 1))))
            else Inr (s, 1))
      else if code \<ge> 400
      then let s = emit (OLog Err ''failed to retrieve file'' []) s
           in bindE (deref_xfer c s) (\<lambda>(i, x). bindE (call_done cb i x s) (\<lambda>s. Inr (s, 0)))
      else Inr (s, 0))"

definition run_cproc ::
  "'a handler \<Rightarrow> 'a callback \<Rightarrow> cproc \<Rightarrow> int \<Rightarrow> string \<Rightarrow> cls \<Rightarrow> 'a sys \<Rightarrow> ('a sys \<times> int) res" where
  "run_cproc h cb f code buf c s =
     (case f of
        Cproc_active \<Rightarrow> Inr (cproc_active code s)
      | Cproc_pasv \<Rightarrow> cproc_pasv code buf s
      | Cproc_pwd \<Rightarrow> Inr (cproc_pwd code buf s)
      | Cproc_cwd \<Rightarrow> cproc_cwd h code s
      | Cproc_list \<Rightarrow> Inr (cproc_list code s)
      | Cproc_xfer \<Rightarrow> cproc_xfer cb code buf c s)"

text \<open>The dialogue of a new connection, while no reply handler is set.\<close>

definition login_reply :: "'a handler \<Rightarrow> int \<Rightarrow> 'a sys \<Rightarrow> 'a sys res" where
  "login_reply h code s =
     (let s = s\<lparr>busy := 0\<rparr> in
      if code = 220 then sendcmd (''user '' @ (case user s of Some u \<Rightarrow> u | None \<Rightarrow> ''anonymous'')) s
      else if code = 331 then sendcmd (''pass '' @ (case pass s of Some p \<Rightarrow> p | None \<Rightarrow> ''foobar'')) s
      else if code = 230
      then bindE (newconn h (emit (OLog Info ''login successful'' []) s)) (\<lambda>(s, r).
           if r = -1 then Inr (ftp_close s) else Inr s)
      else if code = 530
      then Inr (emit (OLog Err ''login failed'' []) (s\<lparr>status := FTP_DISC\<rparr>))
      else Inr (s\<lparr>busy := 0\<rparr>))"

definition proc_control :: "'a handler \<Rightarrow> 'a callback \<Rightarrow> string \<Rightarrow> 'a sys \<Rightarrow> 'a sys res" where
  "proc_control h cb line s =
     (let buf = reply_line line;
          s = emit (OLog Info ''recv: %s'' [buf]) s;
          code = respcode buf
      in if code = 0
         then Inr (emit (OLog Warn ''ignoring invalid response: %s'' [buf]) s)
         else if code < 0 then Inr s
         else
           let s = s\<lparr>last_resp := code\<rparr>
           in case cproc s of
                Some f \<Rightarrow>
                  bindE (run_cproc h cb f code buf (cproc_cls s) s) (\<lambda>(s, r).
                  if r \<le> 0 then Inr (s\<lparr>busy := busy s - 1\<rparr>) else Inr s)
              | None \<Rightarrow> login_reply h code s)"

text \<open>
  \<open>handle_control\<close>. \<open>scan_lines h cb k pos buf s\<close> is the loop over the \<open>k\<close> bytes from index \<open>pos\<close> of
  \<open>crecv\<close>; \<open>buf\<close> is the index at which the current line starts. Every byte is read when the loop
  reaches it, so what a nested call did to \<open>crecv\<close> counts. \<open>control_loop\<close> is the outer loop, with a
  bound on the number of calls of \<open>recv\<close>.
\<close>

fun scan_lines ::
  "'a handler \<Rightarrow> 'a callback \<Rightarrow> nat \<Rightarrow> nat \<Rightarrow> nat \<Rightarrow> 'a sys \<Rightarrow> ('a sys \<times> nat) res" where
  "scan_lines h cb 0 pos buf s = Inr (s, buf)"
| "scan_lines h cb (Suc k) pos buf s =
     (let c = crecv s ! pos in
      if c = CR then scan_lines h cb k (Suc pos) buf (s\<lparr>crecv := (crecv s)[pos := NUL]\<rparr>)
      else if c = LF then
        let s = s\<lparr>crecv := (crecv s)[pos := NUL]\<rparr>
        in bindE (proc_control h cb (cstr (drop buf (crecv s))) s)
             (scan_lines h cb k (Suc pos) (Suc pos))
      else scan_lines h cb k (Suc pos) buf s)"

definition keep_rest :: "nat \<Rightarrow> nat \<Rightarrow> 'a sys \<Rightarrow> 'a sys" where
  "keep_rest buf endp s =
     (if buf \<noteq> 0 \<and> buf < endp
      then let n = endp - buf
           in s\<lparr>num_crecv := n, crecv := take n (drop buf (crecv s)) @ drop n (crecv s)\<rparr>
      else s\<lparr>num_crecv := 0\<rparr>)"

fun control_loop :: "'a handler \<Rightarrow> 'a callback \<Rightarrow> nat \<Rightarrow> 'a sys \<Rightarrow> ('a sys \<times> int) res" where
  "control_loop h cb 0 s = Inl NoReturn"
| "control_loop h cb (Suc n) s =
     (let full = (num_crecv s \<ge> CRECV_SIZE);
          s = (if full then (emit (OLog Warn ''discard buffer'' []) s)\<lparr>num_crecv := 0\<rparr> else s);
          sz = CRECV_SIZE - num_crecv s;
          start = num_crecv s
      in case rx_take sz (ctl_rx s) of
           (RxIntr, r) \<Rightarrow> control_loop h cb n (s\<lparr>ctl_rx := r\<rparr>)
         | (RxBlock, r) \<Rightarrow> Inr (s\<lparr>ctl_rx := r\<rparr>, 0)
         | (Rx bs, r) \<Rightarrow>
             let s = s\<lparr>ctl_rx := r\<rparr>;
                 rd = length bs
             in if rd = 0 then Inr (ftp_close s, -1)
                else
                  let s = s\<lparr>crecv := take start (crecv s) @ bs @ drop (start + rd) (crecv s)\<rparr>
                  in bindE (scan_lines h cb rd start 0 s) (\<lambda>(s, buf).
                     control_loop h cb n (keep_rest buf (start + rd) s)))"

text \<open>Each call of \<open>recv\<close> takes an answer or at least one byte.\<close>

definition rx_size :: "rx_ans list \<Rightarrow> nat" where
  "rx_size rx = sum_list (map (\<lambda>a. case a of Rx bs \<Rightarrow> Suc (length bs) | _ \<Rightarrow> 1) rx)"

definition handle_control :: "'a handler \<Rightarrow> 'a callback \<Rightarrow> 'a sys \<Rightarrow> ('a sys \<times> int) res" where
  "handle_control h cb s = control_loop h cb (Suc (rx_size (ctl_rx s))) s"

section \<open>Data\<close>

text \<open>
  \<open>dproc_list\<close>: \<open>ent0\<close> is the local entry, whose size no one has set yet. \<open>newsz\<close> is an \<open>int\<close>; a packet for which the
  block cannot grow is dropped.
\<close>

definition ent0 :: ftp_dirent where
  "ent0 = \<lparr>de_name = [], de_type = FTP_DIR, de_size = None\<rparr>"

definition dproc_list :: "string \<Rightarrow> cls \<Rightarrow> 'a sys \<Rightarrow> 'a sys res" where
  "dproc_list buf c s =
     bindE (deref_buf c s) (\<lambda>(i, rbuf).
     let sz = length buf in
     if sz = 0
     then
       bindE (parse_listing ent0 (rb_size rbuf) (rb_buf rbuf) (darr_clear (dirent s))) (\<lambda>d.
       let s = s\<lparr>dirent := d, modified := modified s OR FTP_MOD_DIR,
                 bufs := (bufs s)(i := None), dproc := None\<rparr>;
           s = s\<lparr>dirent := darr_qsort ftp_direntcmp (dirent s)\<rparr>
       in Inr (s\<lparr>busy := busy s - 1\<rparr>))
     else
       let grow = (int (rb_size rbuf + sz) > rb_bufsz rbuf);
           newsz = int32 (2 * rb_bufsz rbuf)
       in case (if grow then sys_realloc newsz s else (True, s)) of
            (False, s) \<Rightarrow> Inr (emit (OLog Err ''failed to resize receive buffer'' []) s)
          | (True, s) \<Rightarrow>
              let rbuf = (if grow
                          then (let old = take (nat newsz) (rb_buf rbuf)
                                in rbuf\<lparr>rb_buf := old @ fresh_bytes s i (length old) (nat newsz), rb_bufsz := newsz\<rparr>)
                          else rbuf)
              in if rb_size rbuf + sz > length (rb_buf rbuf) then Inl Overrun
                 else Inr (s\<lparr>bufs := (bufs s)(i \<mapsto> rbuf\<lparr>
                        rb_buf := take (rb_size rbuf) (rb_buf rbuf) @ buf @ drop (rb_size rbuf + sz) (rb_buf rbuf),
                        rb_size := rb_size rbuf + sz\<rparr>)\<rparr>))"

text \<open>Growing \<open>xfer->mem\<close> and copying the bytes behind what it held.\<close>

definition mem_append :: "char darr \<Rightarrow> string \<Rightarrow> char darr" where
  "mem_append m buf =
     (let prevsz = darr_size m;
          m = darr_resize_desc (prevsz + length buf) m
      in m\<lparr>cells := take prevsz (cells m) @ map Some buf @ drop (prevsz + length buf) (cells m)\<rparr>)"

definition dproc_xfer :: "'a callback \<Rightarrow> string \<Rightarrow> cls \<Rightarrow> 'a sys \<Rightarrow> 'a sys res" where
  "dproc_xfer cb buf c s =
     bindE (deref_xfer c s) (\<lambda>(i, x).
     if x_op x = FTP_RETR
     then
       let sz = length buf in
       if sz = 0
       then
         let s = emit (OLog Info ''data connection closed'' []) s;
             s = (case x_fp x of
                    None \<Rightarrow> s
                  | Some f \<Rightarrow> (emit (OFclose f) s)\<lparr>xfers := (xfers s)(i \<mapsto> x\<lparr>x_fp := None\<rparr>)\<rparr>)
         in bindE (case x_done x of None \<Rightarrow> Inr s | Some f \<Rightarrow> cb f i s)
              (\<lambda>s. Inr (s\<lparr>busy := busy s - 1\<rparr>))
       else
         let s = (case x_fp x of
                    Some f \<Rightarrow> s\<lparr>files := (files s)(f := files s f @ buf)\<rparr>
                  | None \<Rightarrow> s);
             x = (if x_fp x \<noteq> None then x
                  else case x_mem x of None \<Rightarrow> x | Some m \<Rightarrow> x\<lparr>x_mem := Some (mem_append m buf)\<rparr>);
             x = x\<lparr>x_count := x_count x + int sz\<rparr>;
             x = (if x_count x > x_total x then x\<lparr>x_count := x_total x\<rparr> else x)
         in Inr (s\<lparr>xfers := (xfers s)(i \<mapsto> x)\<rparr>)
     else Inr s)"

definition run_dproc :: "'a callback \<Rightarrow> dproc \<Rightarrow> string \<Rightarrow> cls \<Rightarrow> 'a sys \<Rightarrow> 'a sys res" where
  "run_dproc cb f buf c s =
     (case f of Dproc_list \<Rightarrow> dproc_list buf c s | Dproc_xfer \<Rightarrow> dproc_xfer cb buf c s)"

text \<open>\<open>handle_data\<close>: at most four packets in one call.\<close>

fun data_loop :: "'a callback \<Rightarrow> nat \<Rightarrow> 'a sys \<Rightarrow> ('a sys \<times> int) res" where
  "data_loop cb 0 s = Inr (s, 0)"
| "data_loop cb (Suc n) s =
     (case rx_take DRECV_SIZE (dat_rx s) of
        (RxIntr, r) \<Rightarrow> data_loop cb n (s\<lparr>dat_rx := r\<rparr>)
      | (RxBlock, r) \<Rightarrow> Inr (s\<lparr>dat_rx := r\<rparr>, 0)
      | (Rx bs, r) \<Rightarrow>
          bindE (case dproc s of
                   None \<Rightarrow> Inr (s\<lparr>dat_rx := r\<rparr>)
                 | Some f \<Rightarrow> run_dproc cb f bs (dproc_cls s) (s\<lparr>dat_rx := r\<rparr>))
            (\<lambda>s. if bs = [] then Inr ((emit (OClose (data s)) s)\<lparr>data := -1\<rparr>, -1)
                 else data_loop cb n s))"

definition handle_data :: "'a callback \<Rightarrow> 'a sys \<Rightarrow> ('a sys \<times> int) res" where
  "handle_data cb s = (if data s = -1 then Inr (s, -1) else data_loop cb 4 s)"

section \<open>Events\<close>

definition handle_accept :: "'a sys \<Rightarrow> 'a sys" where
  "handle_accept s =
     (case sys_accept s of (ns, s) \<Rightarrow>
        if data s \<ge> 0 then emit (OClose ns) s else s\<lparr>data := ns\<rparr>)"

text \<open>
  One call of \<open>ftp_handle\<close> with nested calls going to \<open>h\<close>. It returns -1 on every path, so only the
  state is a result.
\<close>

definition handle_step :: "'a callback \<Rightarrow> 'a handler \<Rightarrow> int \<Rightarrow> 'a sys \<Rightarrow> 'a sys res" where
  "handle_step cb h fd s =
     bindE (if fd = ctl s then bindE (handle_control h cb s) (\<lambda>(s, r). Inr (s, r = -1))
            else if fd = data s then bindE (handle_data cb s) (\<lambda>(s, _). Inr (s, False))
            else if fd = lis s then Inr (handle_accept s, False)
            else Inr (s, False))
       (\<lambda>(s, stop).
          if stop then Inr s
          else if busy s \<le> 0
          then (if busy s \<noteq> 0 then Inl AssertFail else exec_queued h s)
          else Inr s)"

fun ftp_handle_n :: "nat \<Rightarrow> 'a callback \<Rightarrow> 'a handler" where
  "ftp_handle_n 0 cb fd s = Inl NoReturn"
| "ftp_handle_n (Suc n) cb fd s = handle_step cb (ftp_handle_n n cb) fd s"

definition ftp_handle :: "'a callback \<Rightarrow> 'a handler" where
  "ftp_handle cb fd s = ftp_handle_n (Suc (length (sel_in s))) cb fd s"

section \<open>Queries\<close>

definition ftp_curdir :: "'a sys \<Rightarrow> string option" where
  "ftp_curdir s = curdir s"

definition ftp_num_dirent :: "'a sys \<Rightarrow> nat" where
  "ftp_num_dirent s = darr_size (dirent s)"

text \<open>\<open>ftp_dirent\<close> computes a pointer; the read through it is what can go wrong.\<close>

definition ftp_dirent_at :: "'a sys \<Rightarrow> int \<Rightarrow> ftp_dirent res" where
  "ftp_dirent_at s idx = darr_get (dirent s) idx"

end
