(* ===== verification/Ftp_Inv.thy ===== *)
theory Ftp_Inv
  imports Ftp
begin

section \<open>Invariant\<close>

text \<open>A receive buffer: the size of the block is what the structure says, and an \<open>int\<close> holds it.\<close>

definition buf_ok :: "recvbuf \<Rightarrow> bool" where
  "buf_ok b \<longleftrightarrow> int (length (rb_buf b)) = rb_bufsz b \<and> rb_size b \<le> length (rb_buf b)
     \<and> 1024 \<le> rb_bufsz b \<and> rb_bufsz b < 2 ^ 31"

text \<open>The bytes received, and the largest block there can be.\<close>

definition rb_data :: "recvbuf \<Rightarrow> string" where
  "rb_data b = take (rb_size b) (rb_buf b)"

abbreviation max_block :: nat where
  "max_block \<equiv> 2 ^ 30"

lemma rb_data_length: "buf_ok b \<Longrightarrow> length (rb_data b) = rb_size b"
  by (simp add: buf_ok_def rb_data_def)

lemma packet_fits:
  assumes "bufs s i = Some b" "buf_ok b" "p \<noteq> []" "int (rb_size b + length p) \<le> rb_bufsz b"
  shows "\<exists>b'. dproc_list p (ClsBuf i) s = Inr (s\<lparr>bufs := (bufs s)(i \<mapsto> b')\<rparr>) \<and> buf_ok b' \<and> rb_data b' = rb_data b @ p
    \<and> rb_bufsz b' = rb_bufsz b"
proof -
  let ?b = "b\<lparr>rb_buf := take (rb_size b) (rb_buf b) @ p @ drop (rb_size b + length p) (rb_buf b), rb_size := rb_size b + length p\<rparr>"
  have len: "rb_size b + length p \<le> length (rb_buf b)" using assms(2,4) by (simp add: buf_ok_def)
  have "\<not> int (rb_size b + length p) > rb_bufsz b" using assms(4) by simp
  then have "dproc_list p (ClsBuf i) s = Inr (s\<lparr>bufs := (bufs s)(i \<mapsto> ?b)\<rparr>)"
    using assms(1,3) len by (simp add: dproc_list_def deref_buf_def Let_def)
  moreover have "buf_ok ?b" "rb_data ?b = rb_data b @ p"
    using assms(2) len by (simp_all add: buf_ok_def rb_data_def)
  ultimately show ?thesis by (intro exI [of _ ?b]) simp
qed

lemma packet_grows:
  assumes "bufs s i = Some b" "buf_ok b" "p \<noteq> []" "length p \<le> DRECV_SIZE" "int (rb_size b + length p) > rb_bufsz b"
    and "rb_bufsz b < int max_block" "sys_malloc s = (True, t)"
  shows "\<exists>b'. dproc_list p (ClsBuf i) s = Inr (t\<lparr>bufs := (bufs s)(i \<mapsto> b')\<rparr>) \<and> buf_ok b' \<and> rb_data b' = rb_data b @ p
    \<and> rb_bufsz b' = 2 * rb_bufsz b"
proof -
  have n: "int32 (2 * rb_bufsz b) = 2 * rb_bufsz b" using assms(2,6) by (intro int32_id) (auto simp: buf_ok_def)
  let ?m = "nat (2 * rb_bufsz b)"
  let ?block = "rb_buf b @ fresh_bytes t i (length (rb_buf b)) ?m"
  let ?b = "b\<lparr>rb_bufsz := 2 * rb_bufsz b, rb_buf := take (rb_size b) ?block @ p @ drop (rb_size b + length p) ?block,
    rb_size := rb_size b + length p\<rparr>"
  have t: "bufs t = bufs s" using assms(7) by (auto simp: sys_malloc_def split: prod.splits)
  have m: "length (rb_buf b) \<le> ?m" "rb_size b + length p \<le> ?m" "rb_size b \<le> length (rb_buf b)" "0 \<le> rb_bufsz b"
    using assms(2,4) unfolding buf_ok_def DRECV_SIZE_def by linarith+
  have len: "length ?block = ?m" "take ?m (rb_buf b) = rb_buf b" using m(1) by (simp_all add: fresh_bytes_def)
  have "dproc_list p (ClsBuf i) s = Inr (t\<lparr>bufs := (bufs s)(i \<mapsto> ?b)\<rparr>)"
  proof -
    have g: "(rb_bufsz b < int (rb_size b + length p)) = True" "(length p = 0) = False" using assms(3,5) by simp_all
    have r: "sys_realloc (2 * rb_bufsz b) s = (True, t)" using assms(7) m(4) by (simp add: sys_realloc_def)
    have v: "(length ?block < rb_size b + length p) = False" using m(2) len(1) by (simp del: length_append)
    show ?thesis
      unfolding dproc_list_def deref_buf_def Let_def
      by (simp only: cls.case option.case bindE_Inr prod.case assms(1) g n r if_True if_False bool.case len(2) t)
        (simp add: v del: length_append)
  qed
  moreover have "length (rb_buf ?b) = ?m" using m(2,3) len(1) by simp
  then have "buf_ok ?b" using assms(2,6) m by (simp add: buf_ok_def)
  moreover have "rb_data ?b = rb_data b @ p" using m(3) by (simp add: rb_data_def)
  ultimately show ?thesis by (intro exI [of _ ?b]) simp
qed

lemma packet_dropped:
  assumes "bufs s i = Some b" "buf_ok b" "p \<noteq> []" "int (rb_size b + length p) > rb_bufsz b"
  shows "rb_bufsz b < int max_block \<Longrightarrow> sys_malloc s = (False, t) \<Longrightarrow>
      dproc_list p (ClsBuf i) s = Inr (emit (OLog Err ''failed to resize receive buffer'' []) t)"
    and "int max_block \<le> rb_bufsz b \<Longrightarrow>
      dproc_list p (ClsBuf i) s = Inr (emit (OLog Err ''failed to resize receive buffer'' []) s)"
proof -
  assume "rb_bufsz b < int max_block" "sys_malloc s = (False, t)"
  moreover from this have "int32 (2 * rb_bufsz b) = 2 * rb_bufsz b" using assms(2) by (intro int32_id) (auto simp: buf_ok_def)
  ultimately show "dproc_list p (ClsBuf i) s = Inr (emit (OLog Err ''failed to resize receive buffer'' []) t)"
    using assms by (auto simp: dproc_list_def deref_buf_def Let_def sys_realloc_def buf_ok_def)
next
  assume "int max_block \<le> rb_bufsz b"
  then have "int32 (2 * rb_bufsz b) < 0" using assms(2) by (intro int32_neg) (auto simp: buf_ok_def)
  then show "dproc_list p (ClsBuf i) s = Inr (emit (OLog Err ''failed to resize receive buffer'' []) s)"
    using assms by (auto simp: dproc_list_def deref_buf_def Let_def sys_realloc_def)
qed

definition ftp_inv :: "('a \<Rightarrow> nat set \<Rightarrow> bool) \<Rightarrow> 'a sys \<Rightarrow> bool" where
  "ftp_inv I s \<longleftrightarrow>
     length (crecv s) = CRECV_SIZE \<and> num_crecv s < CRECV_SIZE
     \<and> q_ok (opqueue s) \<and> darr_ok (dirent s)
     \<and> (\<forall>i b. bufs s i = Some b \<longrightarrow> buf_ok b \<and> i < next_buf s)
     \<and> (dproc s = Some Dproc_list \<longrightarrow> (\<exists>i b. dproc_cls s = ClsBuf i \<and> bufs s i = Some b))
     \<and> (dproc s = Some Dproc_xfer \<longrightarrow> (\<exists>i. dproc_cls s = ClsXfer i))
     \<and> (cproc s = Some Cproc_xfer \<longrightarrow> (\<exists>i. cproc_cls s = ClsXfer i))
     \<and> I (app s) (dom (xfers s))"

definition step_ok :: "('a \<Rightarrow> nat set \<Rightarrow> bool) \<Rightarrow> 'a sys \<Rightarrow> 'a sys \<Rightarrow> bool" where
  "step_ok I s s' \<longleftrightarrow> ftp_inv I s' \<and> length (sel_in s') \<le> length (sel_in s)
     \<and> rx_size (ctl_rx s') \<le> rx_size (ctl_rx s)"

definition step_okp :: "('a \<Rightarrow> nat set \<Rightarrow> bool) \<Rightarrow> 'a sys \<Rightarrow> 'a sys \<times> 'b \<Rightarrow> bool" where
  "step_okp I s p \<longleftrightarrow> step_ok I s (fst p)"

definition ftp_faults :: "fault set" where
  "ftp_faults = {AssertFail, Overrun, Overread, NullDeref, UseAfterFree}"

lemma ftp_faults_simps [simp]:
  "AssertFail \<in> ftp_faults" "Overrun \<in> ftp_faults" "Overread \<in> ftp_faults" "NullDeref \<in> ftp_faults"
  "UseAfterFree \<in> ftp_faults" "BadCast \<notin> ftp_faults" "NoReturn \<notin> ftp_faults"
  by (simp_all add: ftp_faults_def)

abbreviation safe :: "('a \<Rightarrow> nat set \<Rightarrow> bool) \<Rightarrow> 'a sys \<Rightarrow> 'a sys res \<Rightarrow> bool" where
  "safe I s m \<equiv> safeE ftp_faults (step_ok I s) m"

abbreviation safep :: "('a \<Rightarrow> nat set \<Rightarrow> bool) \<Rightarrow> 'a sys \<Rightarrow> ('a sys \<times> 'b) res \<Rightarrow> bool" where
  "safep I s m \<equiv> safeE ftp_faults (step_okp I s) m"

lemma step_okp_pair [simp]: "step_okp I s (t, r) \<longleftrightarrow> step_ok I s t"
  by (simp add: step_okp_def)

lemma step_ok_refl: "ftp_inv I s \<Longrightarrow> step_ok I s s"
  by (simp add: step_ok_def)

lemma step_ok_self [simp]: "step_ok I s s \<longleftrightarrow> ftp_inv I s"
  by (simp add: step_ok_def)

lemma step_ok_inv: "step_ok I s t \<Longrightarrow> ftp_inv I t"
  by (simp add: step_ok_def)

lemma step_ok_trans: "step_ok I s t \<Longrightarrow> step_ok I t u \<Longrightarrow> step_ok I s u"
  by (auto simp: step_ok_def)

lemma step_ok_app: "step_ok I s t \<Longrightarrow> I (app t) (dom (xfers t))"
  by (simp add: step_ok_def ftp_inv_def)

lemma dom_absorb: "m i = Some x \<Longrightarrow> insert i (dom m) = dom m"
  by auto

lemma emit_fields [simp]: "app (emit e s) = app s" "xfers (emit e s) = xfers s"
  by (simp_all add: emit_def)

text \<open>Updates that the invariant does not look at.\<close>

lemma inv_frame [simp]:
  "ftp_inv I (emit e s) \<longleftrightarrow> ftp_inv I s" "ftp_inv I (s\<lparr>ctl := i\<rparr>) \<longleftrightarrow> ftp_inv I s"
  "ftp_inv I (s\<lparr>lis := i\<rparr>) \<longleftrightarrow> ftp_inv I s" "ftp_inv I (s\<lparr>data := i\<rparr>) \<longleftrightarrow> ftp_inv I s"
  "ftp_inv I (s\<lparr>status := c\<rparr>) \<longleftrightarrow> ftp_inv I s" "ftp_inv I (s\<lparr>busy := i\<rparr>) \<longleftrightarrow> ftp_inv I s"
  "ftp_inv I (s\<lparr>pasv_mode := b\<rparr>) \<longleftrightarrow> ftp_inv I s" "ftp_inv I (s\<lparr>last_resp := i\<rparr>) \<longleftrightarrow> ftp_inv I s"
  "ftp_inv I (s\<lparr>curdir := d\<rparr>) \<longleftrightarrow> ftp_inv I s" "ftp_inv I (s\<lparr>modified := w\<rparr>) \<longleftrightarrow> ftp_inv I s"
  "ftp_inv I (s\<lparr>files := fs\<rparr>) \<longleftrightarrow> ftp_inv I s"
  "ftp_inv I (s\<lparr>ctl_rx := rx\<rparr>) \<longleftrightarrow> ftp_inv I s" "ftp_inv I (s\<lparr>dat_rx := rx\<rparr>) \<longleftrightarrow> ftp_inv I s"
  "ftp_inv I (s\<lparr>sel_in := si\<rparr>) \<longleftrightarrow> ftp_inv I s" "ftp_inv I (s\<lparr>mem_in := bs\<rparr>) \<longleftrightarrow> ftp_inv I s"
  "ftp_inv I s \<Longrightarrow> ftp_inv I (s\<lparr>app := a\<rparr>) \<longleftrightarrow> I a (dom (xfers s))"
  "ftp_inv I s \<Longrightarrow> ftp_inv I (s\<lparr>xfers := xs\<rparr>) \<longleftrightarrow> I (app s) (dom xs)"
  by (simp_all add: ftp_inv_def emit_def)

lemma step_frame [simp]:
  "step_ok I s (emit e t) \<longleftrightarrow> step_ok I s t" "step_ok I s (t\<lparr>ctl := i\<rparr>) \<longleftrightarrow> step_ok I s t"
  "step_ok I s (t\<lparr>lis := i\<rparr>) \<longleftrightarrow> step_ok I s t" "step_ok I s (t\<lparr>data := i\<rparr>) \<longleftrightarrow> step_ok I s t"
  "step_ok I s (t\<lparr>status := c\<rparr>) \<longleftrightarrow> step_ok I s t" "step_ok I s (t\<lparr>busy := i\<rparr>) \<longleftrightarrow> step_ok I s t"
  "step_ok I s (t\<lparr>pasv_mode := b\<rparr>) \<longleftrightarrow> step_ok I s t" "step_ok I s (t\<lparr>last_resp := i\<rparr>) \<longleftrightarrow> step_ok I s t"
  "step_ok I s (t\<lparr>curdir := d\<rparr>) \<longleftrightarrow> step_ok I s t" "step_ok I s (t\<lparr>modified := w\<rparr>) \<longleftrightarrow> step_ok I s t"
  "step_ok I s (t\<lparr>files := fs\<rparr>) \<longleftrightarrow> step_ok I s t"
  "step_ok I s (t\<lparr>dat_rx := rx\<rparr>) \<longleftrightarrow> step_ok I s t" "step_ok I s (t\<lparr>mem_in := bs\<rparr>) \<longleftrightarrow> step_ok I s t"
  "step_ok I s t \<Longrightarrow> step_ok I s (t\<lparr>app := a\<rparr>) \<longleftrightarrow> I a (dom (xfers t))"
  "step_ok I s t \<Longrightarrow> step_ok I s (t\<lparr>xfers := xs\<rparr>) \<longleftrightarrow> I (app t) (dom xs)"
  by (simp_all add: step_ok_def) (simp_all add: emit_def)

lemma sys_calls_ok [simp]:
  "step_ok I s (snd (sys_socket t)) \<longleftrightarrow> step_ok I s t" "step_ok I s (snd (sys_connect t)) \<longleftrightarrow> step_ok I s t"
  "step_ok I s (snd (sys_bind t)) \<longleftrightarrow> step_ok I s t" "step_ok I s (snd (sys_getsockname t)) \<longleftrightarrow> step_ok I s t"
  "step_ok I s (snd (sys_gethostbyname t)) \<longleftrightarrow> step_ok I s t" "step_ok I s (snd (sys_accept t)) \<longleftrightarrow> step_ok I s t"
  "step_ok I s (snd (sys_malloc t)) \<longleftrightarrow> step_ok I s t"
  by (simp_all add: step_ok_def ftp_inv_def sys_socket_def sys_connect_def sys_bind_def
      sys_getsockname_def sys_gethostbyname_def sys_accept_def sys_malloc_def split: prod.splits)

lemma sys_call_pairs:
  "sys_socket t = (a, t') \<Longrightarrow> step_ok I s t' \<longleftrightarrow> step_ok I s t"
  "sys_connect t = (b, t') \<Longrightarrow> step_ok I s t' \<longleftrightarrow> step_ok I s t"
  "sys_bind t = (c, t') \<Longrightarrow> step_ok I s t' \<longleftrightarrow> step_ok I s t"
  "sys_getsockname t = (d, t') \<Longrightarrow> step_ok I s t' \<longleftrightarrow> step_ok I s t"
  "sys_accept t = (f, t') \<Longrightarrow> step_ok I s t' \<longleftrightarrow> step_ok I s t"
  "sys_malloc t = (g, t') \<Longrightarrow> step_ok I s t' \<longleftrightarrow> step_ok I s t"
  using sys_calls_ok [of I s t] by auto

text \<open>Sequencing.\<close>

lemma safe_trans: "step_ok I s t \<Longrightarrow> safe I t m \<Longrightarrow> safe I s m"
  by (cases m) (auto intro: step_ok_trans)

lemma safep_trans: "step_ok I s t \<Longrightarrow> safep I t m \<Longrightarrow> safep I s m"
  by (cases m) (auto simp: step_okp_def intro: step_ok_trans)

lemma safe_seq:
  assumes "safe I s m" and "\<And>t. m = Inr t \<Longrightarrow> step_ok I s t \<Longrightarrow> safe I t (f t)"
  shows "safe I s (bindE m f)"
  using assms by (cases m) (auto intro: safe_trans)

lemma safe_seqp:
  assumes "safe I s m" and "\<And>t. m = Inr t \<Longrightarrow> step_ok I s t \<Longrightarrow> safep I t (f t)"
  shows "safep I s (bindE m f)"
  using assms by (cases m) (auto intro: safep_trans)

lemma safep_seq:
  assumes "safep I s m" and "\<And>t r. m = Inr (t, r) \<Longrightarrow> step_ok I s t \<Longrightarrow> safe I t (f (t, r))"
  shows "safe I s (bindE m f)"
  using assms by (cases m) (auto simp: step_okp_def intro: safe_trans)

lemma safep_seqp:
  assumes "safep I s m" and "\<And>t r. m = Inr (t, r) \<Longrightarrow> step_ok I s t \<Longrightarrow> safep I t (f (t, r))"
  shows "safep I s (bindE m f)"
  using assms by (cases m) (auto simp: step_okp_def intro: safep_trans)

lemmas safe_seqs = safe_seq safe_seqp safep_seq safep_seqp

lemma drop_result: "safep I s m \<Longrightarrow> safe I s (bindE m (\<lambda>(s, _). Inr s))"
  by (cases m) (auto simp: step_okp_def)

lemma add_result: "safe I s m \<Longrightarrow> safep I s (bindE m (\<lambda>s. Inr (s, r)))"
  by (rule safeE_bind) (auto simp: step_okp_def)

section \<open>Operations that do not call back\<close>

lemma sendcmd_safe: "step_ok I s t \<Longrightarrow> safe I s (sendcmd cmd t)"
  by (simp add: sendcmd_def Let_def)

lemma ftp_type_safe: "step_ok I s t \<Longrightarrow> safe I s (ftp_type ty t)"
  by (auto simp: ftp_type_def Let_def sendcmd_safe split: option.split)

lemma set_cproc_ok:
  "step_ok I s t \<Longrightarrow> c \<noteq> Cproc_xfer \<Longrightarrow> step_ok I s (t\<lparr>cproc := Some c\<rparr>)"
  by (auto simp: step_ok_def ftp_inv_def)

lemma cmd_cproc_safe:
  "step_ok I s t \<Longrightarrow> c \<noteq> Cproc_xfer \<Longrightarrow> safe I s (bindE (sendcmd cmd t) (\<lambda>s. Inr (s\<lparr>cproc := Some c\<rparr>)))"
  by (rule safeE_bind [OF sendcmd_safe]) (auto intro: set_cproc_ok)

lemma cmd_cproc_safep:
  "step_ok I s t \<Longrightarrow> c \<noteq> Cproc_xfer
   \<Longrightarrow> safep I s (bindE (sendcmd cmd t) (\<lambda>s. Inr (s\<lparr>cproc := Some c\<rparr>, r)))"
  by (rule safeE_bind [OF sendcmd_safe]) (auto intro: set_cproc_ok)

lemma ftp_pwd_safe: "step_ok I s t \<Longrightarrow> safe I s (ftp_pwd t)"
  unfolding ftp_pwd_def by (rule cmd_cproc_safe) simp_all

lemma ftp_chdir_safe: "step_ok I s t \<Longrightarrow> safe I s (ftp_chdir d t)"
  by (cases d) (auto simp: ftp_chdir_def intro!: cmd_cproc_safe)

lemma ftp_close_ok: "step_ok I s t \<Longrightarrow> step_ok I s (ftp_close t)"
  by (auto simp: ftp_close_def Let_def step_ok_def ftp_inv_def emit_def CRECV_SIZE_def)

lemma ftp_free_ok:
  assumes "step_ok I s t"
  shows "step_ok I s (ftp_free t)"
proof -
  define u where "u = (if ctl t \<ge> 0 then ftp_close t else t)"
  have "step_ok I s u" using assms by (simp add: u_def ftp_close_ok)
  moreover have "darr_ok (free_dir d)" for d by (simp add: free_dir_def darr_ok_def darr_wf_def)
  ultimately have "step_ok I s (u\<lparr>dirent := free_dir (dirent u)\<rparr>)" by (simp add: step_ok_def ftp_inv_def)
  then show ?thesis by (simp add: ftp_free_def Let_def u_def)
qed

lemma ftp_active_safe:
  assumes "step_ok I s t"
  shows "safep I s (ftp_active t)"
proof -
  let ?t = "let s = (if lis t \<ge> 0 then emit (OClose (lis t)) t else t)
    in if data s \<ge> 0 then (emit (OClose (data s)) s)\<lparr>data := -1\<rparr> else s"
  have "step_ok I s ?t" using assms by (simp add: Let_def)
  moreover obtain fd t1 where 1: "sys_socket ?t = (fd, t1)" by (cases "sys_socket ?t")
  ultimately have s1: "step_ok I s (t1\<lparr>lis := fd\<rparr>)" by (simp add: sys_call_pairs)
  obtain ok t2 where 2: "sys_bind (t1\<lparr>lis := fd\<rparr>) = (ok, t2)" by (cases "sys_bind (t1\<lparr>lis := fd\<rparr>)")
  with s1 have s2: "step_ok I s (emit (OListen (lis t2)) t2)" by (simp add: sys_call_pairs)
  obtain nm t3 where 3: "sys_getsockname (emit (OListen (lis t2)) t2) = (nm, t3)"
    by (cases "sys_getsockname (emit (OListen (lis t2)) t2)")
  with s2 have s3: "step_ok I s t3" by (simp add: sys_call_pairs)
  show ?thesis
    using s1 s2 s3 1 2 3
    by (cases "fd = -1"; cases ok; cases nm)
      (auto simp: ftp_active_def Let_def intro!: cmd_cproc_safep)
qed

lemma ftp_passive_safe: "step_ok I s t \<Longrightarrow> safe I s (ftp_passive t)"
  unfolding ftp_passive_def Let_def by (auto intro!: cmd_cproc_safe)

lemma enq_step:
  assumes "step_ok I s t"
  shows "safep I s (bindE (enq_op fop (opqueue t)) (\<lambda>q. Inr (t\<lparr>opqueue := q\<rparr>, r)))"
proof -
  have q: "q_ok (opqueue t)" using assms by (simp add: step_ok_def ftp_inv_def)
  from opq.enqE [OF q, of fop] obtain q' where "enq_op fop (opqueue t) = Inr q'" "q_ok q'" .
  with assms show ?thesis by (auto simp: step_ok_def ftp_inv_def)
qed

lemma nopasv_safe: "step_ok I s t \<Longrightarrow> safep I s (nopasv t)"
  unfolding nopasv_def
  by (rule safeE_bind [OF ftp_active_safe]) (auto simp: step_okp_def)

lemma cproc_active_ok: "step_ok I s t \<Longrightarrow> step_okp I s (cproc_active code t)"
  by (auto simp: cproc_active_def intro!: ftp_close_ok)

lemma cproc_pasv_safe: "step_ok I s t \<Longrightarrow> safep I s (cproc_pasv code buf t)"
  unfolding cproc_pasv_def Let_def
  by (auto simp: sys_call_pairs intro!: nopasv_safe split: prod.splits bool.splits option.splits)

lemma cproc_pwd_ok: "step_ok I s t \<Longrightarrow> step_okp I s (cproc_pwd code buf t)"
  by (auto simp: cproc_pwd_def split: option.split)

lemma cproc_list_ok: "step_ok I s t \<Longrightarrow> step_okp I s (cproc_list code t)"
  by (auto simp: cproc_list_def)

lemma handle_accept_ok: "step_ok I s t \<Longrightarrow> step_ok I s (handle_accept t)"
  by (auto simp: handle_accept_def sys_call_pairs split: prod.splits)

lemma keep_rest_ok:
  assumes "step_ok I s t" and "e \<le> CRECV_SIZE"
  shows "step_ok I s (keep_rest b e t)"
  using assms by (auto simp: keep_rest_def step_ok_def ftp_inv_def Let_def CRECV_SIZE_def)

lemma rx_take_size:
  assumes "rx_take sz rx = (a, r)" and "a \<noteq> RxBlock" and "0 < sz"
  shows "rx_size r < rx_size rx"
  using assms by (auto simp: rx_take_def rx_size_def split: list.splits rx_ans.splits if_splits)

lemma rx_take_size_le: "rx_take sz rx = (a, r) \<Longrightarrow> 0 < sz \<Longrightarrow> rx_size r \<le> rx_size rx"
  by (auto simp: rx_take_def rx_size_def split: list.splits rx_ans.splits if_splits)

lemma rx_take_length: "rx_take sz rx = (Rx bs, r) \<Longrightarrow> length bs \<le> sz"
  by (auto simp: rx_take_def split: list.splits rx_ans.splits)

section \<open>Under an environment\<close>

text \<open>
  What the operations rely on: the nested \<open>ftp_handle\<close>, for up to \<open>n\<close> answers of \<open>select\<close>, and the
  callback of the client keep the invariant.
\<close>

locale ftp_env =
  fixes I :: "'a \<Rightarrow> nat set \<Rightarrow> bool" and h :: "'a handler" and cb :: "'a callback" and n :: nat
  assumes h_safe: "ftp_inv I s \<Longrightarrow> length (sel_in s) < n \<Longrightarrow> safe I s (h fd s)"
    and cb_safe: "ftp_inv I s \<Longrightarrow> safe I s (cb f i s)"
begin

definition good :: "'a sys \<Rightarrow> bool" where
  "good s \<longleftrightarrow> ftp_inv I s \<and> length (sel_in s) \<le> n"

lemma good_step: "good s \<Longrightarrow> step_ok I s t \<Longrightarrow> good t"
  by (simp add: good_def step_ok_def)

lemma good_refl: "good s \<Longrightarrow> step_ok I s s"
  by (simp add: good_def step_ok_def)

lemma cb_safe': "step_ok I s t \<Longrightarrow> safe I s (cb f i t)"
  using cb_safe step_ok_inv by (blast intro: safe_trans)

lemma sel_step: "step_ok I s t \<Longrightarrow> length r \<le> length (sel_in t) \<Longrightarrow> step_ok I s (t\<lparr>sel_in := r\<rparr>)"
  by (simp add: step_ok_def)

declare wait_loop.simps [simp del]

lemma wait_loop_safe:
  "good s \<Longrightarrow> length (sel_in s) < k \<Longrightarrow> 0 < timeout \<Longrightarrow> safep I s (wait_loop h k timeout s)"
proof (induction k arbitrary: timeout s)
  case (Suc k)
  have refl: "step_ok I s s" using Suc.prems(1) by (rule good_refl)
  show ?case
  proof (cases "ctl s < 0 \<or> sel_in s = []")
    case True
    then show ?thesis using refl Suc.prems(3) by (auto simp: sel_step wait_loop.simps)
  next
    case False
    then obtain a r where ar: "sel_in s = a # r" and c: "\<not> ctl s < 0" by (cases "sel_in s") auto
    have st: "step_ok I s (s\<lparr>sel_in := r\<rparr>)" using refl ar by (simp add: sel_step)
    have loop: "safep I u (wait_loop h k t u)" if "step_ok I (s\<lparr>sel_in := r\<rparr>) u" "0 < t" for u t
    proof (rule Suc.IH)
      show "good u" by (rule good_step [OF Suc.prems(1) step_ok_trans [OF st that(1)]])
      show "length (sel_in u) < k" using that(1) Suc.prems(2) ar by (simp add: step_ok_def)
    qed (rule that(2))
    have inv: "ftp_inv I (s\<lparr>sel_in := r\<rparr>)" using st by (rule step_ok_inv)
    show ?thesis
    proof (cases a)
      case SelIntr
      then show ?thesis
        using ar c Suc.prems(3) safep_trans [OF st loop [OF step_ok_refl [OF inv] Suc.prems(3)]]
        by (simp add: wait_loop.simps)
    next
      case (Sel ready el)
      let ?m = "if ready then h (ctl s) (s\<lparr>sel_in := r, last_resp := -1\<rparr>) else Inr (s\<lparr>sel_in := r\<rparr>)"
      have "safe I (s\<lparr>sel_in := r\<rparr>) ?m"
      proof (cases ready)
        case True
        have "safe I (s\<lparr>sel_in := r, last_resp := -1\<rparr>) (h (ctl s) (s\<lparr>sel_in := r, last_resp := -1\<rparr>))"
          using inv Suc.prems(1) ar by (intro h_safe) (auto simp: good_def)
        then show ?thesis
          using True inv by (auto intro!: safe_trans [OF _ \<open>safe I _ (h _ _)\<close>] step_ok_refl)
      qed (use inv step_ok_refl in auto)
      then have "safep I (s\<lparr>sel_in := r\<rparr>) (bindE ?m (\<lambda>s'. if ready \<and> last_resp s' \<noteq> 0
          then Inr (s', last_resp s')
          else if timeout > 0
          then (let timeout' = timeout - el
                in if timeout' \<le> 0 then Inr (s', -1) else wait_loop h k timeout' s')
          else wait_loop h k timeout s'))"
        by (rule safe_seqp) (use Suc.prems(3) in \<open>auto simp: Let_def dest: step_ok_inv intro!: loop\<close>)
      then have "safep I (s\<lparr>sel_in := r\<rparr>) (wait_loop h (Suc k) timeout s)"
        using Sel ar c by (simp add: wait_loop.simps)
      then show ?thesis by (rule safep_trans [OF st])
    qed
  qed
qed (simp add: wait_loop.simps)

lemma waitresp_safe:
  assumes "good s" and "step_ok I s t" and "0 < timeout"
  shows "safep I s (ftp_waitresp h timeout t)"
proof -
  have "good (t\<lparr>last_resp := -1\<rparr>)" using assms(1,2) by (auto intro: good_step)
  then have "safep I (t\<lparr>last_resp := -1\<rparr>) (ftp_waitresp h timeout t)"
    unfolding ftp_waitresp_def using assms(3) by (rule_tac wait_loop_safe) simp_all
  with assms(2) show ?thesis by (auto intro: safep_trans [where t = "t\<lparr>last_resp := -1\<rparr>"])
qed

lemma prepare_data_safe:
  assumes s: "good s" and t: "step_ok I s t"
  shows "safep I s (prepare_data h t)"
proof -
  have inv: "step_ok I t t" using t by (simp add: step_ok_def)
  have gt: "good t" using s t by (rule good_step)
  have "safep I t (if pasv_mode t then bindE (ftp_passive t) (\<lambda>s.
      bindE (ftp_waitresp h TIMEOUT s) (\<lambda>(s, _). Inr (s, 0))) else ftp_active t)"
  proof (cases "pasv_mode t")
    case True
    have w: "safep I u (bindE (ftp_waitresp h TIMEOUT u) (\<lambda>(s, _). Inr (s, 0)))" if "step_ok I t u" for u
      using that good_step [OF gt that]
      by (intro safep_seqp [OF waitresp_safe]) (auto simp: TIMEOUT_def dest: step_ok_inv)
    then show ?thesis using True by (auto intro!: safe_seqp [OF ftp_passive_safe [OF inv]])
  qed (simp add: ftp_active_safe [OF inv])
  then have "safep I t (prepare_data h t)"
    unfolding prepare_data_def using inv
    by (cases "data t \<ge> 0") (auto intro!: safep_seqp dest: step_ok_inv)
  with t show ?thesis by (rule safep_trans)
qed

lemma new_buf_ok:
  assumes "step_ok I s t"
  shows "step_ok I s (t\<lparr>bufs := (bufs t)(next_buf t \<mapsto> \<lparr>rb_buf = fresh_bytes u i 0 1024, rb_size = 0, rb_bufsz = 1024\<rparr>),
    next_buf := Suc (next_buf t)\<rparr>)"
  using assms by (auto simp: step_ok_def ftp_inv_def buf_ok_def fresh_bytes_def less_Suc_eq)

lemma sendcmd_frame:
  "sendcmd cmd s = Inr t \<Longrightarrow> bufs t = bufs s \<and> xfers t = xfers s \<and> opqueue t = opqueue s"
  by (auto simp: sendcmd_def Let_def emit_def split: if_splits)

lemma ftp_list_safe:
  assumes s: "good s" and t: "step_ok I s t"
  shows "safep I s (ftp_list h t)"
proof -
  define K where "K = (\<lambda>(s :: 'a sys, r :: int). if r = -1 then Inr (s, -1)
     else
       case sys_malloc s of
         (False, s) \<Rightarrow> Inr (emit (OLog Err ''failed to allocate receive buffer'' []) s, -1)
       | (True, s) \<Rightarrow>
           (case sys_malloc s of
              (False, s) \<Rightarrow> Inr (emit (OLog Err ''failed to allocate receive buffer'' []) s, -1)
            | (True, s) \<Rightarrow>
                let rbuf = next_buf s;
                    s = s\<lparr>bufs := (bufs s)(rbuf \<mapsto>
                            \<lparr>rb_buf = fresh_bytes s rbuf 0 1024, rb_size = 0, rb_bufsz = 1024\<rparr>),
                          next_buf := Suc rbuf\<rparr>
                in bindE (sendcmd ''list'' s) (\<lambda>s.
                   let s = s\<lparr>cproc := Some Cproc_list, dproc := Some Dproc_list,
                             cproc_cls := ClsBuf rbuf, dproc_cls := ClsBuf rbuf\<rparr>
                   in Inr (s\<lparr>busy := busy s + 1\<rparr>, 0 :: int))))"
  have "safep I u (K (u, r))" if "step_ok I t u" for u r
  proof -
    from that have u: "step_ok I u u" by (simp add: step_ok_def)
    obtain ok1 u1 where 1: "sys_malloc u = (ok1, u1)" by (cases "sys_malloc u")
    obtain ok2 u2 where 2: "sys_malloc u1 = (ok2, u2)" by (cases "sys_malloc u1")
    from u 1 2 have u1: "step_ok I u u1" and u2: "step_ok I u u2" by (simp_all add: sys_call_pairs)
    let ?i = "next_buf u2"
    let ?v = "u2\<lparr>bufs := (bufs u2)(?i \<mapsto> \<lparr>rb_buf = fresh_bytes u2 ?i 0 1024, rb_size = 0, rb_bufsz = 1024\<rparr>), next_buf := Suc ?i\<rparr>"
    have "safep I u (bindE (sendcmd ''list'' ?v) (\<lambda>s. Inr (s\<lparr>cproc := Some Cproc_list,
        dproc := Some Dproc_list, cproc_cls := ClsBuf ?i, dproc_cls := ClsBuf ?i,
        busy := busy s + 1\<rparr>, 0 :: int)))"
    proof (rule safeE_bind [OF sendcmd_safe [OF new_buf_ok [OF u2]]])
      fix w
      assume "sendcmd ''list'' ?v = Inr w" and w: "step_ok I u w"
      then have "bufs w ?i \<noteq> None" by (auto dest: sendcmd_frame)
      with w show "safep I u (Inr (w\<lparr>cproc := Some Cproc_list, dproc := Some Dproc_list,
          cproc_cls := ClsBuf ?i, dproc_cls := ClsBuf ?i, busy := busy w + 1\<rparr>, 0 :: int))"
        by (auto simp: step_ok_def ftp_inv_def)
    qed
    then show ?thesis
      using u u1 u2 1 2 by (cases ok1; cases ok2) (auto simp: K_def Let_def)
  qed
  moreover have "safep I t (prepare_data h t)"
    using prepare_data_safe [OF good_step [OF s t]] t by (simp add: step_ok_def)
  ultimately have "safep I t (bindE (prepare_data h t) K)" by (auto intro: safep_seqp)
  with t show ?thesis unfolding ftp_list_def K_def by (rule safep_trans)
qed

lemma ftp_transfer_safe:
  assumes s: "good s" and t: "step_ok I s t"
  shows "safep I s (ftp_transfer h xfer t)"
proof -
  define K where "K = (\<lambda>(s :: 'a sys, r :: int). if r = -1 then Inr (s, -1)
     else
       case xfer of
         None \<Rightarrow> Inl NullDeref
       | Some i \<Rightarrow>
           (case xfers s i of
              None \<Rightarrow> Inl UseAfterFree
            | Some x \<Rightarrow>
                if x_op x = FTP_RETR
                then bindE (sendcmd (''retr '' @ x_rname x) s) (\<lambda>s.
                     let s = s\<lparr>cproc := Some Cproc_xfer, dproc := Some Dproc_xfer,
                               cproc_cls := ClsXfer i, dproc_cls := ClsXfer i\<rparr>
                     in Inr (s\<lparr>busy := busy s + 1\<rparr>, 0 :: int))
                else Inr (s, 0)))"
  have "safep I u (K (u, r))" if "step_ok I t u" for u r
  proof -
    from that have u: "step_ok I u u" by (simp add: step_ok_def)
    have "safep I u (bindE (sendcmd c u) (\<lambda>s. Inr (s\<lparr>cproc := Some Cproc_xfer,
        dproc := Some Dproc_xfer, cproc_cls := ClsXfer i, dproc_cls := ClsXfer i,
        busy := busy s + 1\<rparr>, 0 :: int)))" for c i
      by (rule safeE_bind [OF sendcmd_safe [OF u]]) (auto simp: step_ok_def ftp_inv_def)
    then show ?thesis
      using u by (auto simp: K_def Let_def split: option.split)
  qed
  moreover have "safep I t (prepare_data h t)"
    using prepare_data_safe [OF good_step [OF s t]] t by (simp add: step_ok_def)
  ultimately have "safep I t (bindE (prepare_data h t) K)" by (auto intro: safep_seqp)
  with t show ?thesis unfolding ftp_transfer_def K_def by (rule safep_trans)
qed

lemma exec_op_safe: "good s \<Longrightarrow> step_ok I s t \<Longrightarrow> safe I s (exec_op h fop t)"
  by (auto simp: exec_op.simps ftp_type_safe ftp_pwd_safe ftp_chdir_safe ftp_list_safe
      ftp_transfer_safe ftp_mkdir_def ftp_rmdir_def ftp_delete_def ftp_retrieve_def ftp_store_def
      intro!: drop_result split: opcode.split)

lemma exec_queued_safe:
  assumes s: "good s" and t: "step_ok I s t"
  shows "safe I s (exec_queued h t)"
proof -
  have q: "q_ok (opqueue t)" using t by (simp add: step_ok_def ftp_inv_def)
  show ?thesis
  proof (cases rule: opq.deqE [OF q])
    case 1
    then show ?thesis using t by (simp add: exec_queued_def)
  next
    case (2 fop q')
    have "step_ok I s (t\<lparr>opqueue := q'\<rparr>)" using t 2 by (auto simp: step_ok_def ftp_inv_def)
    with 2 show ?thesis by (simp add: exec_queued_def exec_op_safe [OF s])
  qed
qed

lemma ftp_queue_safe:
  assumes s: "good s" and t: "step_ok I s t"
  shows "safep I s (ftp_queue h op arg t)"
proof -
  obtain ok1 u1 where 1: "sys_malloc t = (ok1, u1)" by (cases "sys_malloc t")
  obtain ok2 u2 where 2: "sys_malloc u1 = (ok2, u2)" by (cases "sys_malloc u1")
  from t 1 2 have "step_ok I s u1" "step_ok I s u2" by (simp_all add: sys_call_pairs)
  then show ?thesis
    using 1 2 exec_op_safe [OF s t] by (auto simp: ftp_queue_def enq_step add_result split: bool.split)
qed

lemma ftp_queue_transfer_safe:
  assumes s: "good s" and t: "step_ok I s t"
  shows "safep I s (ftp_queue_transfer h i t)"
proof -
  obtain ok1 u1 where 1: "sys_malloc t = (ok1, u1)" by (cases "sys_malloc t")
  from t 1 have "step_ok I s u1" by (simp add: sys_call_pairs)
  then show ?thesis
    using 1 exec_op_safe [OF s t] by (auto simp: ftp_queue_transfer_def enq_step add_result split: bool.split)
qed

text \<open>Three queued operations in a row.\<close>

lemma queue_then:
  assumes s: "good s" and t: "step_ok I s t"
    and k: "\<And>u r. step_ok I t u \<Longrightarrow> safep I u (f (u, r))"
  shows "safep I s (bindE (ftp_queue h op arg t) f)"
proof -
  have "good t" using s t by (rule good_step)
  moreover have tt: "step_ok I t t" using t by (simp add: step_ok_def)
  ultimately have "safep I t (ftp_queue h op arg t)" by (rule ftp_queue_safe)
  then have "safep I t (bindE (ftp_queue h op arg t) f)"
    by (rule safep_seqp) (rule k)
  with t show ?thesis by (rule safep_trans)
qed

lemma queue_pwd_list_safe:
  assumes s: "good s" and t: "step_ok I s t"
  shows "safep I s (bindE (ftp_queue h FTP_PWD None t) (\<lambda>(s, _).
    bindE (ftp_queue h FTP_LIST None s) (\<lambda>(s, _). Inr (s, 0 :: int))))"
proof (rule queue_then [OF s t])
  fix u and r :: int
  assume u: "step_ok I t u"
  have "good u" using good_step [OF good_step [OF s t] u] .
  moreover have "step_ok I u u" using u by (simp add: step_ok_def)
  ultimately have "safep I u (bindE (ftp_queue h FTP_LIST None u) (\<lambda>(s, _). Inr (s, 0 :: int)))"
    by (rule queue_then) (auto dest: step_ok_inv)
  then show "safep I u (case (u, r) of (s, _) \<Rightarrow>
      bindE (ftp_queue h FTP_LIST None s) (\<lambda>(s, _). Inr (s, 0 :: int)))" by simp
qed

lemma newconn_safe:
  assumes s: "good s" and t: "step_ok I s t"
  shows "safep I s (newconn h t)"
  unfolding newconn_def
proof (rule queue_then [OF s t])
  fix u and r :: int
  assume u: "step_ok I t u"
  have "good u" using good_step [OF good_step [OF s t] u] .
  moreover have "step_ok I u u" using u by (simp add: step_ok_def)
  ultimately show "safep I u (case (u, r) of (s, _) \<Rightarrow> bindE (ftp_queue h FTP_PWD None s) (\<lambda>(s, _).
    bindE (ftp_queue h FTP_LIST None s) (\<lambda>(s, _). Inr (s, 0 :: int))))"
    using queue_pwd_list_safe by simp
qed

lemma cproc_cwd_safe: "good s \<Longrightarrow> step_ok I s t \<Longrightarrow> safep I s (cproc_cwd h code t)"
  by (simp add: cproc_cwd_def queue_pwd_list_safe)

lemma cproc_xfer_safe: "step_ok I s t \<Longrightarrow> safep I s (cproc_xfer cb code buf (ClsXfer i) t)"
  by (auto simp: cproc_xfer_def deref_xfer_def call_done_def Let_def cb_safe' add_result
      step_ok_app dom_absorb
      split: option.split)

lemma run_cproc_safe:
  assumes s: "good s" and t: "step_ok I s t" and c: "cproc t = Some f"
  shows "safep I s (run_cproc h cb f code buf (cproc_cls t) (t\<lparr>last_resp := code\<rparr>))"
proof -
  have t': "step_ok I s (t\<lparr>last_resp := code\<rparr>)" using t by simp
  show ?thesis
  proof (cases f)
    case Cproc_xfer
    then obtain i where "cproc_cls t = ClsXfer i"
      using t c by (auto simp: step_ok_def ftp_inv_def)
    with Cproc_xfer cproc_xfer_safe [OF t'] show ?thesis by (simp add: run_cproc_def)
  qed (simp_all add: run_cproc_def cproc_active_ok [OF t'] cproc_pasv_safe [OF t']
      cproc_pwd_ok [OF t'] cproc_list_ok [OF t'] cproc_cwd_safe [OF s t'])
qed

lemma login_reply_safe:
  assumes s: "good s" and t: "step_ok I s t"
  shows "safe I s (login_reply h code t)"
proof -
  have t': "step_ok I s (emit (OLog Info ''login successful'' []) (t\<lparr>busy := 0\<rparr>))" using t by simp
  have "safe I s (bindE (newconn h (emit (OLog Info ''login successful'' []) (t\<lparr>busy := 0\<rparr>)))
      (\<lambda>(s, r). if r = -1 then Inr (ftp_close s) else Inr s))"
    by (rule safeE_bind [OF newconn_safe [OF s t']]) (auto simp: step_okp_def intro!: ftp_close_ok)
  with t show ?thesis by (simp add: login_reply_def Let_def sendcmd_safe)
qed

lemma proc_control_safe:
  assumes s: "good s" and t: "step_ok I s t"
  shows "safe I s (proc_control h cb line t)"
proof -
  let ?u = "emit (OLog Info ''recv: %s'' [reply_line line]) t"
  let ?code = "respcode (reply_line line)"
  have u: "step_ok I s ?u" using t by simp
  show ?thesis
  proof (cases "cproc t")
    case None
    moreover have "cproc ?u = None" using None by (simp add: emit_def)
    ultimately show ?thesis
      using t u login_reply_safe [OF s, of "?u\<lparr>last_resp := ?code\<rparr>"]
      by (simp add: proc_control_def Let_def)
  next
    case (Some f)
    then have c: "cproc ?u = Some f" by (simp add: emit_def)
    have "safe I s (bindE (run_cproc h cb f ?code (reply_line line) (cproc_cls ?u) (?u\<lparr>last_resp := ?code\<rparr>))
        (\<lambda>(s, r). if r \<le> 0 then Inr (s\<lparr>busy := busy s - 1\<rparr>) else Inr s))"
      by (rule safeE_bind [OF run_cproc_safe [OF s u c]]) (auto simp: step_okp_def)
    with c t show ?thesis by (simp add: proc_control_def Let_def)
  qed
qed

lemma crecv_upd_ok: "step_ok I s t \<Longrightarrow> step_ok I s (t\<lparr>crecv := (crecv t)[i := c]\<rparr>)"
  by (auto simp: step_ok_def ftp_inv_def)

text \<open>The loop over a chunk keeps \<open>buf\<close> within what it has read.\<close>

definition lines_ok :: "nat \<Rightarrow> 'a sys \<Rightarrow> 'a sys \<times> nat \<Rightarrow> bool" where
  "lines_ok e s p \<longleftrightarrow> step_ok I s (fst p) \<and> snd p \<le> e"

lemma scan_lines_safe:
  assumes s: "good s"
  shows "step_ok I s t \<Longrightarrow> buf \<le> pos \<Longrightarrow> safeE ftp_faults (lines_ok (pos + k) s) (scan_lines h cb k pos buf t)"
proof (induction k arbitrary: pos buf t)
  case (Suc k)
  have nl: "safeE ftp_faults (lines_ok (pos + Suc k) s)
      (bindE (proc_control h cb l (t\<lparr>crecv := (crecv t)[pos := NUL]\<rparr>)) (scan_lines h cb k (Suc pos) (Suc pos)))" for l
    by (rule safeE_bind [OF proc_control_safe [OF s crecv_upd_ok [OF Suc.prems(1)]]])
      (use Suc.IH [of _ "Suc pos" "Suc pos"] in simp)
  show ?case
    using Suc.prems nl Suc.IH [of _ buf "Suc pos"] by (auto simp: Let_def crecv_upd_ok)
qed (simp add: lines_ok_def)

lemma rx_step: "step_ok I s t \<Longrightarrow> rx_size r \<le> rx_size (ctl_rx t) \<Longrightarrow> step_ok I s (t\<lparr>ctl_rx := r\<rparr>)"
  by (simp add: step_ok_def)

lemma control_loop_safe:
  "good s \<Longrightarrow> rx_size (ctl_rx s) < k \<Longrightarrow> safep I s (control_loop h cb k s)"
proof (induction k arbitrary: s)
  case (Suc k)
  have inv: "ftp_inv I s" using Suc.prems(1) by (simp add: good_def)
  then have nf: "num_crecv s < CRECV_SIZE" and lc: "length (crecv s) = CRECV_SIZE"
    by (simp_all add: ftp_inv_def)
  obtain a r where ar: "rx_take (CRECV_SIZE - num_crecv s) (ctl_rx s) = (a, r)"
    by (cases "rx_take (CRECV_SIZE - num_crecv s) (ctl_rx s)")
  have le: "rx_size r \<le> rx_size (ctl_rx s)" using rx_take_size_le [OF ar] nf by simp
  have st: "step_ok I s (s\<lparr>ctl_rx := r\<rparr>)" using inv le by (simp add: rx_step)
  have lt: "rx_size r < k" if "a \<noteq> RxBlock"
    using rx_take_size [OF ar that] nf Suc.prems(2) by simp
  have again: "safep I u (control_loop h cb k u)" if "step_ok I (s\<lparr>ctl_rx := r\<rparr>) u" "a \<noteq> RxBlock" for u
    using that lt good_step [OF Suc.prems(1) step_ok_trans [OF st that(1)]]
    by (intro Suc.IH) (auto simp: step_ok_def)
  show ?case
  proof (cases a)
    case RxIntr
    then show ?thesis using ar nf again [OF step_ok_refl] st step_ok_inv [OF st]
      by (auto simp: Let_def intro: safep_trans)
  next
    case RxBlock
    then show ?thesis using ar nf st by (simp add: Let_def)
  next
    case (Rx bs)
    let ?start = "num_crecv s" and ?e = "num_crecv s + length bs"
    have len: "length bs \<le> CRECV_SIZE - ?start" using rx_take_length [of _ _ bs r] ar Rx by simp
    let ?t = "s\<lparr>ctl_rx := r, crecv := take ?start (crecv s) @ bs @ drop ?e (crecv s)\<rparr>"
    have t: "step_ok I (s\<lparr>ctl_rx := r\<rparr>) ?t"
      using inv len nf lc by (auto simp: step_ok_def ftp_inv_def)
    have gt: "good ?t" using good_step [OF Suc.prems(1) step_ok_trans [OF st t]] .
    have tt: "step_ok I ?t ?t" using t by (simp add: step_ok_def)
    have "safep I ?t (bindE (scan_lines h cb (length bs) ?start 0 ?t) (\<lambda>(s, buf).
        control_loop h cb k (keep_rest buf ?e s)))"
    proof (rule safeE_bind [OF scan_lines_safe [OF gt tt]])
      fix p
      assume p: "lines_ok (?start + length bs) ?t p"
      then have "step_ok I ?t (keep_rest (snd p) ?e (fst p))"
        using len nf by (intro keep_rest_ok) (auto simp: lines_ok_def)
      moreover from this have "safep I (keep_rest (snd p) ?e (fst p)) (control_loop h cb k (keep_rest (snd p) ?e (fst p)))"
        using Rx by (intro again step_ok_trans [OF t]) simp_all
      ultimately show "safep I ?t (case p of (s, buf) \<Rightarrow> control_loop h cb k (keep_rest buf ?e s))"
        by (auto simp: case_prod_beta intro: safep_trans)
    qed simp
    then have "safep I s (bindE (scan_lines h cb (length bs) ?start 0 ?t) (\<lambda>(s, buf).
        control_loop h cb k (keep_rest buf ?e s)))"
      by (rule safep_trans [OF step_ok_trans [OF st t]])
    then show ?thesis using ar Rx nf st by (simp add: Let_def ftp_close_ok)
  qed
qed simp

text \<open>
  Data. The block doubles before it could overflow, because a packet has at most 256 bytes. A packet that fits is
  stored behind what was received, a packet for which the block cannot grow is dropped.
\<close>

lemma dproc_list_safe:
  assumes t: "step_ok I s t" and c: "c = ClsBuf i" "bufs t i = Some b" and sz: "length buf \<le> DRECV_SIZE"
  shows "safeE {Overread} (step_ok I s) (dproc_list buf c t)"
proof -
  have ok: "buf_ok b" and d: "darr_ok (dirent t)" using t c by (auto simp: step_ok_def ftp_inv_def)
  show ?thesis
  proof (cases "buf = []")
    case True
    have "safeE {Overread} (step_ok I s) (bindE (parse_listing ent0 (rb_size b) (rb_buf b) (darr_clear (dirent t))) (\<lambda>d.
       let s = t\<lparr>dirent := d, modified := modified t OR FTP_MOD_DIR,
                 bufs := (bufs t)(i := None), dproc := None\<rparr>;
           s = s\<lparr>dirent := darr_qsort ftp_direntcmp (dirent s)\<rparr>
       in Inr (s\<lparr>busy := busy s - 1\<rparr>)))"
      by (rule safeE_bind [OF parse_listing_safe])
        (use t in \<open>auto simp: step_ok_def ftp_inv_def Let_def\<close>)
    with True c show ?thesis by (simp add: dproc_list_def deref_buf_def)
  next
    case False
    have upd: "step_ok I s (u\<lparr>bufs := (bufs u)(i \<mapsto> b')\<rparr>)" if "step_ok I s u" "bufs u i = Some b" "buf_ok b'" for u b'
      using that by (auto simp: step_ok_def ftp_inv_def)
    obtain ok1 u where m: "sys_malloc t = (ok1, u)" by (cases "sys_malloc t")
    then have u: "step_ok I s u" using t by (simp add: sys_call_pairs)
    have ub: "bufs u i = Some b" using m c by (auto simp: sys_malloc_def split: prod.splits)
    consider (fits) "int (rb_size b + length buf) \<le> rb_bufsz b"
      | (grows) "int (rb_size b + length buf) > rb_bufsz b" "rb_bufsz b < int max_block" "ok1"
      | (dropped) "int (rb_size b + length buf) > rb_bufsz b" "rb_bufsz b < int max_block" "\<not> ok1"
      | (full) "int (rb_size b + length buf) > rb_bufsz b" "int max_block \<le> rb_bufsz b" by linarith
    then show ?thesis
    proof cases
      case fits
      then obtain b' where "buf_ok b'" "dproc_list buf c t = Inr (t\<lparr>bufs := (bufs t)(i \<mapsto> b')\<rparr>)"
        using packet_fits [OF c(2) ok False fits] c(1) by auto
      then show ?thesis using upd [OF t c(2)] by simp
    next
      case grows
      then obtain b' where "buf_ok b'" "dproc_list buf c t = Inr (u\<lparr>bufs := (bufs t)(i \<mapsto> b')\<rparr>)"
        using packet_grows [OF c(2) ok False sz grows(1,2)] m c(1) by auto
      moreover have "bufs u = bufs t" using m by (auto simp: sys_malloc_def split: prod.splits)
      ultimately show ?thesis using upd [OF u ub] by simp
    next
      case dropped
      then show ?thesis using packet_dropped [OF c(2) ok False dropped(1)] m u c(1) by simp
    next
      case full
      then show ?thesis using packet_dropped [OF c(2) ok False full(1)] t c(1) by simp
    qed
  qed
qed

lemma dproc_xfer_safe: "step_ok I s t \<Longrightarrow> safe I s (dproc_xfer cb buf (ClsXfer i) t)"
proof -
  assume t: "step_ok I s t"
  have dn: "safe I s (bindE (cb f i u) (\<lambda>s. Inr (s\<lparr>busy := busy s - 1\<rparr>)))" if "step_ok I s u" for f u
    by (rule safeE_bind [OF cb_safe' [OF that]]) simp
  show ?thesis
    using t by (auto simp: dproc_xfer_def deref_xfer_def Let_def step_ok_app dom_absorb
        intro!: dn split: option.split)
qed

lemma run_dproc_safe:
  assumes t: "step_ok I s t" and c: "dproc t = Some f" and sz: "length buf \<le> DRECV_SIZE"
  shows "safe I s (run_dproc cb f buf (dproc_cls t) (t\<lparr>dat_rx := r\<rparr>))"
proof -
  have t': "step_ok I s (t\<lparr>dat_rx := r\<rparr>)" using t by simp
  show ?thesis
  proof (cases f)
    case Dproc_list
    then obtain i b where "dproc_cls t = ClsBuf i" "bufs t i = Some b"
      using t c by (auto simp: step_ok_def ftp_inv_def)
    then have "safeE {Overread} (step_ok I s) (dproc_list buf (dproc_cls t) (t\<lparr>dat_rx := r\<rparr>))"
      using dproc_list_safe [OF t' _ _ sz, of _ i b] by simp
    then have "safe I s (dproc_list buf (dproc_cls t) (t\<lparr>dat_rx := r\<rparr>))"
      by (rule safeE_mono) auto
    with Dproc_list show ?thesis by (simp add: run_dproc_def)
  next
    case Dproc_xfer
    then obtain i where "dproc_cls t = ClsXfer i"
      using t c by (auto simp: step_ok_def ftp_inv_def)
    with Dproc_xfer dproc_xfer_safe [OF t'] show ?thesis by (simp add: run_dproc_def)
  qed
qed

lemma data_loop_safe: "step_ok I s t \<Longrightarrow> safep I s (data_loop cb k t)"
proof (induction k arbitrary: t)
  case (Suc k)
  obtain a r where ar: "rx_take DRECV_SIZE (dat_rx t) = (a, r)" by (cases "rx_take DRECV_SIZE (dat_rx t)")
  have t': "step_ok I s (t\<lparr>dat_rx := r\<rparr>)" using Suc.prems by simp
  show ?case
  proof (cases a)
    case (Rx bs)
    have "safe I s (case dproc t of None \<Rightarrow> Inr (t\<lparr>dat_rx := r\<rparr>)
        | Some f \<Rightarrow> run_dproc cb f bs (dproc_cls t) (t\<lparr>dat_rx := r\<rparr>))"
      using Suc.prems t' rx_take_length [of DRECV_SIZE "dat_rx t" bs r] ar Rx
      by (auto simp: run_dproc_safe split: option.split)
    then have "safep I s (bindE (case dproc t of None \<Rightarrow> Inr (t\<lparr>dat_rx := r\<rparr>)
        | Some f \<Rightarrow> run_dproc cb f bs (dproc_cls t) (t\<lparr>dat_rx := r\<rparr>))
        (\<lambda>s. if bs = [] then Inr ((emit (OClose (data s)) s)\<lparr>data := -1\<rparr>, -1) else data_loop cb k s))"
      by (rule safeE_bind) (auto simp: Suc.IH)
    with ar Rx show ?thesis by simp
  qed (use ar t' Suc.IH in auto)
qed simp

lemma handle_data_safe: "step_ok I s t \<Longrightarrow> safep I s (handle_data cb t)"
  by (simp add: handle_data_def data_loop_safe)

lemma handle_control_safe: "good s \<Longrightarrow> step_ok I s t \<Longrightarrow> safep I s (handle_control h cb t)"
  unfolding handle_control_def
  by (rule safep_trans, assumption, rule control_loop_safe) (simp_all add: good_step)

lemma handle_step_safe:
  assumes s: "good s"
  shows "safe I s (handle_step cb h fd s)"
proof -
  have t: "step_ok I s s" using s by (rule good_refl)
  have ctlp: "safep I s (bindE (handle_control h cb s) (\<lambda>(s, r). Inr (s, r = -1)))"
    by (rule safeE_bind [OF handle_control_safe [OF s t]]) (auto simp: step_okp_def)
  have datp: "safep I s (bindE (handle_data cb s) (\<lambda>(s, _). Inr (s, False)))"
    by (rule safeE_bind [OF handle_data_safe [OF t]]) (auto simp: step_okp_def)
  have ev: "safep I s (if fd = ctl s then bindE (handle_control h cb s) (\<lambda>(s, r). Inr (s, r = -1))
            else if fd = data s then bindE (handle_data cb s) (\<lambda>(s, _). Inr (s, False))
            else if fd = lis s then Inr (handle_accept s, False)
            else Inr (s, False))"
    using ctlp datp handle_accept_ok [OF t] t by simp
  show ?thesis
    unfolding handle_step_def
    by (rule safeE_bind [OF ev]) (auto simp: step_okp_def exec_queued_safe [OF s])
qed

end

section \<open>The engine with a client\<close>

text \<open>
  A client is a callback that keeps the invariant. For every client the engine keeps it too, and
  \<open>ftp_handle\<close> returns: the nesting is bounded by the number of answers \<open>select\<close> still has.
\<close>

locale ftp_client =
  fixes I :: "'a \<Rightarrow> nat set \<Rightarrow> bool" and cb :: "'a callback"
  assumes cb_inv: "ftp_inv I s \<Longrightarrow> safe I s (cb f i s)"
begin

lemma handle_n_safe: "ftp_inv I s \<Longrightarrow> length (sel_in s) < n \<Longrightarrow> safe I s (ftp_handle_n n cb fd s)"
proof (induction n arbitrary: s fd)
  case (Suc n)
  have e: "ftp_env I (ftp_handle_n n cb) cb n"
    by (rule ftp_env.intro) (simp_all add: Suc.IH cb_inv)
  have "ftp_env.good I n s" using Suc.prems by (simp add: ftp_env.good_def [OF e])
  then show ?case using ftp_env.handle_step_safe [OF e] by simp
qed simp

lemma handle_safe: "ftp_inv I s \<Longrightarrow> safe I s (ftp_handle cb fd s)"
  unfolding ftp_handle_def by (rule handle_n_safe) simp_all

end

sublocale ftp_client \<subseteq> eng: ftp_env I "ftp_handle cb" cb n for n
  by unfold_locales (simp_all add: handle_safe cb_inv)

context ftp_client
begin

lemma queue_safe: "ftp_inv I s \<Longrightarrow> safep I s (ftp_queue (ftp_handle cb) op arg s)"
  by (rule eng.ftp_queue_safe [where n = "length (sel_in s)"]) (simp_all add: eng.good_def)

lemma queue_transfer_safe: "ftp_inv I s \<Longrightarrow> safep I s (ftp_queue_transfer (ftp_handle cb) i s)"
  by (rule eng.ftp_queue_transfer_safe [where n = "length (sel_in s)"]) (simp_all add: eng.good_def)

lemma waitresp_returns: "ftp_inv I s \<Longrightarrow> 0 < t \<Longrightarrow> safep I s (ftp_waitresp (ftp_handle cb) t s)"
  by (rule eng.waitresp_safe [where n = "length (sel_in s)"]) (simp_all add: eng.good_def)

end

end
