(* ===== verification/Screen.thy ===== *)
theory Screen
  imports Prelude "HOL-Library.Word"
begin

unbundle bit_operations_syntax

text \<open>
  What the user interface sees of the terminal: the key codes of \<open>src/input.h\<close> and the drawing
  calls of \<open>src/tgfx.h\<close>. A function that draws returns the list of the calls it makes; what a
  call does to a screen depends on the backend.
\<close>

section \<open>Keys\<close>

definition KB_DEL :: int where [simp]: "KB_DEL = 128"
definition KB_INS :: int where [simp]: "KB_INS = 129"
definition KB_UP :: int where [simp]: "KB_UP = 130"
definition KB_DOWN :: int where [simp]: "KB_DOWN = 131"
definition KB_LEFT :: int where [simp]: "KB_LEFT = 132"
definition KB_RIGHT :: int where [simp]: "KB_RIGHT = 133"
definition KB_HOME :: int where [simp]: "KB_HOME = 134"
definition KB_END :: int where [simp]: "KB_END = 135"
definition KB_PGUP :: int where [simp]: "KB_PGUP = 136"
definition KB_PGDN :: int where [simp]: "KB_PGDN = 137"
definition KB_F1 :: int where [simp]: "KB_F1 = 138"
definition KB_F3 :: int where [simp]: "KB_F3 = 140"
definition KB_F5 :: int where [simp]: "KB_F5 = 142"
definition KB_F8 :: int where [simp]: "KB_F8 = 145"
definition KB_F10 :: int where [simp]: "KB_F10 = 147"
definition KB_F12 :: int where [simp]: "KB_F12 = 149"

section \<open>Drawing\<close>

datatype color = Black | Blue | Green | Cyan | Red | Magenta | Yellow | White

datatype gchar = LArrow | RArrow

text \<open>\<open>TgArrow x y g s\<close> is \<open>tg_text (x, y, "%c%s", tg_gchar (g), s)\<close>.\<close>

datatype draw_cmd =
    TgFg color
  | TgBg color
  | TgRect "string option" int int int int bool
  | TgPutchar int int char
  | TgText int int string
  | TgArrow int int gchar string
  | TgRedraw

end
