(* ===== verification/Viewer.thy ===== *)
theory Viewer
  imports Screen Darray
begin

unbundle bit_operations_syntax

text \<open>
  The file viewer of \<open>src/viewer.c\<close>. The record \<open>viewer\<close> holds the static variables of the file.
  A \<open>struct span\<close> is the pair of the offset of its start in the data and its length. \<open>v_data\<close> is the
  memory \<open>data\<close> points to: a block from \<open>malloc\<close> or a dynamic array, which have to be freed by
  different functions.
\<close>

section \<open>State and operations\<close>

definition UI_TEXT :: "32 word" where
  "UI_TEXT = 1"

definition UI_FRAME :: "32 word" where
  "UI_FRAME = 2"

definition UI_BUTTONS :: "32 word" where
  "UI_BUTTONS = 4"

datatype vmem = Malloced string | DarrMem "char darr"

datatype free_fn = Darr_free

record viewer =
  v_title :: "string option"
  v_lines :: "(nat \<times> nat) darr option"
  v_data :: "vmem option"
  v_datasz :: int
  v_dirty :: "32 word"
  v_hscroll :: int
  v_vscroll :: int
  v_free :: "free_fn option"

definition num_vislines :: int where
  "num_vislines = 22"

definition num_viscol :: int where
  "num_viscol = 78"

definition viewer0 :: viewer where
  "viewer0 = \<lparr>v_title = None, v_lines = None, v_data = None, v_datasz = 0, v_dirty = 0,
     v_hscroll = 0, v_vscroll = 0, v_free = None\<rparr>"

fun vmem_bytes :: "vmem \<Rightarrow> string" where
  "vmem_bytes (Malloced s) = s"
| "vmem_bytes (DarrMem d) = darr_list d"

text \<open>
  The loop of \<open>view_memopen\<close>: the bytes from \<open>ptr\<close> on, the bytes it still has to look at, the
  offset of \<open>ptr\<close> and of the start of the line.
\<close>

fun split_spans :: "string \<Rightarrow> nat \<Rightarrow> nat \<Rightarrow> nat \<Rightarrow> (nat \<times> nat) darr \<Rightarrow> (nat \<times> nat) darr res" where
  "split_spans bytes 0 ptr start ls = Inr ls"
| "split_spans bytes (Suc n) ptr start ls =
     (case bytes of
        [] \<Rightarrow> Inl Overread
      | c # cs \<Rightarrow>
          if c = CR \<or> c = LF
          then split_spans cs n (Suc ptr) (Suc ptr)
                 (if start < ptr then darr_push ls (start, ptr - start) else ls)
          else split_spans cs n (Suc ptr) start ls)"

text \<open>A negative size never counts down to zero.\<close>

definition view_memopen ::
  "string \<Rightarrow> vmem option \<Rightarrow> int \<Rightarrow> free_fn option \<Rightarrow> viewer \<Rightarrow> viewer res" where
  "view_memopen name start sz freefunc v =
     (let v = v\<lparr>v_data := start, v_datasz := sz, v_title := Some name\<rparr>
      in bindE (if sz < 0 then Inl Overread
                else if sz = 0 then Inr (darr_alloc 0 16)
                else case start of
                       None \<Rightarrow> Inl NullDeref
                     | Some m \<Rightarrow> split_spans (vmem_bytes m) (nat sz) 0 0 (darr_alloc 0 16))
           (\<lambda>ls. Inr (v\<lparr>v_lines := Some ls, v_free := freefunc, v_dirty := 0xffff\<rparr>)))"

text \<open>Freeing the data with the function that does not fit its allocation is a \<open>BadCast\<close>.\<close>

definition view_close :: "viewer \<Rightarrow> viewer res" where
  "view_close v =
     (let v = v\<lparr>v_lines := None\<rparr>
      in case (v_free v, v_data v) of
           (Some Darr_free, Some (Malloced _)) \<Rightarrow> Inl BadCast
         | (None, Some (DarrMem _)) \<Rightarrow> Inl BadCast
         | _ \<Rightarrow> Inr (v\<lparr>v_data := None\<rparr>))"

definition view_isopen :: "viewer \<Rightarrow> bool" where
  "view_isopen v \<longleftrightarrow> v_data v \<noteq> None"

subsection \<open>Drawing\<close>

text \<open>One line of text on row \<open>row\<close>, from column \<open>x\<close> of the line on.\<close>

function draw_row :: "int \<Rightarrow> int \<Rightarrow> int \<Rightarrow> string \<Rightarrow> draw_cmd list" where
  "draw_row hs row x bytes =
     (if x < num_viscol
      then
        case bytes of
          [] \<Rightarrow>
            (let x' = x - hs;
                 x' = (if x' < 0 then 0 else x')
             in [TgRect None (x' + 1) row (num_viscol - x') 1 False])
        | c # cs \<Rightarrow>
            if c = TAB
            then (let ts = (x + 4) AND 0xfffc
                  in TgRect None (x + 1) row (ts - x) 1 False # draw_row hs row ts cs)
            else
              (if x + 1 - hs > 0 then [TgPutchar (x + 1 - hs) row c] else [])
                @ draw_row hs row (x + 1) cs
      else [])"
  by pat_completeness auto
termination
  by (relation "measure (\<lambda>(hs, row, x, bytes). length bytes)") auto

declare draw_row.simps [simp del]

text \<open>The rows \<open>i\<close>, \<open>i + 1\<close>, ... of the window; \<open>n\<close> of them are left.\<close>

fun draw_rows :: "viewer \<Rightarrow> (nat \<times> nat) darr \<Rightarrow> string \<Rightarrow> nat \<Rightarrow> nat \<Rightarrow> draw_cmd list res" where
  "draw_rows v ls bytes i 0 = Inr []"
| "draw_rows v ls bytes i (Suc n) =
     bindE (darr_get ls (v_vscroll v + int i)) (\<lambda>(start, len).
     bindE (draw_rows v ls bytes (Suc i) n) (\<lambda>rest.
       Inr (draw_row (v_hscroll v) (int i + 1) 0 (take len (drop start bytes)) @ rest)))"

fun draw_buttons :: "nat \<Rightarrow> int \<Rightarrow> string list \<Rightarrow> draw_cmd list" where
  "draw_buttons i x [] = []"
| "draw_buttons i x (b # bs) =
     [TgFg White, TgBg Black,
      TgText x 23 ((if i + 1 < 10 then '' '' else []) @ dec_str (i + 1)),
      TgFg Black, TgBg Cyan, TgText (x + 2) 23 b] @ draw_buttons (Suc i) (x + 8) bs"

definition view_bntext :: "string list" where
  "view_bntext = [''Help  '', ''      '', ''      '', ''Hex   '', ''      '',
     ''      '', ''Search'', ''      '', ''      '', ''Quit  '']"

definition view_update :: "viewer \<Rightarrow> (viewer \<times> draw_cmd list) res" where
  "view_update v =
     (if v_dirty v = 0 then Inr (v, [])
      else
        let frame = (if v_dirty v AND UI_FRAME \<noteq> 0
                     then [TgFg White, TgBg Blue, TgRect (v_title v) 0 0 80 23 True] else [])
        in bindE (if v_dirty v AND UI_TEXT \<noteq> 0
                  then (case v_lines v of
                          None \<Rightarrow> Inl UseAfterFree
                        | Some ls \<Rightarrow>
                            bindE (draw_rows v ls
                                     (case v_data v of None \<Rightarrow> [] | Some m \<Rightarrow> vmem_bytes m) 0
                                     (min (darr_size ls) (nat (num_vislines - 1))))
                              (\<lambda>t. Inr ([TgFg White, TgBg Blue] @ t)))
                  else Inr []) (\<lambda>text.
             let buttons = (if v_dirty v AND UI_BUTTONS \<noteq> 0
                            then draw_buttons 0 0 view_bntext else [])
             in Inr (v\<lparr>v_dirty := 0\<rparr>, frame @ text @ buttons @ [TgRedraw])))"

subsection \<open>Input\<close>

definition view_end :: "(nat \<times> nat) darr \<Rightarrow> viewer \<Rightarrow> viewer" where
  "view_end ls v =
     (let y = int (darr_size ls) - num_vislines + 1
      in v\<lparr>v_vscroll := if y < 0 then 0 else y, v_hscroll := 0\<rparr>)"

definition touch_text :: "viewer \<Rightarrow> viewer" where
  "touch_text v = v\<lparr>v_dirty := v_dirty v OR UI_TEXT\<rparr>"

text \<open>The keys that scroll, with the lines at hand; \<open>None\<close> is the \<open>default\<close> label.\<close>

definition view_scroll :: "int \<Rightarrow> (nat \<times> nat) darr \<Rightarrow> viewer \<Rightarrow> viewer option" where
  "view_scroll key ls v =
     (if key = int (ccode CHR 0x60) then Some (v\<lparr>v_dirty := 0xffff\<rparr>)
      else if key = KB_HOME then Some (v\<lparr>v_vscroll := 0, v_hscroll := 0\<rparr>)
      else if key = KB_END then Some (view_end ls v)
      else if key = KB_PGUP
      then (let y = v_vscroll v - num_vislines
            in Some (v\<lparr>v_vscroll := if y < 0 then 0 else y, v_hscroll := 0\<rparr>))
      else if key = KB_PGDN
      then (let v = v\<lparr>v_vscroll := v_vscroll v + num_vislines\<rparr>;
                v = (if v_vscroll v \<ge> int (darr_size ls) then touch_text (view_end ls v) else v)
            in Some (v\<lparr>v_hscroll := 0\<rparr>))
      else if key = KB_UP
      then Some (if v_vscroll v > 0 then v\<lparr>v_vscroll := v_vscroll v - 1\<rparr> else v)
      else if key = KB_DOWN
      then Some (if v_vscroll v < int (darr_size ls) - 1 then v\<lparr>v_vscroll := v_vscroll v + 1\<rparr> else v)
      else if key = KB_LEFT
      then Some (if v_hscroll v > 0 then v\<lparr>v_hscroll := v_hscroll v - 1\<rparr> else v)
      else if key = KB_RIGHT then Some (v\<lparr>v_hscroll := v_hscroll v + 1\<rparr>)
      else None)"

definition view_input :: "int \<Rightarrow> viewer \<Rightarrow> viewer res" where
  "view_input key v =
     (if key = 27 \<or> key = KB_F10 then bindE (view_close v) (\<lambda>v. Inr (touch_text v))
      else
        case v_lines v of
          None \<Rightarrow> if key \<in> {KB_END, KB_PGDN, KB_DOWN} then Inl UseAfterFree
                  else (case view_scroll key (darr_alloc 0 16) v of
                          None \<Rightarrow> Inr v | Some v' \<Rightarrow> Inr (touch_text v'))
        | Some ls \<Rightarrow>
            (case view_scroll key ls v of None \<Rightarrow> Inr v | Some v' \<Rightarrow> Inr (touch_text v')))"

section \<open>The lines\<close>

abbreviation eol :: "char \<Rightarrow> bool" where
  "eol c \<equiv> c = CR \<or> c = LF"

text \<open>The pieces between line ends; what follows the last line end is the last piece.\<close>

fun pieces :: "string \<Rightarrow> string \<Rightarrow> string list" where
  "pieces acc [] = [acc]"
| "pieces acc (c # cs) = (if eol c then acc # pieces [] cs else pieces (acc @ [c]) cs)"

definition text_lines :: "string \<Rightarrow> string list" where
  "text_lines bs = filter (\<lambda>l. l \<noteq> []) (butlast (pieces [] bs))"

definition span_text :: "string \<Rightarrow> nat \<times> nat \<Rightarrow> string" where
  "span_text bs s = take (snd s) (drop (fst s) bs)"

lemma pieces_nonempty: "pieces acc bs \<noteq> []"
  by (induction acc bs rule: pieces.induct) auto

text \<open>\<open>split_spans\<close> pushes one span for each line that is not empty, and stays within the bytes.\<close>

definition spans_ok :: "string \<Rightarrow> (nat \<times> nat) darr \<Rightarrow> string list \<Rightarrow> bool" where
  "spans_ok bs ls ts \<longleftrightarrow> darr_ok ls \<and> map (span_text bs) (darr_list ls) = ts
     \<and> (\<forall>s \<in> set (darr_list ls). fst s + snd s < length bs)"

lemma split_spans_ok:
  assumes "bs = p @ take n r @ q" "start \<le> length p" "n \<le> length r" "darr_ok ls"
    and "spans_ok bs ls ts"
  shows "\<exists>ls'. split_spans (r @ u) n (length p) start ls = Inr ls'
    \<and> spans_ok bs ls' (ts @ filter (\<lambda>l. l \<noteq> []) (butlast (pieces (drop start p) (take n r))))"
  using assms
proof (induction n arbitrary: r p start ls ts)
  case (Suc n)
  then obtain c r' where r: "r = c # r'" by (cases r) auto
  have bs: "bs = (p @ [c]) @ take n r' @ q" using Suc.prems(1) r by simp
  have n: "n \<le> length r'" using Suc.prems(3) r by simp
  show ?case
  proof (cases "eol c")
    case False
    then have "\<exists>ls'. split_spans (r' @ u) n (length (p @ [c])) start ls = Inr ls'
        \<and> spans_ok bs ls' (ts @ filter (\<lambda>l. l \<noteq> []) (butlast (pieces (drop start (p @ [c])) (take n r'))))"
      using Suc.prems by (intro Suc.IH [OF bs _ n]) auto
    with False Suc.prems(2) r show ?thesis by simp
  next
    case True
    let ?ls = "if start < length p then darr_push ls (start, length p - start) else ls"
    let ?ts = "if start < length p then ts @ [drop start p] else ts"
    have ok: "darr_ok ?ls" using Suc.prems(4) by (simp add: da.push_inv)
    have "spans_ok bs ?ls ?ts"
      using Suc.prems(2,4,5) Suc.prems(1) r
      by (auto simp: spans_ok_def da.push_inv da.push_list span_text_def)
    then have "\<exists>ls'. split_spans (r' @ u) n (length (p @ [c])) (length (p @ [c])) ?ls = Inr ls'
        \<and> spans_ok bs ls' (?ts @ filter (\<lambda>l. l \<noteq> []) (butlast (pieces (drop (length (p @ [c])) (p @ [c])) (take n r'))))"
      by (intro Suc.IH [OF bs _ n ok]) auto
    with True r pieces_nonempty [of "[]" "take n r'"] Suc.prems(2) show ?thesis by auto
  qed
qed simp

lemma view_memopen_lines:
  assumes "0 \<le> sz" "nat sz \<le> length (vmem_bytes m)"
  shows "\<exists>v' ls. view_memopen name (Some m) sz f v = Inr v' \<and> v_lines v' = Some ls
    \<and> v_data v' = Some m \<and> v_free v' = f \<and> v_title v' = Some name
    \<and> spans_ok (take (nat sz) (vmem_bytes m)) ls (text_lines (take (nat sz) (vmem_bytes m)))"
proof -
  let ?bs = "take (nat sz) (vmem_bytes m)"
  have z: "spans_ok ?bs (darr_alloc 0 16) []" by (simp add: spans_ok_def darr_list_alloc)
  show ?thesis
  proof (cases "sz = 0")
    case True
    then show ?thesis using z by (auto simp: view_memopen_def text_lines_def Let_def)
  next
    case False
    have "\<exists>ls. split_spans (vmem_bytes m) (nat sz) 0 0 (darr_alloc 0 16) = Inr ls
        \<and> spans_ok ?bs ls (filter (\<lambda>l. l \<noteq> []) (butlast (pieces [] ?bs)))"
      using assms(2) z split_spans_ok [of ?bs "[]" "nat sz" "vmem_bytes m" "[]" 0 "darr_alloc 0 16" "[]" "[]"]
      by simp
    with assms(1) False show ?thesis by (auto simp: view_memopen_def text_lines_def Let_def)
  qed
qed

section \<open>Scrolling\<close>

definition scroll_ok :: "viewer \<Rightarrow> bool" where
  "scroll_ok v \<longleftrightarrow> 0 \<le> v_hscroll v \<and> 0 \<le> v_vscroll v
     \<and> (\<forall>ls. v_lines v = Some ls \<longrightarrow> v_vscroll v \<le> max 0 (int (darr_size ls) - 1))"

lemma view_scroll_ok:
  "view_scroll key ls v = Some v' \<Longrightarrow> v_lines v = Some ls \<Longrightarrow> scroll_ok v \<Longrightarrow> scroll_ok v'"
  by (auto simp: view_scroll_def view_end_def touch_text_def scroll_ok_def num_vislines_def Let_def
      split: if_splits)

lemma view_input_scroll:
  assumes "scroll_ok v" and "view_isopen v" and "v_lines v \<noteq> None"
  shows "safeE {BadCast} scroll_ok (view_input key v)"
proof -
  obtain ls where ls: "v_lines v = Some ls" using assms(3) by auto
  have close: "safeE {BadCast} scroll_ok (bindE (view_close v) (\<lambda>v. Inr (touch_text v)))"
    using assms(1) by (auto simp: view_close_def touch_text_def scroll_ok_def Let_def
        split: option.splits vmem.splits free_fn.splits)
  have "scroll_ok (touch_text v')" if "view_scroll key ls v = Some v'" for v'
    using view_scroll_ok [OF that ls assms(1)] by (simp add: touch_text_def scroll_ok_def)
  with close ls assms(1) show ?thesis by (auto simp: view_input_def split: option.split)
qed

text \<open>The rows that are drawn exist if the window ends before the lines do.\<close>

lemma draw_rows_ok:
  assumes "darr_ok ls" "0 \<le> v_vscroll v" "v_vscroll v + int (i + n) \<le> int (darr_size ls)"
  shows "draw_rows v ls bytes i n = Inr (concat (map (\<lambda>k. draw_row (v_hscroll v) (int k + 1) 0
    (span_text bytes (darr_list ls ! nat (v_vscroll v + int k)))) [i..<i + n]))"
  using assms(3)
proof (induction n arbitrary: i)
  case (Suc n)
  have "darr_get ls (v_vscroll v + int i) = Inr (darr_list ls ! nat (v_vscroll v + int i))"
    using Suc.prems assms(1,2) by (intro darr_get_list) (simp_all add: darr_size_list)
  moreover have "[i..<i + Suc n] = i # [Suc i..<Suc i + n]" by (simp add: upt_rec)
  ultimately show ?case
    using Suc.IH [of "Suc i"] Suc.prems by (simp add: case_prod_beta span_text_def)
qed simp

lemma tab_stop:
  assumes "0 \<le> x" "x < 78"
  shows "x < (x + 4) AND (0xfffc :: int)"
proof -
  have "\<forall>n \<in> set [0..<78]. int n < (int n + 4) AND 0xfffc" by code_simp
  then have "int (nat x) < (int (nat x) + 4) AND 0xfffc" using assms by (metis atLeastLessThan_upt atLeastLessThan_iff nat_less_iff zero_le nat_eq_iff2 zless_nat_eq_int_zless numeral_One of_nat_numeral)
  then show ?thesis using assms by simp
qed

text \<open>A row shows at most the first 78 bytes of its line, wherever the window is.\<close>

lemma draw_row_cut:
  "0 \<le> x \<Longrightarrow> 78 \<le> x + int (length a) \<Longrightarrow> draw_row hs row x (a @ b) = draw_row hs row x (a @ b')"
proof (induction a arbitrary: x)
  case (Cons c a)
  show ?case
  proof (cases "x < 78")
    case True
    have "x < (x + 4) AND 0xfffc" using Cons.prems True by (intro tab_stop)
    then have "draw_row hs row ((x + 4) AND 0xfffc) (a @ b) = draw_row hs row ((x + 4) AND 0xfffc) (a @ b')"
      using Cons.prems by (intro Cons.IH) auto
    moreover have "draw_row hs row (x + 1) (a @ b) = draw_row hs row (x + 1) (a @ b')"
      using Cons.prems by (intro Cons.IH) auto
    ultimately show ?thesis
      by (simp add: draw_row.simps [of _ _ x] Let_def)
  qed (simp add: draw_row.simps num_viscol_def)
qed (simp add: draw_row.simps num_viscol_def)

section \<open>The viewer in use\<close>

text \<open>An open viewer has its lines, and its data will be freed by the function that fits.\<close>

definition viewer_ok :: "viewer \<Rightarrow> bool" where
  "viewer_ok v \<longleftrightarrow> 0 \<le> v_hscroll v \<and> 0 \<le> v_vscroll v
     \<and> (case v_data v of
          None \<Rightarrow> True
        | Some (Malloced _) \<Rightarrow> v_free v = None \<and> v_lines v \<noteq> None
        | Some (DarrMem _) \<Rightarrow> v_free v = Some Darr_free \<and> v_lines v \<noteq> None)"

lemma viewer0_ok [simp]: "viewer_ok viewer0"
  by (simp add: viewer_ok_def viewer0_def)

lemma split_spans_fault: "safeE {Overread} (\<lambda>_. True) (split_spans bs n p st ls)"
  by (induction n arbitrary: bs p st ls) (simp_all split: list.split)

lemma memopen_safe:
  assumes "viewer_ok v" and "\<And>d. m = Some (DarrMem d) \<Longrightarrow> f = Some Darr_free"
    and "\<And>s. m = Some (Malloced s) \<Longrightarrow> f = None"
  shows "safeE {Overread, NullDeref} viewer_ok (view_memopen nm m sz f v)"
proof -
  have ss: "safeE {Overread, NullDeref} (\<lambda>_. True) (split_spans bs n 0 0 ls)" for bs n ls
    using split_spans_fault by (rule safeE_mono) auto
  show ?thesis
    unfolding view_memopen_def Let_def
    by (rule safeE_bind [where Q = "\<lambda>_. True"])
      (use ss assms in \<open>auto simp: viewer_ok_def split: option.split vmem.split\<close>)
qed

lemma view_scroll_keeps: "view_scroll key ls v = Some v' \<Longrightarrow> v_data v' = v_data v \<and> v_free v' = v_free v \<and> v_lines v' = v_lines v"
  by (auto simp: view_scroll_def view_end_def touch_text_def Let_def split: if_splits)

lemma view_scroll_nonneg:
  "view_scroll key ls v = Some v' \<Longrightarrow> 0 \<le> v_hscroll v \<Longrightarrow> 0 \<le> v_vscroll v \<Longrightarrow> 0 \<le> v_hscroll v' \<and> 0 \<le> v_vscroll v'"
  by (auto simp: view_scroll_def view_end_def touch_text_def num_vislines_def Let_def split: if_splits)

lemma view_scroll_viewer_ok: "view_scroll key ls v = Some v' \<Longrightarrow> viewer_ok v \<Longrightarrow> viewer_ok v'"
  using view_scroll_keeps [of key ls v v'] view_scroll_nonneg [of key ls v v']
  by (auto simp: viewer_ok_def split: option.splits vmem.splits)

lemma touch_text_ok [simp]: "viewer_ok (touch_text v) \<longleftrightarrow> viewer_ok v"
  by (simp add: viewer_ok_def touch_text_def split: option.split vmem.split)

lemma view_close_safe: "viewer_ok v \<Longrightarrow> \<exists>v'. view_close v = Inr v' \<and> viewer_ok v' \<and> \<not> view_isopen v'"
  by (auto simp: viewer_ok_def view_close_def view_isopen_def Let_def split: option.splits vmem.splits free_fn.splits)

lemma viewer_ok_lines:
  assumes "viewer_ok v" and "view_isopen v"
  obtains ls where "v_lines v = Some ls"
proof -
  obtain m where "v_data v = Some m" using assms(2) by (auto simp: view_isopen_def)
  then show ?thesis using that assms(1) by (cases m) (auto simp: viewer_ok_def)
qed

lemma view_input_safe:
  assumes "viewer_ok v" and "view_isopen v"
  shows "\<exists>v'. view_input key v = Inr v' \<and> viewer_ok v'"
proof -
  obtain ls where ls: "v_lines v = Some ls"
    using assms by (rule viewer_ok_lines)
  from view_close_safe [OF assms(1)] obtain w where "view_close v = Inr w" "viewer_ok w" by auto
  then show ?thesis
    using ls assms(1) view_scroll_viewer_ok [OF _ assms(1), of key ls]
    by (auto simp: view_input_def split: option.split)
qed

lemma draw_rows_fault: "safeE {Overread} (\<lambda>_. True) (draw_rows v ls bytes i n)"
proof (induction n arbitrary: i)
  case (Suc n)
  have "safeE {Overread} (\<lambda>_. True) (darr_get ls k)" for k
    by (simp add: darr_get_def split: option.split)
  with Suc show ?case by (auto intro!: safeE_bind [where Q = "\<lambda>_. True"])
qed simp

lemma view_update_safe:
  assumes "viewer_ok v" and "view_isopen v"
  shows "safeE {Overread} (\<lambda>(v', d). viewer_ok v') (view_update v)"
proof -
  obtain ls where "v_lines v = Some ls"
    using assms by (rule viewer_ok_lines)
  moreover have "viewer_ok (v\<lparr>v_dirty := 0\<rparr>)"
    using assms(1) by (auto simp: viewer_ok_def split: option.split vmem.split)
  ultimately show ?thesis
    using assms(1) by (auto simp: view_update_def Let_def draw_rows_fault
        intro!: safeE_bind [where Q = "\<lambda>_. True"])
qed

end
