(* ===== verification/Tui.thy ===== *)
theory Tui
  imports Screen
begin

text \<open>
  The widgets of \<open>src/tui.c\<close> and \<open>src/tuipriv.h\<close>. A widget is a record of its fields; its nine
  pointers \<open>cbfunc[3]\<close>, \<open>cbcls[3]\<close>, \<open>par\<close>, \<open>child\<close>, \<open>next\<close> lie next to each other in the structure and
  are kept as one list, because \<open>tui_set_callback\<close> is called with the indices \<open>TUI_DRAW\<close> and \<open>TUI_FREE\<close>,
  which lie outside \<open>cbfunc\<close>.

  \<open>w_calls\<close> records the callbacks made, as pairs of the function and its argument. Widgets that
  point to each other live in a store from addresses to widgets.
\<close>

section \<open>State\<close>

datatype ptr = PNull | PFree_list | PDraw_list | PUser nat | PWidget nat

datatype wtype = TUI_UNKNOWN | TUI_WINDOW | TUI_BUTTON | TUI_LIST

record widget =
  w_type :: wtype
  w_title :: "string option"
  w_x :: int
  w_y :: int
  w_width :: int
  w_height :: int
  w_focus :: bool
  w_dirty :: bool
  w_slots :: "ptr list"
  w_calls :: "(ptr \<times> ptr) list"

type_synonym 'a wstore = "nat \<Rightarrow> 'a widget_scheme option"

definition TUI_ONCLICK :: nat where [simp]: "TUI_ONCLICK = 0"
definition TUI_ONMODIFY :: nat where [simp]: "TUI_ONMODIFY = 1"
definition TUI_ONFOCUS :: nat where [simp]: "TUI_ONFOCUS = 2"
definition TUI_NUM_CALLBACKS :: nat where [simp]: "TUI_NUM_CALLBACKS = 3"
definition TUI_DRAW :: nat where [simp]: "TUI_DRAW = 3"
definition TUI_FREE :: nat where [simp]: "TUI_FREE = 4"

text \<open>The indices of \<open>par\<close>, \<open>child\<close> and \<open>next\<close> among the pointers.\<close>

definition PAR :: nat where [simp]: "PAR = 6"
definition CHILD :: nat where [simp]: "CHILD = 7"
definition NEXT :: nat where [simp]: "NEXT = 8"

definition no_slots :: "ptr list" where
  "no_slots = replicate 9 PNull"

section \<open>Operations on one widget\<close>

definition tui_widget :: "wtype \<Rightarrow> widget" where
  "tui_widget type =
     \<lparr>w_type = type, w_title = None, w_x = 0, w_y = 0, w_width = 0, w_height = 0, w_focus = False,
      w_dirty = False, w_slots = no_slots, w_calls = []\<rparr>"

definition tui_set_callback :: "nat \<Rightarrow> ptr \<Rightarrow> ptr \<Rightarrow> 'a widget_scheme \<Rightarrow> 'a widget_scheme" where
  "tui_set_callback type func cls w =
     w\<lparr>w_slots := (w_slots w)[type := func, TUI_NUM_CALLBACKS + type := cls]\<rparr>"

definition tui_call_callback :: "nat \<Rightarrow> 'a widget_scheme \<Rightarrow> 'a widget_scheme" where
  "tui_call_callback type w =
     (if w_slots w ! type \<noteq> PNull
      then w\<lparr>w_calls := w_calls w @ [(w_slots w ! type, w_slots w ! (TUI_NUM_CALLBACKS + type))]\<rparr>
      else w)"

definition tui_window :: "string \<Rightarrow> int \<Rightarrow> int \<Rightarrow> int \<Rightarrow> int \<Rightarrow> widget" where
  "tui_window title x y width height =
     (tui_widget TUI_WINDOW)\<lparr>w_title := Some title, w_x := x, w_y := y, w_width := width,
        w_height := height\<rparr>"

definition tui_button :: "string \<Rightarrow> int \<Rightarrow> int \<Rightarrow> ptr \<Rightarrow> ptr \<Rightarrow> widget" where
  "tui_button title x y cbfunc cbdata =
     (let w = (tui_widget TUI_BUTTON)\<lparr>w_title := Some title, w_x := x, w_y := y,
                w_width := int (length title) + 2, w_height := 1\<rparr>
      in if cbfunc \<noteq> PNull then tui_set_callback TUI_ONCLICK cbfunc cbdata w else w)"

definition tui_invalidate :: "'a widget_scheme \<Rightarrow> 'a widget_scheme" where
  "tui_invalidate w = w\<lparr>w_dirty := True\<rparr>"

definition tui_isdirty :: "'a widget_scheme \<Rightarrow> bool" where
  "tui_isdirty w = w_dirty w"

definition tui_focus :: "bool \<Rightarrow> 'a widget_scheme \<Rightarrow> 'a widget_scheme" where
  "tui_focus focus w =
     (if w_focus w = focus then w
      else tui_call_callback TUI_ONFOCUS (w\<lparr>w_focus := focus, w_dirty := True\<rparr>))"

definition tui_set_title :: "string \<Rightarrow> 'a widget_scheme \<Rightarrow> 'a widget_scheme" where
  "tui_set_title s w = w\<lparr>w_title := Some s\<rparr>"

definition tui_get_title :: "'a widget_scheme \<Rightarrow> string option" where
  "tui_get_title w = w_title w"

section \<open>The widget tree\<close>

definition w_deref :: "'a wstore \<Rightarrow> nat \<Rightarrow> 'a widget_scheme res" where
  "w_deref m i = (case m i of None \<Rightarrow> Inl UseAfterFree | Some w \<Rightarrow> Inr w)"

text \<open>A pointer field that has to be null or point to a widget.\<close>

definition w_link :: "nat \<Rightarrow> 'a widget_scheme \<Rightarrow> nat option res" where
  "w_link k w =
     (case w_slots w ! k of PNull \<Rightarrow> Inr None | PWidget i \<Rightarrow> Inr (Some i) | _ \<Rightarrow> Inl BadCast)"

definition get_link :: "'a wstore \<Rightarrow> nat \<Rightarrow> nat \<Rightarrow> nat option res" where
  "get_link m i k = bindE (w_deref m i) (w_link k)"

definition link_ptr :: "nat option \<Rightarrow> ptr" where
  "link_ptr p = (case p of None \<Rightarrow> PNull | Some i \<Rightarrow> PWidget i)"

definition set_link :: "nat \<Rightarrow> nat \<Rightarrow> nat option \<Rightarrow> 'a wstore \<Rightarrow> 'a wstore res" where
  "set_link i k p m =
     bindE (w_deref m i) (\<lambda>w. Inr (m(i \<mapsto> w\<lparr>w_slots := (w_slots w)[k := link_ptr p]\<rparr>)))"

definition tui_parent :: "'a wstore \<Rightarrow> nat \<Rightarrow> nat option res" where
  "tui_parent m w = get_link m w PAR"

definition tui_add_widget :: "nat \<Rightarrow> nat \<Rightarrow> 'a wstore \<Rightarrow> 'a wstore res" where
  "tui_add_widget par w m =
     bindE (get_link m w PAR) (\<lambda>p.
     if p = Some par then Inr m
     else
       bindE (get_link m par CHILD) (\<lambda>c.
       bindE (set_link w NEXT c m) (\<lambda>m.
       bindE (set_link par CHILD (Some w) m) (set_link w PAR (Some par)))))"

text \<open>
  The loop of \<open>tui_remove_widget\<close>. \<open>None\<close> for \<open>iter\<close> is the widget \<open>dummy\<close>, whose \<open>next\<close> is \<open>first\<close>; the
  result is what \<open>dummy.next\<close> is at the end.
\<close>

fun unlink_loop ::
  "nat \<Rightarrow> nat \<Rightarrow> nat option \<Rightarrow> nat option \<Rightarrow> 'a wstore \<Rightarrow> ('a wstore \<times> nat option) res" where
  "unlink_loop 0 w iter first m = Inl NoReturn"
| "unlink_loop (Suc n) w iter first m =
     bindE (case iter of None \<Rightarrow> Inr first | Some i \<Rightarrow> get_link m i NEXT) (\<lambda>nx.
     case nx of
       None \<Rightarrow> Inr (m, first)
     | Some j \<Rightarrow>
         if j = w
         then bindE (get_link m w NEXT) (\<lambda>p.
              case iter of
                None \<Rightarrow> Inr (m, p)
              | Some i \<Rightarrow> bindE (set_link i NEXT p m) (\<lambda>m. Inr (m, first)))
         else unlink_loop n w (Some j) first m)"

definition tui_remove_widget :: "nat \<Rightarrow> nat \<Rightarrow> nat \<Rightarrow> 'a wstore \<Rightarrow> 'a wstore res" where
  "tui_remove_widget fuel par w m =
     bindE (get_link m w PAR) (\<lambda>p.
     if p \<noteq> Some par then Inr m
     else
       bindE (get_link m par CHILD) (\<lambda>first.
       bindE (unlink_loop fuel w None first m) (\<lambda>(m, first).
       bindE (set_link par CHILD first m) (\<lambda>m.
       bindE (set_link w NEXT None m) (set_link w PAR None)))))"

text \<open>Between the coordinates of a widget and of the screen: up the parents, \<open>fuel\<close> of them at most.\<close>

fun tui_wtoscr :: "nat \<Rightarrow> 'a wstore \<Rightarrow> nat option \<Rightarrow> int \<times> int \<Rightarrow> (int \<times> int) res" where
  "tui_wtoscr n m None xy = Inr xy"
| "tui_wtoscr 0 m (Some w) xy = Inl NoReturn"
| "tui_wtoscr (Suc n) m (Some w) xy =
     bindE (w_deref m w) (\<lambda>wd.
     bindE (w_link PAR wd) (\<lambda>p. tui_wtoscr n m p (fst xy + w_x wd, snd xy + w_y wd)))"

fun tui_scrtow :: "nat \<Rightarrow> 'a wstore \<Rightarrow> nat option \<Rightarrow> int \<times> int \<Rightarrow> (int \<times> int) res" where
  "tui_scrtow n m None xy = Inr xy"
| "tui_scrtow 0 m (Some w) xy = Inl NoReturn"
| "tui_scrtow (Suc n) m (Some w) xy =
     bindE (w_deref m w) (\<lambda>wd.
     bindE (w_link PAR wd) (\<lambda>p. tui_scrtow n m p (fst xy - w_x wd, snd xy - w_y wd)))"

text \<open>
  \<open>tui_free\<close>, with the function \<open>free_list\<close> as a parameter: the function in the slot \<open>TUI_FREE\<close> is called
  if there is one, and then the widget is freed. What points to the widget is not updated.
\<close>

definition tui_free ::
  "('a wstore \<Rightarrow> nat \<Rightarrow> 'a wstore res) \<Rightarrow> nat option \<Rightarrow> 'a wstore \<Rightarrow> 'a wstore res" where
  "tui_free freef w m =
     (case w of
        None \<Rightarrow> Inr m
      | Some i \<Rightarrow>
          bindE (w_deref m i) (\<lambda>wd.
          bindE (case w_slots wd ! TUI_FREE of
                   PNull \<Rightarrow> Inr m | PFree_list \<Rightarrow> freef m i | _ \<Rightarrow> Inl BadCast) (\<lambda>m.
          Inr (m(i := None)))))"

text \<open>
  \<open>tui_draw\<close>, with the function \<open>draw_list\<close> as a parameter. Calling anything else through the slot
  \<open>TUI_DRAW\<close> is a \<open>BadCast\<close>.
\<close>

fun tui_draw ::
  "('a wstore \<Rightarrow> nat \<Rightarrow> draw_cmd list res) \<Rightarrow> nat \<Rightarrow> nat \<Rightarrow> 'a wstore \<Rightarrow> ('a wstore \<times> draw_cmd list) res"
and draw_children ::
  "('a wstore \<Rightarrow> nat \<Rightarrow> draw_cmd list res) \<Rightarrow> nat \<Rightarrow> nat option \<Rightarrow> 'a wstore
     \<Rightarrow> ('a wstore \<times> draw_cmd list) res" where
  "tui_draw drawf 0 w m = Inl NoReturn"
| "tui_draw drawf (Suc n) w m =
     bindE (w_deref m w) (\<lambda>wd.
     bindE (case w_slots wd ! TUI_DRAW of
              PNull \<Rightarrow> Inr [] | PDraw_list \<Rightarrow> drawf m w | _ \<Rightarrow> Inl BadCast) (\<lambda>own.
     let m = m(w \<mapsto> wd\<lparr>w_dirty := False\<rparr>) in
     bindE (w_link CHILD wd) (\<lambda>c.
     bindE (draw_children drawf n c m) (\<lambda>(m, sub). Inr (m, own @ sub @ [TgRedraw])))))"
| "draw_children drawf n None m = Inr (m, [])"
| "draw_children drawf 0 (Some i) m = Inl NoReturn"
| "draw_children drawf (Suc n) (Some i) m =
     bindE (tui_draw drawf n i m) (\<lambda>(m, own).
     bindE (get_link m i NEXT) (\<lambda>nx.
     bindE (draw_children drawf n nx m) (\<lambda>(m, rest). Inr (m, own @ rest))))"

section \<open>The children of a widget\<close>

text \<open>\<open>wchain m p ns\<close>: following \<open>next\<close> from \<open>p\<close> visits exactly the widgets \<open>ns\<close>.\<close>

fun wchain :: "'a wstore \<Rightarrow> nat option \<Rightarrow> nat list \<Rightarrow> bool" where
  "wchain m p [] \<longleftrightarrow> p = None"
| "wchain m p (i # ns) \<longleftrightarrow> p = Some i \<and> (\<exists>q. get_link m i NEXT = Inr q \<and> wchain m q ns)"

definition children :: "'a wstore \<Rightarrow> nat \<Rightarrow> nat list \<Rightarrow> bool" where
  "children m par ns \<longleftrightarrow> (\<exists>p. get_link m par CHILD = Inr p \<and> wchain m p ns) \<and> distinct ns"

definition wstore_ok :: "'a wstore \<Rightarrow> bool" where
  "wstore_ok m \<longleftrightarrow> (\<forall>i w. m i = Some w \<longrightarrow> length (w_slots w) = 9)"

lemma get_link_cong: "m i = m' i \<Longrightarrow> get_link m i k = get_link m' i k"
  by (simp add: get_link_def w_deref_def)

lemma link_ptr_link: "(case link_ptr p of PNull \<Rightarrow> Inr None | PWidget i \<Rightarrow> Inr (Some i) | _ \<Rightarrow> Inl BadCast) = Inr p"
  by (cases p) (simp_all add: link_ptr_def)

lemma set_link_ok:
  assumes "wstore_ok m" "m i = Some w" "k < 9"
  shows "\<exists>m'. set_link i k p m = Inr m' \<and> wstore_ok m' \<and> get_link m' i k = Inr p
    \<and> (\<forall>j l. j \<noteq> i \<or> l \<noteq> k \<longrightarrow> get_link m' j l = get_link m j l)
    \<and> (\<forall>j. m' j = None \<longleftrightarrow> m j = None)"
proof -
  let ?m = "m(i \<mapsto> w\<lparr>w_slots := (w_slots w)[k := link_ptr p]\<rparr>)"
  have l: "length (w_slots w) = 9" using assms by (auto simp: wstore_ok_def)
  have "set_link i k p m = Inr ?m" using assms by (simp add: set_link_def w_deref_def)
  moreover have "wstore_ok ?m" using assms l by (auto simp: wstore_ok_def)
  moreover have "get_link ?m i k = Inr p"
    using l assms(3) by (simp add: get_link_def w_deref_def w_link_def link_ptr_link)
  moreover have "\<forall>j l. j \<noteq> i \<or> l \<noteq> k \<longrightarrow> get_link ?m j l = get_link m j l"
    using assms(2) by (auto simp: get_link_def w_deref_def w_link_def)
  moreover have "\<forall>j. ?m j = None \<longleftrightarrow> m j = None" using assms(2) by auto
  ultimately show ?thesis by blast
qed

lemma get_link_exists: "get_link m i k = Inr p \<Longrightarrow> \<exists>w. m i = Some w"
  by (cases "m i") (auto simp: get_link_def w_deref_def)

lemma wchain_cong: "(\<And>i. i \<in> set ns \<Longrightarrow> get_link m' i NEXT = get_link m i NEXT) \<Longrightarrow> wchain m' p ns = wchain m p ns"
  by (induction ns arbitrary: p) auto

lemma add_widget_children:
  assumes ok: "wstore_ok m" and ch: "children m par ns" and w: "get_link m w PAR = Inr p" "p \<noteq> Some par"
    and new: "w \<notin> set ns" "w \<noteq> par"
  shows "\<exists>m'. tui_add_widget par w m = Inr m' \<and> wstore_ok m' \<and> children m' par (w # ns)
    \<and> get_link m' w PAR = Inr (Some par)"
proof -
  obtain c where c: "get_link m par CHILD = Inr c" "wchain m c ns" "distinct ns"
    using ch by (auto simp: children_def)
  obtain wd where "m w = Some wd" using get_link_exists [OF w(1)] by auto
  from set_link_ok [OF ok this, of NEXT c] obtain m1 where m1: "set_link w NEXT c m = Inr m1"
    "wstore_ok m1" "get_link m1 w NEXT = Inr c" "\<And>j l. j \<noteq> w \<or> l \<noteq> NEXT \<Longrightarrow> get_link m1 j l = get_link m j l"
    by auto
  have "get_link m1 par CHILD = Inr c" using m1(4) [of par CHILD] c(1) new(2) by simp
  then obtain pd where "m1 par = Some pd" using get_link_exists by blast
  from set_link_ok [OF m1(2) this, of CHILD "Some w"] obtain m2 where m2: "set_link par CHILD (Some w) m1 = Inr m2"
    "wstore_ok m2" "get_link m2 par CHILD = Inr (Some w)"
    "\<And>j l. j \<noteq> par \<or> l \<noteq> CHILD \<Longrightarrow> get_link m2 j l = get_link m1 j l" by auto
  have "get_link m2 w NEXT = Inr c" using m2(4) [of w NEXT] m1(3) by simp
  then obtain wd' where "m2 w = Some wd'" using get_link_exists by blast
  from set_link_ok [OF m2(2) this, of PAR "Some par"] obtain m3 where m3: "set_link w PAR (Some par) m2 = Inr m3"
    "wstore_ok m3" "get_link m3 w PAR = Inr (Some par)"
    "\<And>j l. j \<noteq> w \<or> l \<noteq> PAR \<Longrightarrow> get_link m3 j l = get_link m2 j l" by auto
  have nx: "get_link m3 w NEXT = Inr c" using m3(4) [of w NEXT] m2(4) [of w NEXT] m1(3) by simp
  have chd: "get_link m3 par CHILD = Inr (Some w)" using m3(4) [of par CHILD] m2(3) by simp
  have "wchain m3 c ns = wchain m c ns"
  proof (rule wchain_cong)
    fix i assume i: "i \<in> set ns"
    then have "i \<noteq> w" using new(1) by auto
    then show "get_link m3 i NEXT = get_link m i NEXT"
      using m3(4) [of i NEXT] m2(4) [of i NEXT] m1(4) [of i NEXT] by simp
  qed
  with c nx chd new have "children m3 par (w # ns)" by (simp add: children_def)
  moreover have "tui_add_widget par w m = Inr m3"
    using w c(1) m1(1) m2(1) m3(1) by (simp add: tui_add_widget_def)
  ultimately show ?thesis using m3 by blast
qed

text \<open>Unlinking behind a predecessor \<open>i\<close>: the rest of the chain loses \<open>w\<close>, nothing else changes.\<close>

lemma unlink_after:
  assumes "wstore_ok m" "get_link m i NEXT = Inr q" "wchain m q ns" "w \<in> set ns" "i \<notin> set ns"
    "distinct ns" "length ns \<le> n"
  shows "\<exists>m'. unlink_loop n w (Some i) first m = Inr (m', first) \<and> wstore_ok m'
    \<and> (\<exists>q'. get_link m' i NEXT = Inr q' \<and> wchain m' q' (remove1 w ns))
    \<and> (\<forall>j l. l \<noteq> NEXT \<or> j \<notin> set (i # ns) \<longrightarrow> get_link m' j l = get_link m j l)
    \<and> (\<forall>j. m' j = None \<longleftrightarrow> m j = None)"
  using assms
proof (induction ns arbitrary: i q n)
  case (Cons a ns)
  from Cons.prems obtain n' where n: "n = Suc n'" by (cases n) auto
  from Cons.prems obtain q' where q: "q = Some a" "get_link m a NEXT = Inr q'" "wchain m q' ns" by auto
  show ?case
  proof (cases "a = w")
    case True
    obtain wd where "m i = Some wd" using get_link_exists Cons.prems(2) by blast
    from set_link_ok [OF Cons.prems(1) this, of NEXT q'] obtain m' where m': "set_link i NEXT q' m = Inr m'"
      "wstore_ok m'" "get_link m' i NEXT = Inr q'" "\<And>j l. j \<noteq> i \<or> l \<noteq> NEXT \<Longrightarrow> get_link m' j l = get_link m j l"
      "\<forall>j. m' j = None \<longleftrightarrow> m j = None" by auto
    have "wchain m' q' ns = wchain m q' ns"
      by (intro wchain_cong m'(4)) (use Cons.prems(5) in auto)
    then show ?thesis using True n q m' Cons.prems(2) by (intro exI [of _ m']) auto
  next
    case False
    have "\<exists>m'. unlink_loop n' w (Some a) first m = Inr (m', first) \<and> wstore_ok m'
      \<and> (\<exists>q''. get_link m' a NEXT = Inr q'' \<and> wchain m' q'' (remove1 w ns))
      \<and> (\<forall>j l. l \<noteq> NEXT \<or> j \<notin> set (a # ns) \<longrightarrow> get_link m' j l = get_link m j l)
      \<and> (\<forall>j. m' j = None \<longleftrightarrow> m j = None)"
      using Cons.prems False q n by (intro Cons.IH) auto
    then show ?thesis using False n q Cons.prems(2,5) by auto
  qed
qed simp

lemma remove_widget_children:
  assumes ok: "wstore_ok m" and ch: "children m par ns" and w: "get_link m w PAR = Inr (Some par)"
    and old: "w \<in> set ns" "par \<notin> set ns" and fuel: "length ns \<le> fuel"
  shows "\<exists>m'. tui_remove_widget fuel par w m = Inr m' \<and> children m' par (remove1 w ns)
    \<and> get_link m' w PAR = Inr None \<and> get_link m' w NEXT = Inr None"
proof -
  obtain c where c: "get_link m par CHILD = Inr c" "wchain m c ns" "distinct ns"
    using ch by (auto simp: children_def)
  from old fuel obtain a ns' n where ns: "ns = a # ns'" "fuel = Suc n" by (cases ns; cases fuel) auto
  with c obtain q where a: "c = Some a" "get_link m a NEXT = Inr q" "wchain m q ns'" by auto
  have "\<exists>m1 f. unlink_loop fuel w None c m = Inr (m1, f) \<and> wstore_ok m1 \<and> wchain m1 f (remove1 w ns)
    \<and> (\<forall>j l. l \<noteq> NEXT \<or> j \<notin> set ns \<longrightarrow> get_link m1 j l = get_link m j l)
    \<and> (\<forall>j. m1 j = None \<longleftrightarrow> m j = None)"
  proof (cases "a = w")
    case True
    then show ?thesis using ns a c ok by auto
  next
    case False
    from unlink_after [OF ok a(2,3), of w n c] False old ns c fuel
    obtain m' where "unlink_loop n w (Some a) c m = Inr (m', c)" "wstore_ok m'"
      "\<exists>q'. get_link m' a NEXT = Inr q' \<and> wchain m' q' (remove1 w ns')"
      "\<forall>j l. l \<noteq> NEXT \<or> j \<notin> set (a # ns') \<longrightarrow> get_link m' j l = get_link m j l"
      "\<forall>j. m' j = None \<longleftrightarrow> m j = None" by auto
    with False ns a show ?thesis by auto
  qed
  then obtain m1 f where m1: "unlink_loop fuel w None c m = Inr (m1, f)" "wstore_ok m1"
    "wchain m1 f (remove1 w ns)" "\<And>j l. l \<noteq> NEXT \<or> j \<notin> set ns \<Longrightarrow> get_link m1 j l = get_link m j l"
    "\<And>j. m1 j = None \<longleftrightarrow> m j = None" by auto
  obtain pd where "m1 par = Some pd" using m1(5) [of par] get_link_exists [OF c(1)] by (cases "m1 par") auto
  from set_link_ok [OF m1(2) this, of CHILD f] obtain m2 where m2: "set_link par CHILD f m1 = Inr m2"
    "wstore_ok m2" "get_link m2 par CHILD = Inr f" "\<And>j l. j \<noteq> par \<or> l \<noteq> CHILD \<Longrightarrow> get_link m2 j l = get_link m1 j l"
    "\<forall>j. m2 j = None \<longleftrightarrow> m1 j = None" by auto
  obtain wd where "m2 w = Some wd" using m1(5) [of w] m2(5) get_link_exists [OF w] by (cases "m2 w") auto
  from set_link_ok [OF m2(2) this, of NEXT None] obtain m3 where m3: "set_link w NEXT None m2 = Inr m3"
    "wstore_ok m3" "get_link m3 w NEXT = Inr None" "\<And>j l. j \<noteq> w \<or> l \<noteq> NEXT \<Longrightarrow> get_link m3 j l = get_link m2 j l"
    "\<forall>j. m3 j = None \<longleftrightarrow> m2 j = None" by auto
  obtain wd' where "m3 w = Some wd'" using m3(3) get_link_exists by blast
  from set_link_ok [OF m3(2) this, of PAR None] obtain m4 where m4: "set_link w PAR None m3 = Inr m4"
    "get_link m4 w PAR = Inr None" "\<And>j l. j \<noteq> w \<or> l \<noteq> PAR \<Longrightarrow> get_link m4 j l = get_link m3 j l" by auto
  have other: "get_link m4 i NEXT = get_link m1 i NEXT" if "i \<noteq> w" for i
    using m4(3) [of i NEXT] m3(4) [of i NEXT] m2(4) [of i NEXT] that by simp
  have wr: "w \<notin> set (remove1 w ns)" using c(3) by simp
  then have "wchain m4 f (remove1 w ns) = wchain m1 f (remove1 w ns)"
    by (intro wchain_cong) (metis other)
  moreover have "get_link m4 par CHILD = Inr f"
    using m4(3) [of par CHILD] m3(4) [of par CHILD] m2(3) by simp
  moreover have "get_link m4 w NEXT = Inr None" using m4(3) [of w NEXT] m3(3) by simp
  moreover have "tui_remove_widget fuel par w m = Inr m4"
    using w c(1) m1(1) m2(1) m3(1) m4(1) by (simp add: tui_remove_widget_def)
  ultimately show ?thesis using m1(3) m4(2) c(3) by (auto simp: children_def)
qed

text \<open>The two coordinate transformations are inverse to each other.\<close>

lemma wtoscr_scrtow: "tui_wtoscr n m p xy = Inr xy' \<Longrightarrow> tui_scrtow n m p xy' = Inr xy"
proof -
  have gen: "tui_wtoscr n m p (x, y) = Inr xy' \<Longrightarrow> tui_scrtow n m p (fst xy' - x + a, snd xy' - y + b) = Inr (a, b)"
    for x y a b
  proof (induction n arbitrary: p x y a b)
    case 0
    then show ?case by (cases p) auto
  next
    case (Suc n)
    show ?case
    proof (cases p)
      case (Some w)
      with Suc.prems obtain wd q where w: "w_deref m w = Inr wd" "w_link PAR wd = Inr q"
        "tui_wtoscr n m q (x + w_x wd, y + w_y wd) = Inr xy'" by (auto simp: res_simps)
      from Suc.IH [OF w(3), of a b] w Some show ?thesis by (simp add: algebra_simps)
    qed (use Suc.prems in auto)
  qed
  assume "tui_wtoscr n m p xy = Inr xy'"
  with gen [of "fst xy" "snd xy" "fst xy" "snd xy"] show ?thesis by simp
qed

end
