(* ===== verification/Tui_List.thy ===== *)
theory Tui_List
  imports Tui Darray
begin

text \<open>
  The list widget of \<open>src/tui_list.c\<close>: a widget with entries, a cursor, a selection and the index
  of the first entry that is visible. \<open>list_ok\<close> is its invariant; the operations keep it, apart from
  those that forget the cursor.
\<close>

section \<open>State and operations\<close>

record list_entry =
  e_text :: string
  e_sel :: bool

record tui_list = widget +
  entries :: "list_entry darr"
  num_sel :: int
  cur :: int
  view_offs :: int

text \<open>The constructor, called \<open>tui_list\<close> in the code.\<close>

definition tui_list_new :: "string \<Rightarrow> int \<Rightarrow> int \<Rightarrow> int \<Rightarrow> int \<Rightarrow> ptr \<Rightarrow> ptr \<Rightarrow> tui_list" where
  "tui_list_new title x y width height cbfunc cbdata =
     (let w = widget.extend
                ((tui_widget TUI_LIST)\<lparr>w_title := Some title, w_x := x, w_y := y, w_width := width,
                   w_height := height, w_dirty := True\<rparr>)
                \<lparr>entries = darr_alloc 0 16, num_sel = 0, cur = -1, view_offs = 0\<rparr>;
          w = (if cbfunc \<noteq> PNull then tui_set_callback TUI_ONMODIFY cbfunc cbdata w else w);
          w = tui_set_callback TUI_FREE PFree_list PNull w
      in tui_set_callback TUI_DRAW PDraw_list PNull w)"

text \<open>The assertion at the start of every operation.\<close>

definition as_list :: "tui_list \<Rightarrow> (tui_list \<Rightarrow> 'b res) \<Rightarrow> 'b res" where
  "as_list w f = (if w_type w = TUI_LIST then f w else Inl AssertFail)"

definition tui_clear_list :: "tui_list \<Rightarrow> tui_list res" where
  "tui_clear_list w = as_list w (\<lambda>wl.
     Inr (tui_call_callback TUI_ONMODIFY (wl\<lparr>entries := darr_clear (entries wl), w_dirty := True\<rparr>)))"

text \<open>\<open>free_list\<close>; the array of the entries goes with the widget, which \<open>tui_free\<close> frees next.\<close>

definition free_list :: "(nat \<Rightarrow> tui_list option) \<Rightarrow> nat \<Rightarrow> (nat \<Rightarrow> tui_list option) res" where
  "free_list m w =
     bindE (w_deref m w) (\<lambda>wl. bindE (tui_clear_list wl) (\<lambda>wl. Inr (m(w \<mapsto> wl))))"

definition tui_add_list_item :: "string \<Rightarrow> tui_list \<Rightarrow> tui_list res" where
  "tui_add_list_item text w = as_list w (\<lambda>wl.
     let item = \<lparr>e_text = text, e_sel = False\<rparr>
     in Inr (tui_call_callback TUI_ONMODIFY
               (wl\<lparr>entries := darr_push (entries wl) item, w_dirty := True\<rparr>)))"

definition tui_num_list_items :: "tui_list \<Rightarrow> int res" where
  "tui_num_list_items w = as_list w (\<lambda>wl. Inr (int (darr_size (entries wl))))"

definition VISLINES :: "tui_list \<Rightarrow> int" where
  "VISLINES wl = w_height wl - 2"

definition tui_list_setcur :: "int \<Rightarrow> tui_list \<Rightarrow> (tui_list \<times> int) res" where
  "tui_list_setcur idx w = as_list w (\<lambda>wl.
     if idx = cur wl then Inr (wl, 0)
     else if idx < 0 then Inr (wl\<lparr>cur := -1\<rparr>, 0)
     else if idx \<ge> int (darr_size (entries wl)) then Inr (wl, -1)
     else
       let n = int (darr_size (entries wl));
           numvis = VISLINES wl;
           wl = wl\<lparr>cur := idx\<rparr>;
           wl = (if idx < view_offs wl \<or> idx \<ge> view_offs wl + numvis
                 then (let offs = idx - cdiv numvis 2;
                           offs = (if offs + numvis \<ge> n then n - numvis else offs);
                           offs = (if offs < 0 then 0 else offs)
                       in wl\<lparr>view_offs := offs\<rparr>)
                 else wl)
       in Inr (tui_call_callback TUI_ONMODIFY (wl\<lparr>w_dirty := True\<rparr>), 0))"

definition tui_get_list_cur :: "tui_list \<Rightarrow> int res" where
  "tui_get_list_cur w = as_list w (\<lambda>wl. Inr (cur wl))"

definition tui_list_cur_next :: "tui_list \<Rightarrow> (tui_list \<times> int) res" where
  "tui_list_cur_next w = as_list w (\<lambda>wl.
     let n = int (darr_size (entries wl)); numvis = VISLINES wl
     in if cur wl + 1 \<ge> n then Inr (wl, -1)
        else
          let wl = wl\<lparr>cur := cur wl + 1\<rparr>;
              wl = (if cur wl - view_offs wl \<ge> numvis
                    then wl\<lparr>view_offs := cur wl - numvis + 1\<rparr> else wl)
          in Inr (tui_call_callback TUI_ONMODIFY (wl\<lparr>w_dirty := True\<rparr>), 0))"

definition tui_list_cur_prev :: "tui_list \<Rightarrow> (tui_list \<times> int) res" where
  "tui_list_cur_prev w = as_list w (\<lambda>wl.
     if cur wl \<le> 0 then Inr (wl, -1)
     else
       let wl = wl\<lparr>cur := cur wl - 1\<rparr>;
           wl = (if cur wl < view_offs wl then wl\<lparr>view_offs := cur wl\<rparr> else wl)
       in Inr (tui_call_callback TUI_ONMODIFY (wl\<lparr>w_dirty := True\<rparr>), 0))"

definition tui_list_cur_start :: "tui_list \<Rightarrow> (tui_list \<times> int) res" where
  "tui_list_cur_start w = as_list w (\<lambda>wl.
     Inr (tui_call_callback TUI_ONMODIFY (wl\<lparr>cur := 0, view_offs := 0, w_dirty := True\<rparr>), 0))"

definition tui_list_cur_end :: "tui_list \<Rightarrow> (tui_list \<times> int) res" where
  "tui_list_cur_end w = as_list w (\<lambda>wl.
     let n = int (darr_size (entries wl));
         numvis = VISLINES wl;
         wl = wl\<lparr>cur := n - 1, view_offs := n - numvis\<rparr>;
         wl = (if view_offs wl < 0 then wl\<lparr>view_offs := 0\<rparr> else wl)
     in Inr (tui_call_callback TUI_ONMODIFY (wl\<lparr>w_dirty := True\<rparr>), 0))"

definition tui_list_toggle_sel :: "int \<Rightarrow> tui_list \<Rightarrow> (tui_list \<times> bool) res" where
  "tui_list_toggle_sel idx w = as_list w (\<lambda>wl.
     bindE (darr_get (entries wl) idx) (\<lambda>e.
     let sel = (\<not> e_sel e);
         es = entries wl;
         wl = wl\<lparr>entries := es\<lparr>cells := (cells es)[nat idx := Some (e\<lparr>e_sel := sel\<rparr>)]\<rparr>\<rparr>;
         wl = (if sel then wl\<lparr>num_sel := num_sel wl + 1\<rparr>
               else if num_sel wl > 0 then wl\<lparr>num_sel := num_sel wl - 1\<rparr> else wl)
     in Inr (wl\<lparr>w_dirty := True\<rparr>, sel)))"

definition tui_list_is_sel :: "int \<Rightarrow> tui_list \<Rightarrow> bool res" where
  "tui_list_is_sel idx w = as_list w (\<lambda>wl.
     bindE (darr_get (entries wl) idx) (\<lambda>e. Inr (e_sel e)))"

definition tui_list_num_sel :: "tui_list \<Rightarrow> int res" where
  "tui_list_num_sel w = as_list w (\<lambda>wl. Inr (num_sel wl))"

text \<open>The loop of \<open>tui_list_get_sel\<close> over the entries from \<open>i\<close> on: what it writes to \<open>selv\<close>.\<close>

fun sel_loop :: "list_entry darr \<Rightarrow> nat \<Rightarrow> nat \<Rightarrow> int \<Rightarrow> int list res" where
  "sel_loop es i 0 maxsel = Inr []"
| "sel_loop es i (Suc n) maxsel =
     (if maxsel \<le> 0 then Inr []
      else
        bindE (darr_get es (int i)) (\<lambda>e.
        if e_sel e then bindE (sel_loop es (Suc i) n (maxsel - 1)) (\<lambda>r. Inr (int i # r))
        else sel_loop es (Suc i) n maxsel))"

definition tui_list_get_sel :: "int \<Rightarrow> tui_list \<Rightarrow> (int list \<times> int) res" where
  "tui_list_get_sel maxsel w = as_list w (\<lambda>wl.
     bindE (sel_loop (entries wl) 0 (darr_size (entries wl)) maxsel) (\<lambda>selv.
     Inr (selv, num_sel wl)))"

text \<open>
  Without a comparison function \<open>tui_sort_list\<close> uses \<open>strcmp\<close>, which then reads the structures
  themselves instead of the texts they point to.
\<close>

definition tui_sort_list ::
  "(list_entry \<Rightarrow> list_entry \<Rightarrow> int) option \<Rightarrow> tui_list \<Rightarrow> tui_list res" where
  "tui_sort_list cmpfunc w = as_list w (\<lambda>wl.
     case cmpfunc of
       None \<Rightarrow> Inl BadCast
     | Some cmp \<Rightarrow>
         Inr (tui_call_callback TUI_ONMODIFY
                (wl\<lparr>entries := darr_qsort cmp (entries wl), w_dirty := True\<rparr>)))"

text \<open>\<open>draw_list\<close>, from the position of the widget on the screen; \<open>i\<close> rows were drawn, \<open>n\<close> are left.\<close>

definition draw_entry :: "int \<Rightarrow> int \<Rightarrow> nat \<Rightarrow> bool \<Rightarrow> list_entry \<Rightarrow> draw_cmd list" where
  "draw_entry x y maxlen hilite e =
     (let text = take maxlen (e_text e)
      in if hilite
         then [TgBg Cyan, TgFg (if e_sel e then Yellow else Blue), TgRect None x y (int maxlen) 1 False,
               TgText x y text, TgBg Blue, TgFg (if e_sel e then Yellow else Cyan)]
         else [TgFg (if e_sel e then Yellow else Cyan), TgText x y text])"

fun draw_entries :: "tui_list \<Rightarrow> int \<Rightarrow> int \<Rightarrow> nat \<Rightarrow> nat \<Rightarrow> nat \<Rightarrow> draw_cmd list res" where
  "draw_entries wl x y maxlen i 0 = Inr []"
| "draw_entries wl x y maxlen i (Suc n) =
     (let idx = int i + view_offs wl
      in bindE (darr_get (entries wl) idx) (\<lambda>e.
         bindE (draw_entries wl x (y + 1) maxlen (Suc i) n) (\<lambda>rest.
         Inr (draw_entry x (y + 1) maxlen (w_focus wl \<and> idx = cur wl) e @ rest))))"

definition draw_list_at :: "tui_list \<Rightarrow> int \<times> int \<Rightarrow> draw_cmd list res" where
  "draw_list_at wl xy =
     (let maxlen = nat (w_width wl - 2);
          num = (if int (darr_size (entries wl)) > w_height wl - 2 then nat (w_height wl - 2)
                 else darr_size (entries wl))
      in bindE (draw_entries wl (fst xy + 1) (snd xy) maxlen 0 num) (\<lambda>rows.
         Inr ([TgBg Blue, TgFg Cyan,
               TgRect (w_title wl) (fst xy) (snd xy) (w_width wl) (w_height wl) True] @ rows)))"

definition draw_list :: "nat \<Rightarrow> (nat \<Rightarrow> tui_list option) \<Rightarrow> nat \<Rightarrow> draw_cmd list res" where
  "draw_list fuel m w =
     bindE (w_deref m w) (\<lambda>wl.
     bindE (tui_wtoscr fuel m (Some w) (0, 0)) (draw_list_at wl))"

section \<open>Invariant\<close>

definition sel_count :: "tui_list \<Rightarrow> int" where
  "sel_count wl = int (length (filter e_sel (darr_list (entries wl))))"

definition list_wf :: "tui_list \<Rightarrow> bool" where
  "list_wf wl \<longleftrightarrow> w_type wl = TUI_LIST \<and> length (w_slots wl) = 9 \<and> darr_ok (entries wl)
     \<and> 2 < w_height wl"

text \<open>The cursor is on an entry, and that entry is visible; the window shows entries only.\<close>

definition cursor_ok :: "tui_list \<Rightarrow> bool" where
  "cursor_ok wl \<longleftrightarrow>
     -1 \<le> cur wl \<and> cur wl < int (darr_size (entries wl))
     \<and> 0 \<le> view_offs wl \<and> view_offs wl \<le> max 0 (int (darr_size (entries wl)) - VISLINES wl)
     \<and> (if cur wl = -1 then view_offs wl = 0
        else view_offs wl \<le> cur wl \<and> cur wl < view_offs wl + VISLINES wl)"

definition list_ok :: "tui_list \<Rightarrow> bool" where
  "list_ok wl \<longleftrightarrow> list_wf wl \<and> cursor_ok wl \<and> num_sel wl = sel_count wl"

lemma call_callback_fields [simp]:
  "entries (tui_call_callback t w) = entries w" "num_sel (tui_call_callback t w) = num_sel w"
  "cur (tui_call_callback t w) = cur w" "view_offs (tui_call_callback t w) = view_offs w"
  by (simp_all add: tui_call_callback_def)

lemma call_callback_widget [simp]:
  "w_type (tui_call_callback t w) = w_type w" "w_slots (tui_call_callback t w) = w_slots w"
  "w_height (tui_call_callback t w) = w_height w" "w_dirty (tui_call_callback t w) = w_dirty w"
  "w_title (tui_call_callback t w) = w_title w" "w_x (tui_call_callback t w) = w_x w"
  "w_y (tui_call_callback t w) = w_y w" "w_width (tui_call_callback t w) = w_width w"
  by (simp_all add: tui_call_callback_def)

lemmas list_defs = list_ok_def list_wf_def cursor_ok_def sel_count_def VISLINES_def as_list_def Let_def

text \<open>Where \<open>tui_list_setcur\<close> moves the window to.\<close>

definition centered :: "int \<Rightarrow> int \<Rightarrow> int \<Rightarrow> int" where
  "centered idx n numvis =
     (let offs = idx - cdiv numvis 2;
          offs = (if offs + numvis \<ge> n then n - numvis else offs)
      in if offs < 0 then 0 else offs)"

lemma centered_ok:
  assumes "0 \<le> idx" "idx < n" "0 < numvis"
  shows "0 \<le> centered idx n numvis" "centered idx n numvis \<le> max 0 (n - numvis)"
    "centered idx n numvis \<le> idx" "idx < centered idx n numvis + numvis"
proof -
  define h where "h = numvis div 2"
  have h: "cdiv numvis 2 = h" "0 \<le> h" "h < numvis" using assms(3) by (simp_all add: h_def)
  show "0 \<le> centered idx n numvis" "centered idx n numvis \<le> max 0 (n - numvis)"
    "centered idx n numvis \<le> idx" "idx < centered idx n numvis + numvis"
    using assms h(2,3) by (simp_all add: centered_def h(1) Let_def)
qed

lemma setcur_centered:
  "w_type w = TUI_LIST \<Longrightarrow> idx \<noteq> cur w \<Longrightarrow> 0 \<le> idx \<Longrightarrow> idx < int (darr_size (entries w)) \<Longrightarrow>
    tui_list_setcur idx w = Inr (tui_call_callback TUI_ONMODIFY (w\<lparr>cur := idx, view_offs :=
      (if idx < view_offs w \<or> idx \<ge> view_offs w + VISLINES w
       then centered idx (int (darr_size (entries w))) (VISLINES w) else view_offs w), w_dirty := True\<rparr>), 0)"
  by (simp add: tui_list_setcur_def as_list_def VISLINES_def centered_def Let_def)

lemma setcur_ok:
  assumes w: "list_ok w" and "0 \<le> idx"
  shows "safeE {} (\<lambda>(w', r). list_ok w' \<and> entries w' = entries w
    \<and> cur w' = (if idx < int (darr_size (entries w)) then idx else cur w)) (tui_list_setcur idx w)"
proof (cases "idx \<noteq> cur w \<and> idx < int (darr_size (entries w))")
  case True
  have v: "0 < VISLINES w" using w by (simp add: list_defs)
  show ?thesis
    using w assms(2) True centered_ok [OF assms(2) _ v, of "int (darr_size (entries w))"]
    by (simp add: setcur_centered list_ok_def list_wf_def cursor_ok_def sel_count_def VISLINES_def)
next
  case False
  then show ?thesis
    using assms by (auto simp: tui_list_setcur_def as_list_def list_ok_def list_wf_def)
qed

lemma cur_next_ok: "list_ok w \<Longrightarrow> safeE {} (\<lambda>(w', r). list_ok w'
    \<and> entries w' = entries w \<and> cur w' = min (cur w + 1) (int (darr_size (entries w)) - 1)) (tui_list_cur_next w)"
  by (auto simp: tui_list_cur_next_def list_defs)

lemma cur_prev_ok: "list_ok w \<Longrightarrow> safeE {} (\<lambda>(w', r). list_ok w'
    \<and> entries w' = entries w \<and> cur w' = (if cur w \<le> 0 then cur w else cur w - 1)) (tui_list_cur_prev w)"
  by (auto simp: tui_list_cur_prev_def list_defs)

lemma cur_start_ok: "list_ok w \<Longrightarrow> 0 < darr_size (entries w) \<Longrightarrow> safeE {} (\<lambda>(w', r). list_ok w'
    \<and> entries w' = entries w \<and> cur w' = 0) (tui_list_cur_start w)"
  by (auto simp: tui_list_cur_start_def list_defs)

lemma cur_end_ok: "list_ok w \<Longrightarrow> safeE {} (\<lambda>(w', r). list_ok w'
    \<and> entries w' = entries w \<and> cur w' = int (darr_size (entries w)) - 1) (tui_list_cur_end w)"
  by (auto simp: tui_list_cur_end_def list_defs)

section \<open>Entries and selection\<close>

lemma add_item_entries:
  assumes "list_wf w"
  shows "\<exists>w'. tui_add_list_item s w = Inr w' \<and> list_wf w' \<and> cur w' = cur w \<and> view_offs w' = view_offs w
    \<and> num_sel w' = num_sel w \<and> w_height w' = w_height w \<and> w_slots w' = w_slots w
    \<and> darr_list (entries w') = darr_list (entries w) @ [\<lparr>e_text = s, e_sel = False\<rparr>]"
  using assms
  by (auto simp: tui_add_list_item_def as_list_def list_wf_def Let_def da.push_inv da.push_list)

lemma clear_list_entries:
  assumes "list_wf w"
  shows "\<exists>w'. tui_clear_list w = Inr w' \<and> list_wf w' \<and> cur w' = cur w \<and> view_offs w' = view_offs w
    \<and> num_sel w' = num_sel w \<and> w_height w' = w_height w \<and> w_slots w' = w_slots w
    \<and> darr_list (entries w') = []"
  using assms
  by (auto simp: tui_clear_list_def as_list_def list_wf_def Let_def darr_list_clear)

text \<open>What \<open>updateui\<close> does when a directory has changed.\<close>

primrec add_items :: "string list \<Rightarrow> tui_list \<Rightarrow> tui_list res" where
  "add_items [] w = Inr w"
| "add_items (s # ss) w = bindE (tui_add_list_item s w) (add_items ss)"

definition refill :: "string list \<Rightarrow> tui_list \<Rightarrow> tui_list res" where
  "refill ss w =
     bindE (tui_clear_list w) (\<lambda>w.
     bindE (add_items ss w) (\<lambda>w. bindE (tui_list_setcur 0 w) (\<lambda>(w, r). Inr w)))"

lemma add_items_entries:
  assumes "list_wf w"
  shows "\<exists>w'. add_items ss w = Inr w' \<and> list_wf w' \<and> cur w' = cur w \<and> view_offs w' = view_offs w
    \<and> num_sel w' = num_sel w \<and> w_height w' = w_height w
    \<and> darr_list (entries w') = darr_list (entries w) @ map (\<lambda>s. \<lparr>e_text = s, e_sel = False\<rparr>) ss"
  using assms
proof (induction ss arbitrary: w)
  case (Cons s ss)
  from add_item_entries [OF Cons.prems, of s] obtain w1 where w1: "tui_add_list_item s w = Inr w1"
    "list_wf w1" "cur w1 = cur w" "view_offs w1 = view_offs w" "num_sel w1 = num_sel w"
    "w_height w1 = w_height w"
    "darr_list (entries w1) = darr_list (entries w) @ [\<lparr>e_text = s, e_sel = False\<rparr>]" by auto
  from Cons.IH [OF w1(2)] w1 show ?case by auto
qed simp

lemma setcur_zero:
  assumes "list_wf w" "0 < darr_size (entries w)" "0 \<le> view_offs w" "cur w = 0 \<longrightarrow> view_offs w = 0"
  shows "\<exists>w' r. tui_list_setcur 0 w = Inr (w', r) \<and> list_wf w' \<and> cursor_ok w' \<and> cur w' = 0
    \<and> view_offs w' = 0 \<and> entries w' = entries w \<and> num_sel w' = num_sel w"
  using assms by (auto simp: tui_list_setcur_def list_defs)

lemma refill_ok:
  assumes "list_wf w" "0 \<le> view_offs w" "cur w = 0 \<longrightarrow> view_offs w = 0" "ss \<noteq> []"
  shows "\<exists>w'. refill ss w = Inr w' \<and> list_wf w' \<and> cursor_ok w' \<and> cur w' = 0 \<and> view_offs w' = 0
    \<and> num_sel w' = num_sel w \<and> darr_list (entries w') = map (\<lambda>s. \<lparr>e_text = s, e_sel = False\<rparr>) ss"
proof -
  from clear_list_entries [OF assms(1)] obtain w1 where w1: "tui_clear_list w = Inr w1" "list_wf w1"
    "cur w1 = cur w" "view_offs w1 = view_offs w" "num_sel w1 = num_sel w" "darr_list (entries w1) = []" by auto
  from add_items_entries [OF w1(2), of ss] w1 obtain w2 where w2: "add_items ss w1 = Inr w2" "list_wf w2"
    "cur w2 = cur w" "view_offs w2 = view_offs w" "num_sel w2 = num_sel w"
    "darr_list (entries w2) = map (\<lambda>s. \<lparr>e_text = s, e_sel = False\<rparr>) ss" by auto
  have "0 < darr_size (entries w2)"
    using w2(2,6) assms(4) by (simp add: darr_size_list list_wf_def)
  from setcur_zero [OF w2(2) this] w2 assms(2,3) obtain w3 r where "tui_list_setcur 0 w2 = Inr (w3, r)"
    "list_wf w3" "cursor_ok w3" "cur w3 = 0" "view_offs w3 = 0" "entries w3 = entries w2" "num_sel w3 = num_sel w2"
    by auto
  with w1 w2 show ?thesis by (auto simp: refill_def)
qed

text \<open>An empty list keeps whatever cursor there was.\<close>

lemma refill_empty:
  assumes "list_wf w" "0 \<le> cur w"
  shows "\<exists>w'. refill [] w = Inr w' \<and> cur w' = cur w \<and> view_offs w' = view_offs w \<and> darr_list (entries w') = []"
proof -
  from clear_list_entries [OF assms(1)] obtain w1 where w1: "tui_clear_list w = Inr w1" "list_wf w1"
    "cur w1 = cur w" "view_offs w1 = view_offs w" "darr_list (entries w1) = []" by auto
  then have "darr_size (entries w1) = 0" by (simp add: darr_size_list list_wf_def)
  with w1 assms(2) show ?thesis
    by (cases "cur w = 0") (auto simp: refill_def tui_list_setcur_def as_list_def list_wf_def)
qed

lemma filter_sel_update:
  assumes "i < length es"
  shows "int (length (filter e_sel (es[i := e]))) =
    int (length (filter e_sel es)) - (if e_sel (es ! i) then 1 else 0) + (if e_sel e then 1 else 0)"
  using assms
proof (induction es arbitrary: i)
  case (Cons a es)
  show ?case
  proof (cases i)
    case (Suc j)
    then show ?thesis using Cons.IH [of j] Cons.prems by auto
  qed simp
qed simp

lemma toggle_ok:
  assumes "list_ok w" "0 \<le> idx" "idx < int (darr_size (entries w))"
  shows "\<exists>w' b. tui_list_toggle_sel idx w = Inr (w', b) \<and> list_ok w' \<and> cur w' = cur w
    \<and> b = (\<not> e_sel (darr_list (entries w) ! nat idx))
    \<and> darr_list (entries w') = (darr_list (entries w))[nat idx := (darr_list (entries w) ! nat idx)\<lparr>e_sel := b\<rparr>]"
proof -
  let ?es = "entries w"
  have ok: "darr_ok ?es" and ty: "w_type w = TUI_LIST" using assms(1) by (simp_all add: list_defs)
  have len: "int (length (darr_list ?es)) = int (darr_size ?es)" using ok by (simp add: darr_size_list)
  let ?e = "darr_list ?es ! nat idx"
  have g: "darr_get ?es idx = Inr ?e" using ok assms(2,3) len by (intro darr_get_list) simp_all
  have i: "nat idx < nelem ?es" using assms(2,3) by (simp add: darr_size_def)
  define es' where "es' = ?es\<lparr>cells := (cells ?es)[nat idx := Some (?e\<lparr>e_sel := \<not> e_sel ?e\<rparr>)]\<rparr>"
  have es': "darr_ok es'" "darr_list es' = (darr_list ?es)[nat idx := ?e\<lparr>e_sel := \<not> e_sel ?e\<rparr>]"
    "darr_size es' = darr_size ?es"
    using darr_set_ok [OF ok i] by (simp_all add: es'_def darr_size_def)
  have il: "nat idx < length (darr_list ?es)" using assms(2,3) len by linarith
  have cnt: "int (length (filter e_sel (darr_list es'))) = int (length (filter e_sel (darr_list ?es)))
      + (if e_sel ?e then -1 else 1)"
    using filter_sel_update [OF il, of "?e\<lparr>e_sel := \<not> e_sel ?e\<rparr>"] es'(2) by simp
  have pos: "e_sel ?e \<Longrightarrow> 0 < length (filter e_sel (darr_list ?es))"
    using il by (auto simp: filter_empty_conv)
  let ?w = "w\<lparr>entries := es', num_sel := num_sel w + (if e_sel ?e then -1 else 1), w_dirty := True\<rparr>"
  have ns: "num_sel w = int (length (filter e_sel (darr_list ?es)))" using assms(1) by (simp add: list_defs)
  then have "tui_list_toggle_sel idx w = Inr (?w, \<not> e_sel ?e)"
    using ty g pos by (simp add: tui_list_toggle_sel_def as_list_def Let_def es'_def)
  moreover have "list_ok ?w"
    using assms(1) es'(1,3) cnt ns by (cases "cur w = -1") (simp_all add: list_defs)
  ultimately show ?thesis using es'(2) by simp
qed

lemma sel_loop_list:
  assumes "darr_ok es" "i + n \<le> darr_size es"
  shows "sel_loop es i n maxsel =
    Inr (take (nat maxsel) (map int (filter (\<lambda>k. e_sel (darr_list es ! k)) [i..<i + n])))"
  using assms(2)
proof (induction n arbitrary: i maxsel)
  case (Suc n)
  have "darr_get es (int i) = Inr (darr_list es ! i)"
    using Suc.prems assms(1) darr_get_list [of es "int i"] by (simp add: darr_size_list)
  moreover have "[i..<i + Suc n] = i # [Suc i..<Suc i + n]" by (simp add: upt_rec)
  moreover have "0 < maxsel \<Longrightarrow> nat maxsel = Suc (nat (maxsel - 1))" by simp
  ultimately show ?case
    using Suc.IH [of "Suc i"] Suc.prems by auto
qed simp

lemma get_sel_ok:
  assumes "list_ok w" "int (darr_size (entries w)) \<le> maxsel"
  shows "tui_list_get_sel maxsel w = Inr (map int (filter (\<lambda>k. e_sel (darr_list (entries w) ! k))
    [0..<darr_size (entries w)]), sel_count w)"
proof -
  have ok: "darr_ok (entries w)" using assms(1) by (simp add: list_defs)
  have "length (filter (\<lambda>k. e_sel (darr_list (entries w) ! k)) [0..<darr_size (entries w)]) \<le> darr_size (entries w)"
    using length_filter_le [of _ "[0..<darr_size (entries w)]"] by simp
  then show ?thesis
    using sel_loop_list [OF ok, of 0 "darr_size (entries w)" maxsel] assms
    by (simp add: tui_list_get_sel_def list_defs)
qed

lemma sel_count_indices:
  "darr_ok (entries w) \<Longrightarrow> sel_count w = int (length (filter (\<lambda>k. e_sel (darr_list (entries w) ! k)) [0..<darr_size (entries w)]))"
  by (simp add: sel_count_def darr_size_list) (metis filter_map length_map map_nth comp_apply filter_cong)

lemma draw_entries_ok:
  assumes "darr_ok (entries wl)" "0 \<le> view_offs wl" "view_offs wl + int (i + n) \<le> int (darr_size (entries wl))"
  shows "\<exists>cmds. draw_entries wl x y maxlen i n = Inr cmds"
  using assms(3)
proof (induction n arbitrary: i y)
  case (Suc n)
  have "\<exists>e. darr_get (entries wl) (int i + view_offs wl) = Inr e"
    using Suc.prems assms(1,2) darr_get_list [of "entries wl" "int i + view_offs wl"]
    by (auto simp: darr_size_list)
  with Suc.IH [of "Suc i" "y + 1"] Suc.prems show ?case by auto
qed simp

lemma draw_list_ok:
  assumes "list_wf wl" "cursor_ok wl"
  shows "\<exists>cmds. draw_list_at wl xy = Inr cmds"
proof -
  define num where "num = (if int (darr_size (entries wl)) > w_height wl - 2 then nat (w_height wl - 2)
    else darr_size (entries wl))"
  have "\<exists>rows. draw_entries wl (fst xy + 1) (snd xy) (nat (w_width wl - 2)) 0 num = Inr rows"
    using assms by (intro draw_entries_ok) (auto simp: num_def list_defs)
  then show ?thesis by (auto simp: draw_list_at_def num_def [symmetric] Let_def)
qed

section \<open>Navigation\<close>

text \<open>The calls that the keys make in \<open>keypress\<close> (\<open>src/main.c\<close>), with the tests it makes before them.\<close>

inductive list_step :: "tui_list \<Rightarrow> tui_list \<Rightarrow> bool" where
  s_next: "tui_list_cur_next w = Inr (w', r) \<Longrightarrow> list_step w w'"
| s_prev: "tui_list_cur_prev w = Inr (w', r) \<Longrightarrow> list_step w w'"
| s_start: "tui_list_cur_start w = Inr (w', r) \<Longrightarrow> list_step w w'"
| s_end: "tui_list_cur_end w = Inr (w', r) \<Longrightarrow> list_step w w'"
| s_set: "0 \<le> idx \<Longrightarrow> tui_list_setcur idx w = Inr (w', r) \<Longrightarrow> list_step w w'"
| s_toggle: "cur w \<noteq> -1 \<Longrightarrow> tui_list_toggle_sel (cur w) w = Inr (w', b) \<Longrightarrow> list_step w w'"

inductive_cases list_stepE: "list_step w w'"

text \<open>What holds between the moves: in a list without entries the cursor may be on the missing first one.\<close>

definition nav_ok :: "tui_list \<Rightarrow> bool" where
  "nav_ok w \<longleftrightarrow> list_wf w \<and> num_sel w = sel_count w
     \<and> (if darr_size (entries w) = 0 then cells (entries w) = [] \<and> cur w \<in> {-1, 0} \<and> view_offs w = 0 else cursor_ok w)"

lemma nav_ok_list: "0 < darr_size (entries w) \<Longrightarrow> nav_ok w \<longleftrightarrow> list_ok w"
  by (auto simp: nav_ok_def list_ok_def)

lemma list_ok_nav: "list_ok w \<Longrightarrow> (darr_size (entries w) = 0 \<Longrightarrow> cells (entries w) = []) \<Longrightarrow> nav_ok w"
  by (auto simp: nav_ok_def list_ok_def cursor_ok_def)

abbreviation item_texts :: "tui_list \<Rightarrow> string list" where
  "item_texts w \<equiv> map e_text (darr_list (entries w))"

lemma toggle_texts:
  assumes "list_ok w" "0 \<le> idx" "idx < int (darr_size (entries w))" "tui_list_toggle_sel idx w = Inr (w', b)"
  shows "list_ok w'" "item_texts w' = item_texts w"
proof -
  let ?l = "darr_list (entries w)"
  obtain w1 b1 where t: "tui_list_toggle_sel idx w = Inr (w1, b1)" "list_ok w1"
    "darr_list (entries w1) = ?l[nat idx := (?l ! nat idx)\<lparr>e_sel := b1\<rparr>]"
    using toggle_ok [OF assms(1-3)] by blast
  have "nat idx < length ?l" using assms(1-3) by (simp add: list_ok_def list_wf_def darr_size_list [symmetric])
  then have "map e_text (?l[nat idx := (?l ! nat idx)\<lparr>e_sel := b1\<rparr>]) = map e_text ?l"
    by (simp add: map_update list_update_same_conv)
  then show "list_ok w'" "item_texts w' = item_texts w" using t assms(4) by simp_all
qed

lemma missing_entry: "nav_ok w \<Longrightarrow> darr_size (entries w) = 0 \<Longrightarrow> tui_list_toggle_sel idx w = Inl Overread"
  by (auto simp: nav_ok_def tui_list_toggle_sel_def as_list_def list_wf_def darr_get_def)

lemma list_step_nav:
  assumes "list_step w w'" "nav_ok w"
  shows "nav_ok w' \<and> item_texts w' = item_texts w"
proof (cases "0 < darr_size (entries w)")
  case True
  then have ok: "list_ok w" using assms(2) by (simp add: nav_ok_list)
  have keep: "nav_ok u \<and> item_texts u = item_texts w" if "list_ok u" "entries u = entries w" for u
    using that True by (simp add: nav_ok_list)
  show ?thesis
    using assms(1)
  proof (cases rule: list_step.cases)
    case (s_toggle b)
    then have "0 \<le> cur w" "cur w < int (darr_size (entries w))" using ok by (auto simp: list_ok_def cursor_ok_def)
    from toggle_texts [OF ok this s_toggle(2)]
    have t: "list_ok w'" "item_texts w' = item_texts w" .
    then have "length (darr_list (entries w')) = length (darr_list (entries w))" by (metis length_map)
    then have "0 < darr_size (entries w')" using t(1) ok True by (simp add: darr_size_list list_ok_def list_wf_def)
    with t show ?thesis by (simp add: nav_ok_list)
  qed (use keep setcur_ok [OF ok] cur_next_ok [OF ok] cur_prev_ok [OF ok] cur_start_ok [OF ok True] cur_end_ok [OF ok] in
      \<open>force+\<close>)
next
  case False
  then have n: "darr_size (entries w) = 0" by simp
  have keep: "nav_ok u \<and> item_texts u = item_texts w"
    if "list_wf u" "num_sel u = num_sel w" "entries u = entries w" "cur u \<in> {-1, 0}" "view_offs u = 0" for u
    using that assms(2) n by (simp add: nav_ok_def sel_count_def)
  have w: "w_type w = TUI_LIST" "list_wf w" "cur w \<in> {-1, 0}" "view_offs w = 0" "2 < w_height w"
    using assms(2) n by (simp_all add: nav_ok_def list_wf_def)
  have "list_wf w' \<and> num_sel w' = num_sel w \<and> entries w' = entries w \<and> cur w' \<in> {-1, 0} \<and> view_offs w' = 0"
    using assms(1)
  proof (cases rule: list_step.cases)
    case (s_toggle b)
    then show ?thesis using missing_entry [OF assms(2) n] by simp
  qed (use w n in \<open>auto simp: tui_list_cur_next_def tui_list_cur_prev_def tui_list_cur_start_def tui_list_cur_end_def
      tui_list_setcur_def as_list_def VISLINES_def Let_def list_wf_def split: if_splits\<close>)
  then show ?thesis using keep by blast
qed

lemma list_steps_nav:
  "list_step\<^sup>*\<^sup>* w w' \<Longrightarrow> nav_ok w \<Longrightarrow> nav_ok w' \<and> item_texts w' = item_texts w"
  by (induction rule: rtranclp_induct) (use list_step_nav in auto)

lemma nav_draw:
  assumes "nav_ok w"
  shows "\<exists>cmds. draw_list_at w xy = Inr cmds"
proof (cases "darr_size (entries w) = 0")
  case True
  then show ?thesis using assms by (auto simp: draw_list_at_def nav_ok_def list_wf_def)
next
  case False
  then show ?thesis using assms by (intro draw_list_ok) (auto simp: nav_ok_def)
qed

text \<open>No call of a key fails in a list with entries.\<close>

definition keys_work :: "tui_list \<Rightarrow> bool" where
  "keys_work w \<longleftrightarrow> safeE {} (\<lambda>_. True) (tui_list_cur_next w) \<and> safeE {} (\<lambda>_. True) (tui_list_cur_prev w)
     \<and> safeE {} (\<lambda>_. True) (tui_list_cur_start w) \<and> safeE {} (\<lambda>_. True) (tui_list_cur_end w)
     \<and> (\<forall>idx. safeE {} (\<lambda>_. True) (tui_list_setcur idx w))
     \<and> (cur w \<noteq> -1 \<longrightarrow> safeE {} (\<lambda>_. True) (tui_list_toggle_sel (cur w) w))"

lemma list_ok_keys: "list_ok w \<Longrightarrow> keys_work w"
proof -
  assume ok: "list_ok w"
  have "safeE {} (\<lambda>_. True) (tui_list_toggle_sel (cur w) w)" if "cur w \<noteq> -1"
    using toggle_ok [OF ok, of "cur w"] ok that by (auto simp: list_ok_def cursor_ok_def)
  moreover have "w_type w = TUI_LIST" using ok by (simp add: list_ok_def list_wf_def)
  ultimately show ?thesis
    by (simp add: keys_work_def tui_list_cur_next_def tui_list_cur_prev_def tui_list_cur_start_def tui_list_cur_end_def
        tui_list_setcur_def as_list_def Let_def)
qed

section \<open>A list on the screen\<close>

text \<open>
  What holds for the lists of the program at all times, also right after a refresh with an empty
  directory, when the cursor may stand behind the last entry.
\<close>

definition list_slots :: "ptr list" where
  "list_slots = no_slots[TUI_DRAW := PDraw_list, TUI_FREE := PFree_list]"

text \<open>The list lies on a screen of 80 by 25 cells and has room for its frame.\<close>

definition in_frame :: "tui_list \<Rightarrow> bool" where
  "in_frame w \<longleftrightarrow> 0 \<le> w_x w \<and> w_x w + w_width w \<le> 80 \<and> 0 \<le> w_y w \<and> w_y w + w_height w \<le> 25 \<and> 2 \<le> w_width w"

definition list_ui :: "tui_list \<Rightarrow> bool" where
  "list_ui w \<longleftrightarrow> list_wf w \<and> in_frame w \<and> w_slots w = list_slots \<and> w_title w \<noteq> None
     \<and> -1 \<le> cur w \<and> 0 \<le> view_offs w
     \<and> (if cur w = -1 then view_offs w = 0 else view_offs w \<le> cur w)
     \<and> (0 < darr_size (entries w) \<longrightarrow> cursor_ok w)"

lemma list_slots_simps [simp]:
  "length list_slots = 9" "list_slots ! 0 = PNull" "list_slots ! Suc 0 = PNull" "list_slots ! 2 = PNull"
  "list_slots ! 3 = PDraw_list" "list_slots ! PAR = PNull" "list_slots ! CHILD = PNull"
  by (simp_all add: list_slots_def no_slots_def numeral_eq_Suc)

lemma list_ui_call [simp]: "list_ui (tui_call_callback t w) \<longleftrightarrow> list_ui w"
  by (simp add: tui_call_callback_def list_ui_def in_frame_def list_wf_def cursor_ok_def VISLINES_def)

lemma list_ui_new: "2 < h \<Longrightarrow> 0 \<le> x \<Longrightarrow> x + w \<le> 80 \<Longrightarrow> 0 \<le> y \<Longrightarrow> y + h \<le> 25 \<Longrightarrow> 2 \<le> w \<Longrightarrow>
    list_ui (tui_list_new t x y w h PNull PNull)"
  by (simp add: tui_list_new_def list_ui_def in_frame_def list_wf_def Let_def tui_widget_def widget.defs
      tui_set_callback_def list_slots_def no_slots_def darr_alloc_def darr_size_def darr_ok_def darr_wf_def)
    (simp add: numeral_eq_Suc)

lemma list_ui_frame [simp]:
  "list_ui (w\<lparr>w_dirty := d\<rparr>) \<longleftrightarrow> list_ui w" "list_ui (w\<lparr>num_sel := n\<rparr>) \<longleftrightarrow> list_ui w"
  by (simp_all add: list_ui_def in_frame_def list_wf_def cursor_ok_def VISLINES_def)

lemma list_ui_misc [simp]:
  "list_ui w \<Longrightarrow> list_ui (tui_invalidate w)" "list_ui w \<Longrightarrow> list_ui (tui_focus b w)"
  "list_ui w \<Longrightarrow> list_ui (tui_set_title t w)"
  by (auto simp: list_ui_def in_frame_def list_wf_def cursor_ok_def VISLINES_def tui_invalidate_def tui_focus_def
      tui_set_title_def tui_call_callback_def)

lemma list_ui_list_wf: "list_ui w \<Longrightarrow> list_wf w"
  by (simp add: list_ui_def in_frame_def)

lemma ui_prev: "list_ui w \<Longrightarrow> safeE {} (\<lambda>(w', r). list_ui w') (tui_list_cur_prev w)"
  by (auto simp: tui_list_cur_prev_def as_list_def list_ui_def in_frame_def list_wf_def cursor_ok_def VISLINES_def Let_def
      tui_call_callback_def)

lemma ui_next: "list_ui w \<Longrightarrow> safeE {} (\<lambda>(w', r). list_ui w') (tui_list_cur_next w)"
  by (auto simp: tui_list_cur_next_def as_list_def list_ui_def in_frame_def list_wf_def cursor_ok_def VISLINES_def Let_def
      tui_call_callback_def)

lemma ui_start: "list_ui w \<Longrightarrow> safeE {} (\<lambda>(w', r). list_ui w') (tui_list_cur_start w)"
  by (auto simp: tui_list_cur_start_def as_list_def list_ui_def in_frame_def list_wf_def cursor_ok_def VISLINES_def Let_def
      tui_call_callback_def)

lemma ui_end: "list_ui w \<Longrightarrow> safeE {} (\<lambda>(w', r). list_ui w') (tui_list_cur_end w)"
  by (auto simp: tui_list_cur_end_def as_list_def list_ui_def in_frame_def list_wf_def cursor_ok_def VISLINES_def Let_def
      tui_call_callback_def)

lemma ui_setcur:
  assumes w: "list_ui w" and "0 \<le> idx"
  shows "safeE {} (\<lambda>(w', r). list_ui w') (tui_list_setcur idx w)"
proof (cases "idx \<noteq> cur w \<and> idx < int (darr_size (entries w))")
  case True
  have v: "0 < VISLINES w" and c: "cursor_ok w" using w True assms(2) by (simp_all add: list_ui_def in_frame_def list_wf_def VISLINES_def)
  show ?thesis
    using w c assms(2) True centered_ok [OF assms(2) _ v, of "int (darr_size (entries w))"]
    by (simp add: setcur_centered list_ui_def in_frame_def list_wf_def cursor_ok_def VISLINES_def)
next
  case False
  then show ?thesis
    using assms by (auto simp: tui_list_setcur_def as_list_def list_ui_def in_frame_def list_wf_def)
qed

lemma darr_set_any: "darr_ok d \<Longrightarrow> darr_ok (d\<lparr>cells := (cells d)[i := Some x]\<rparr>)"
  using darr_set_ok [of d i x] by (cases "i < nelem d") (simp_all add: darr_ok_def darr_wf_def)

lemma ui_toggle: "list_ui w \<Longrightarrow> safeE {Overread} (\<lambda>(w', r). list_ui w') (tui_list_toggle_sel idx w)"
proof -
  assume w: "list_ui w"
  then have "w_type w = TUI_LIST" and ok: "darr_ok (entries w)" by (simp_all add: list_ui_def in_frame_def list_wf_def)
  moreover have "list_ui (w\<lparr>entries := (entries w)\<lparr>cells := (cells (entries w))[i := Some x]\<rparr>\<rparr>)" for i x
    using w darr_set_any [OF ok, of i x]
    by (cases "cur w = -1") (simp_all add: list_ui_def in_frame_def list_wf_def cursor_ok_def VISLINES_def darr_size_def)
  moreover have "safeE {Overread} (\<lambda>_. True) (darr_get (entries w) idx)"
    by (simp add: darr_get_def split: option.split)
  ultimately show ?thesis
    by (cases "darr_get (entries w) idx") (auto simp: tui_list_toggle_sel_def as_list_def Let_def)
qed

lemma ui_draw_ok: "list_ui w \<Longrightarrow> \<exists>cmds. draw_list_at w xy = Inr cmds"
proof (cases "0 < darr_size (entries w)")
  case False
  then show "list_ui w \<Longrightarrow> ?thesis" by (auto simp: draw_list_at_def list_ui_def in_frame_def list_wf_def)
qed (auto simp: list_ui_def in_frame_def intro: draw_list_ok)

end
