(* ===== verification/Client.thy ===== *)
theory Client
  imports Ftp_Inv Viewer Tui_List
begin

text \<open>
  The program around the engine, \<open>src/main.c\<close>: the local directory, the completion callbacks of
  transfers, the actions bound to keys, the refresh of the screen and the main loop. The record
  \<open>client\<close> holds the static variables of the file and is the state \<open>app\<close> of the engine's client.
  As in \<open>Ftp\<close>, the answers of the operating system come from scripts, and the calls that change the
  file system are recorded in \<open>c_out\<close>.

  The interpretation \<open>visftp\<close> of the locale \<open>ftp_client\<close> shows that the callbacks of this file are what
  the engine relies on.
\<close>

section \<open>State\<close>

record server =
  srv_name :: string
  srv_host :: string
  srv_user :: "string option"
  srv_pass :: "string option"
  srv_dir :: "string option"

record options =
  opt_host :: string
  opt_port :: int
  opt_user :: "string option"
  opt_pass :: "string option"

datatype file_ev = FOpen string nat | FRemove string | FChdir string

text \<open>
  \<open>dir_in\<close>: for each \<open>opendir\<close> the names that \<open>readdir\<close> will give, with what \<open>stat\<close> says of them
  (whether it is a directory, and the size). \<open>read_in\<close>: the contents of the local files that will be
  opened for reading.
\<close>

record client =
  c_opts :: options
  c_srvlist :: "server darr option"
  c_uilist :: "nat \<Rightarrow> tui_list"
  c_focus :: nat
  c_dirty :: "32 word"
  c_curdir :: string
  c_localdir :: "ftp_dirent darr"
  c_local_modified :: bool
  c_cur_xfer :: "nat option"
  c_viewer :: viewer
  c_prev_status :: conn_status
  c_prev_xfer :: "nat option"
  c_next_xfer :: nat
  c_next_file :: nat
  dir_in :: "(string \<times> (bool \<times> int) option) list option list"
  chdir_in :: "bool list"
  cwd_in :: "string list"
  fopen_in :: "bool list"
  read_in :: "string option list"
  c_out :: "file_ev list"

type_synonym cs = "client sys"

abbreviation on_app :: "(client \<Rightarrow> client) \<Rightarrow> cs \<Rightarrow> cs" where
  "on_app f s \<equiv> s\<lparr>app := f (app s)\<rparr>"

definition M_UI_STATUS :: "32 word" where
  "M_UI_STATUS = 1"

definition M_UI_XFER :: "32 word" where
  "M_UI_XFER = 2"

definition M_UI_CONLINE :: "32 word" where
  "M_UI_CONLINE = 4"

definition M_UI_BUTTONS :: "32 word" where
  "M_UI_BUTTONS = 8"

section \<open>The local directory\<close>

definition local_entry :: "string \<times> (bool \<times> int) option \<Rightarrow> ftp_dirent" where
  "local_entry d =
     (case snd d of
        Some (isdir, sz) \<Rightarrow>
          \<lparr>de_name = fst d, de_type = if isdir then FTP_DIR else FTP_FILE, de_size = Some sz\<rparr>
      | None \<Rightarrow> \<lparr>de_name = fst d, de_type = FTP_FILE, de_size = Some 0\<rparr>)"

fun read_entries :: "(string \<times> (bool \<times> int) option) list \<Rightarrow> ftp_dirent darr \<Rightarrow> ftp_dirent darr" where
  "read_entries [] d = d"
| "read_entries (e # es) d =
     read_entries es (if strcmp (fst e) ''.'' = 0 then d else darr_push d (local_entry e))"

definition update_localdir :: "cs \<Rightarrow> cs \<times> int" where
  "update_localdir s =
     (case next_ans None (dir_in (app s)) of
        (None, r) \<Rightarrow>
          (emit (OLog Err ''failed to open directory: %s'' [c_curdir (app s)])
             (on_app (\<lambda>a. a\<lparr>dir_in := r\<rparr>) s), -1)
      | (Some ents, r) \<Rightarrow>
          (on_app (\<lambda>a. a\<lparr>dir_in := r,
             c_localdir := darr_qsort ftp_direntcmp (read_entries ents (darr_clear (c_localdir a))),
             c_local_modified := True\<rparr>) s, 0))"

text \<open>\<open>chdir\<close> and what follows it when it succeeds.\<close>

definition local_chdir :: "string \<Rightarrow> cs \<Rightarrow> cs \<times> bool" where
  "local_chdir dir s =
     (case next_ans False (chdir_in (app s)) of
        (False, r) \<Rightarrow> (on_app (\<lambda>a. a\<lparr>chdir_in := r\<rparr>) s, False)
      | (True, r) \<Rightarrow>
          (case next_ans [] (cwd_in (app s)) of (cwd, r') \<Rightarrow>
             (fst (update_localdir (on_app (\<lambda>a. a\<lparr>chdir_in := r, cwd_in := r', c_curdir := cwd,
                c_out := c_out a @ [FChdir dir]\<rparr>) s)), True)))"

section \<open>Callbacks\<close>

definition act_redraw :: "cs \<Rightarrow> cs" where
  "act_redraw s =
     on_app (\<lambda>a. a\<lparr>c_uilist := (c_uilist a)(0 := tui_invalidate (c_uilist a 0),
                                            1 := tui_invalidate (c_uilist a 1)),
                 c_dirty := 0xffff\<rparr>) s"

definition xfer_done :: "nat \<Rightarrow> cs \<Rightarrow> cs res" where
  "xfer_done i s =
     (case xfers s i of
        None \<Rightarrow> Inl UseAfterFree
      | Some x \<Rightarrow>
          let s = (case x_fp x of None \<Rightarrow> s | Some f \<Rightarrow> emit (OFclose f) s);
              s = s\<lparr>xfers := (xfers s)(i := None)\<rparr>;
              s = fst (update_localdir s)
          in Inr (on_app (\<lambda>a. a\<lparr>c_cur_xfer := None\<rparr>) s))"

definition view_done :: "nat \<Rightarrow> cs \<Rightarrow> cs res" where
  "view_done i s =
     (case xfers s i of
        None \<Rightarrow> Inl UseAfterFree
      | Some x \<Rightarrow>
          bindE (if x_count x > 0
                 then bindE (view_memopen (x_rname x) (map_option DarrMem (x_mem x)) (x_count x)
                               (Some Darr_free) (c_viewer (app s)))
                        (\<lambda>v. Inr (on_app (\<lambda>a. a\<lparr>c_viewer := v\<rparr>) s))
                 else Inr s) (\<lambda>s.
          let s = s\<lparr>xfers := (xfers s)(i := None)\<rparr>;
              s = on_app (\<lambda>a. a\<lparr>c_cur_xfer := None\<rparr>) s
          in Inr (act_redraw s)))"

definition client_done :: "client callback" where
  "client_done f i s = (case f of Xfer_done \<Rightarrow> xfer_done i s | View_done \<Rightarrow> view_done i s)"

section \<open>Invariant\<close>

text \<open>
  \<open>client_ok a D\<close>: what the variables of the program satisfy, when \<open>D\<close> are the transfers that exist.
  In particular the current transfer is one of them, and new ones get an unused address.
\<close>

definition client_ok :: "client \<Rightarrow> nat set \<Rightarrow> bool" where
  "client_ok a D \<longleftrightarrow> c_focus a < 2 \<and> darr_ok (c_localdir a) \<and> viewer_ok (c_viewer a)
     \<and> list_ui (c_uilist a 0) \<and> list_ui (c_uilist a 1)
     \<and> (\<forall>i. c_cur_xfer a = Some i \<longrightarrow> i \<in> D) \<and> (\<forall>i \<in> D. i < c_next_xfer a)"

abbreviation inv :: "cs \<Rightarrow> bool" where
  "inv \<equiv> ftp_inv client_ok"

abbreviation cstep :: "cs \<Rightarrow> cs \<Rightarrow> bool" where
  "cstep \<equiv> step_ok client_ok"

lemma read_entries_ok: "darr_ok d \<Longrightarrow> darr_ok (read_entries es d)"
  by (induction es d rule: read_entries.induct) (simp_all add: da.push_inv)

lemma update_localdir_app:
  "xfers (fst (update_localdir t)) = xfers t"
  "client_ok (app t) D \<Longrightarrow> client_ok (app (fst (update_localdir t))) D"
  by (auto simp: update_localdir_def client_ok_def read_entries_ok split: prod.split option.split)

lemma update_localdir_step: "cstep s t \<Longrightarrow> cstep s (fst (update_localdir t))"
  using step_ok_app [of client_ok s t]
  by (auto simp: update_localdir_def client_ok_def read_entries_ok split: prod.split option.split)

lemma local_chdir_step: "cstep s t \<Longrightarrow> cstep s (fst (local_chdir d t))"
proof -
  assume t: "cstep s t"
  have "cstep s (on_app (\<lambda>a. a\<lparr>chdir_in := r, cwd_in := r', c_curdir := cwd, c_out := c_out a @ [FChdir d]\<rparr>) t)" for r r' cwd
    using t step_ok_app [OF t] by (simp add: client_ok_def)
  then show ?thesis
    using t step_ok_app [OF t]
    by (auto simp: local_chdir_def client_ok_def intro: update_localdir_step split: prod.split bool.split)
qed

lemma act_redraw_step: "cstep s t \<Longrightarrow> cstep s (act_redraw t)"
  using step_ok_app [of client_ok s t] by (simp add: act_redraw_def client_ok_def)

text \<open>A transfer is freed together with the pointer \<open>cur_xfer\<close>.\<close>

lemma free_xfer_step:
  assumes t: "cstep s t"
  shows "cstep s (on_app (\<lambda>a. a\<lparr>c_cur_xfer := None\<rparr>) (t\<lparr>xfers := (xfers t)(i := None)\<rparr>))"
  using t by (auto simp: step_ok_def ftp_inv_def client_ok_def)

lemma xfer_done_safe: "cstep s t \<Longrightarrow> safe client_ok s (xfer_done i t)"
proof -
  assume t: "cstep s t"
  show ?thesis
  proof (cases "xfers t i")
    case (Some x)
    define u where "u = (case x_fp x of None \<Rightarrow> t | Some f \<Rightarrow> emit (OFclose f) t)"
    have u: "cstep s u" using t by (simp add: u_def split: option.split)
    let ?v = "u\<lparr>xfers := (xfers u)(i := None)\<rparr>"
    have swap: "on_app (\<lambda>a. a\<lparr>c_cur_xfer := None\<rparr>) (fst (update_localdir w)) =
        fst (update_localdir (on_app (\<lambda>a. a\<lparr>c_cur_xfer := None\<rparr>) w))" for w :: cs
      by (auto simp: update_localdir_def emit_def split: prod.split option.split)
    have "cstep s (on_app (\<lambda>a. a\<lparr>c_cur_xfer := None\<rparr>) (fst (update_localdir ?v)))"
      unfolding swap by (rule update_localdir_step) (rule free_xfer_step [OF u])
    then show ?thesis using Some by (simp add: xfer_done_def Let_def u_def [symmetric])
  qed (simp add: xfer_done_def)
qed

lemma view_done_safe: "cstep s t \<Longrightarrow> safe client_ok s (view_done i t)"
proof -
  assume t: "cstep s t"
  then have v: "viewer_ok (c_viewer (app t))" using step_ok_app [OF t] by (simp add: client_ok_def)
  have upd: "cstep s (on_app (\<lambda>a. a\<lparr>c_viewer := v\<rparr>) t)" if "viewer_ok v" for v
    using t step_ok_app [OF t] that by (simp add: client_ok_def)
  show ?thesis
  proof (cases "xfers t i")
    case (Some x)
    have mo: "safeE ftp_faults viewer_ok (view_memopen (x_rname x) (map_option DarrMem (x_mem x))
        (x_count x) (Some Darr_free) (c_viewer (app t)))"
      by (rule safeE_mono [OF memopen_safe [OF v]]) auto
    have "safe client_ok s (if x_count x > 0
        then bindE (view_memopen (x_rname x) (map_option DarrMem (x_mem x)) (x_count x) (Some Darr_free)
            (c_viewer (app t))) (\<lambda>v. Inr (on_app (\<lambda>a. a\<lparr>c_viewer := v\<rparr>) t))
        else Inr t)"
      using t upd by (auto intro!: safeE_bind [OF mo])
    then have "safe client_ok s (bindE (if x_count x > 0
        then bindE (view_memopen (x_rname x) (map_option DarrMem (x_mem x)) (x_count x) (Some Darr_free)
            (c_viewer (app t))) (\<lambda>v. Inr (on_app (\<lambda>a. a\<lparr>c_viewer := v\<rparr>) t))
        else Inr t) (\<lambda>s. let s = s\<lparr>xfers := (xfers s)(i := None)\<rparr>;
              s = on_app (\<lambda>a. a\<lparr>c_cur_xfer := None\<rparr>) s
          in Inr (act_redraw s)))"
      by (rule safeE_bind) (unfold Let_def safeE_Inr, intro act_redraw_step free_xfer_step)
    with Some show ?thesis by (simp only: view_done_def option.case)
  qed (simp add: view_done_def)
qed

lemma client_done_safe: "inv s \<Longrightarrow> safe client_ok s (client_done f i s)"
  by (cases f) (simp_all add: client_done_def xfer_done_safe view_done_safe)

interpretation visftp: ftp_client client_ok client_done
  by unfold_locales (rule client_done_safe)

abbreviation engine :: "client handler" where
  "engine \<equiv> ftp_handle client_done"

section \<open>Actions\<close>

text \<open>
  \<open>detect_lfn\<close>, at the start of the program on DOS, sets \<open>have_lfn\<close> (elsewhere long names are always there). \<open>drv\<close> is the
  result of \<open>_dos_getdrive\<close>, \<open>mem\<close> that of \<open>_dos_allocmem\<close>; \<open>query\<close> is the interrupt 0x71a0, which takes the root of a drive and
  returns \<open>ax\<close> and whether the carry flag is set. The second result is what is logged.
\<close>

definition lfn_request :: "nat \<Rightarrow> string" where
  "lfn_request drv = char_of (65 + drv) # CHR '':'' # [CHR 0x5c]"

definition detect_lfn ::
  "(string \<Rightarrow> 16 word \<times> bool) \<Rightarrow> nat \<Rightarrow> bool \<Rightarrow> bool \<Rightarrow> bool \<times> (log_level \<times> string) list" where
  "detect_lfn query drv mem have_lfn =
     (if \<not> mem then (have_lfn, [])
      else
        case query (lfn_request drv) of
          (ax, carry) \<Rightarrow>
            if ax \<noteq> 0x7100 \<and> \<not> carry then (True, [(Info, ''long filenames available'' @ [LF])])
            else (have_lfn, [(Info, ''long filenames not available, will truncate as needed'' @ [LF])]))"

text \<open>
  \<open>fixname\<close>: \<open>lfn\<close> tells whether long names are available, as they always are outside DOS. Without
  them the suffix after the last dot is cut to three characters and the rest to eight.
\<close>

definition fixname :: "bool \<Rightarrow> string \<Rightarrow> string" where
  "fixname lfn src =
     (if lfn then src
      else if CHR ''.'' \<in> set src
      then
        let suffix = rev (takeWhile (\<lambda>c. c \<noteq> CHR ''.'') (rev src));
            dest = rev (tl (dropWhile (\<lambda>c. c \<noteq> CHR ''.'') (rev src)));
            suffix = (if length suffix > 3 then take 3 suffix else suffix);
            dest = (if length dest > 8 then take 8 dest else dest)
        in dest @ CHR ''.'' # suffix
      else if length src > 8 then take 8 src else src)"

text \<open>An operation on the list that has the focus.\<close>

definition on_focus :: "(tui_list \<Rightarrow> (tui_list \<times> 'b) res) \<Rightarrow> cs \<Rightarrow> (cs \<times> 'b) res" where
  "on_focus f s =
     bindE (f (c_uilist (app s) (c_focus (app s)))) (\<lambda>(w, r).
     Inr (on_app (\<lambda>a. a\<lparr>c_uilist := (c_uilist a)(c_focus a := w)\<rparr>) s, r))"

definition focus_list :: "cs \<Rightarrow> tui_list" where
  "focus_list s = c_uilist (app s) (c_focus (app s))"

text \<open>\<open>entry_size\<close>: the size of a directory entry is read whether or not anything has set it.\<close>

definition entry_size :: "ftp_dirent \<Rightarrow> int res" where
  "entry_size e = (case de_size e of None \<Rightarrow> Inl Overread | Some n \<Rightarrow> Inr n)"

definition act_activate :: "cs \<Rightarrow> cs res" where
  "act_activate s =
     bindE (tui_get_list_cur (focus_list s)) (\<lambda>cur.
     if c_focus (app s) = 0
     then
       bindE (ftp_dirent_at s cur) (\<lambda>ent.
       if de_type ent = FTP_DIR
       then bindE (ftp_queue engine FTP_CHDIR (Some (de_name ent)) s) (\<lambda>(s, _). Inr s)
       else Inr s)
     else
       bindE (darr_get (c_localdir (app s)) cur) (\<lambda>ent.
       if de_type ent = FTP_DIR
       then (case local_chdir (de_name ent) s of
               (s, False) \<Rightarrow> Inr (emit (OLog Err ''failed to change directory: %s'' [de_name ent]) s)
             | (s, True) \<Rightarrow> Inr s)
       else Inr s))"

definition new_xfer :: "ftp_transfer \<Rightarrow> cs \<Rightarrow> cs" where
  "new_xfer x s =
     (let i = c_next_xfer (app s)
      in on_app (\<lambda>a. a\<lparr>c_next_xfer := Suc i, c_cur_xfer := Some i\<rparr>) (s\<lparr>xfers := (xfers s)(i \<mapsto> x)\<rparr>))"

text \<open>
  Starting the download of one remote entry. The second result is false where \<open>act_transfer\<close>
  returns at once because the file cannot be opened.
\<close>

definition start_download :: "bool \<Rightarrow> int \<Rightarrow> cs \<Rightarrow> (cs \<times> bool) res" where
  "start_download lfn sel s =
     bindE (ftp_dirent_at s sel) (\<lambda>ent.
     let lname = fixname lfn (de_name ent)
     in case next_ans False (fopen_in (app s)) of
          (False, r) \<Rightarrow>
            Inr (emit (OLog Err ''failed to open %s: %s'' [lname]) (on_app (\<lambda>a. a\<lparr>fopen_in := r\<rparr>) s),
                 False)
        | (True, r) \<Rightarrow>
            let f = c_next_file (app s);
                s = on_app (\<lambda>a. a\<lparr>fopen_in := r, c_next_file := Suc f,
                                  c_out := c_out a @ [FOpen lname f]\<rparr>) (s\<lparr>files := (files s)(f := [])\<rparr>)
            in bindE (entry_size ent) (\<lambda>n.
               let s = new_xfer \<lparr>x_op = FTP_RETR, x_rname = de_name ent, x_fp = Some f, x_mem = None,
                                 x_total = n, x_count = 0, x_done = Some Xfer_done\<rparr> s
               in bindE (ftp_queue_transfer engine (the (c_cur_xfer (app s))) s) (\<lambda>(s, _).
                  Inr (on_app (\<lambda>a. a\<lparr>c_local_modified := True\<rparr>) s, True))))"

text \<open>
  The loop over the selection. The code reads \<open>numsel\<close> elements of \<open>selv\<close>; those beyond what was
  written are not initialised.
\<close>

fun download_loop :: "bool \<Rightarrow> int list \<Rightarrow> nat \<Rightarrow> cs \<Rightarrow> cs res" where
  "download_loop lfn selv 0 s = Inr s"
| "download_loop lfn selv (Suc n) s =
     (if c_focus (app s) \<noteq> 0 then download_loop lfn selv n s
      else
        case selv of
          [] \<Rightarrow> Inl Overread
        | sel # selv' \<Rightarrow>
            bindE (start_download lfn sel s) (\<lambda>(s, go).
            if go then download_loop lfn selv' n s else Inr s))"

definition act_transfer :: "bool \<Rightarrow> cs \<Rightarrow> cs res" where
  "act_transfer lfn s =
     bindE (tui_num_list_items (focus_list s)) (\<lambda>nitems.
     bindE (tui_list_get_sel nitems (focus_list s)) (\<lambda>(selv, numsel).
     if numsel = 0
     then (if nitems = 0 then Inl Overrun
           else bindE (tui_get_list_cur (focus_list s)) (\<lambda>cur. download_loop lfn [cur] 1 s))
     else download_loop lfn selv (nat numsel) s))"

fun delete_loop :: "int list \<Rightarrow> nat \<Rightarrow> cs \<Rightarrow> cs res" where
  "delete_loop selv 0 s = Inr s"
| "delete_loop selv (Suc n) s =
     (if c_focus (app s) = 0 then delete_loop selv n s
      else
        case selv of
          [] \<Rightarrow> Inl Overread
        | sel # selv' \<Rightarrow>
            bindE (darr_get (c_localdir (app s)) sel) (\<lambda>ent.
            delete_loop selv' n
              (if de_type ent = FTP_FILE
               then on_app (\<lambda>a. a\<lparr>c_out := c_out a @ [FRemove (de_name ent)], c_local_modified := True\<rparr>)
                      (emit (OLog Info ''removing local file: %s'' [de_name ent]) s)
               else s)))"

definition act_delete :: "cs \<Rightarrow> cs res" where
  "act_delete s =
     bindE (tui_num_list_items (focus_list s)) (\<lambda>nitems.
     bindE (tui_list_get_sel nitems (focus_list s)) (\<lambda>(selv, numsel).
     bindE (if numsel = 0
            then (if nitems = 0 then Inl Overrun
                  else bindE (tui_get_list_cur (focus_list s)) (\<lambda>cur.
                       Inr (if cur \<noteq> -1 then ([cur], 1) else ([cur], 0))))
            else Inr (selv, numsel)) (\<lambda>(selv, numsel).
     bindE (delete_loop selv (nat numsel) s) (\<lambda>s.
     Inr (if c_focus (app s) = 1 \<and> numsel \<noteq> 0 then fst (update_localdir s) else s)))))"

definition act_view :: "cs \<Rightarrow> cs res" where
  "act_view s =
     bindE (tui_get_list_cur (focus_list s)) (\<lambda>cur.
     if c_focus (app s) = 0
     then
       bindE (ftp_dirent_at s cur) (\<lambda>ent.
       bindE (entry_size ent) (\<lambda>n.
       let s = new_xfer \<lparr>x_op = FTP_RETR, x_rname = de_name ent, x_fp = None,
                         x_mem = Some (darr_alloc 0 1), x_total = n, x_count = 0,
                         x_done = Some View_done\<rparr> s
       in bindE (ftp_queue_transfer engine (the (c_cur_xfer (app s))) s) (\<lambda>(s, _). Inr s)))
     else
       bindE (darr_get (c_localdir (app s)) cur) (\<lambda>ent.
       bindE (entry_size ent) (\<lambda>n.
       case sys_malloc s of
         (False, s) \<Rightarrow> Inr (emit (OLog Err ''failed to allocate file buffer (%ld bytes)'' []) s)
       | (True, s) \<Rightarrow>
           (case next_ans None (read_in (app s)) of
              (None, r) \<Rightarrow>
                Inr (emit (OLog Err ''failed to open file: %s: %s'' [de_name ent])
                       (on_app (\<lambda>a. a\<lparr>read_in := r\<rparr>) s))
            | (Some content, r) \<Rightarrow>
                let s = on_app (\<lambda>a. a\<lparr>read_in := r\<rparr>) s
                in if length content < nat n
                   then Inr (emit (OLog Err ''failed to read file: %s'' [de_name ent]) s)
                   else
                     bindE (view_memopen (de_name ent) (Some (Malloced (take (nat n) content))) n None
                              (c_viewer (app s))) (\<lambda>v.
                     Inr (act_redraw (on_app (\<lambda>a. a\<lparr>c_viewer := v\<rparr>) s)))))))"

section \<open>Keys\<close>

text \<open>\<open>keypress\<close>: the second result is the return value; \<open>-1\<close> ends the program.\<close>

definition list_key :: "int \<Rightarrow> cs \<Rightarrow> (cs \<times> int) res option" where
  "list_key key s =
     (if key = KB_UP then Some (on_focus tui_list_cur_prev s)
      else if key = KB_DOWN then Some (on_focus tui_list_cur_next s)
      else if key = KB_LEFT then Some (on_focus tui_list_cur_start s)
      else if key = KB_RIGHT then Some (on_focus tui_list_cur_end s)
      else if key = KB_PGUP
      then Some (bindE (tui_get_list_cur (focus_list s)) (\<lambda>c.
             let cur = c - 16
             in if cur < 0 then on_focus tui_list_cur_start s else on_focus (tui_list_setcur cur) s))
      else if key = KB_PGDN
      then Some (bindE (tui_get_list_cur (focus_list s)) (\<lambda>c.
             bindE (tui_num_list_items (focus_list s)) (\<lambda>n.
             let cur = c + 16
             in if cur \<ge> n then on_focus tui_list_cur_end s else on_focus (tui_list_setcur cur) s)))
      else None)"

definition ins_key :: "cs \<Rightarrow> cs res" where
  "ins_key s =
     bindE (tui_get_list_cur (focus_list s)) (\<lambda>cur.
     if cur \<noteq> -1
     then bindE (on_focus (tui_list_toggle_sel cur) s) (\<lambda>(s, _).
          bindE (on_focus tui_list_cur_next s) (\<lambda>(s, _). Inr s))
     else Inr s)"

definition tab_key :: "cs \<Rightarrow> cs" where
  "tab_key s =
     on_app (\<lambda>a.
       let a = a\<lparr>c_uilist := (c_uilist a)(c_focus a := tui_focus False (c_uilist a (c_focus a)))\<rparr>;
           a = a\<lparr>c_focus := 1 - c_focus a\<rparr>;
           a = a\<lparr>c_uilist := (c_uilist a)(c_focus a := tui_focus True (c_uilist a (c_focus a)))\<rparr>
       in a\<lparr>c_dirty := c_dirty a OR M_UI_BUTTONS\<rparr>) s"

definition back_key :: "cs \<Rightarrow> cs res" where
  "back_key s =
     (if c_focus (app s) = 0
      then bindE (ftp_queue engine FTP_CDUP None s) (\<lambda>(s, _). Inr s)
      else Inr (fst (local_chdir ''..'' s)))"

definition keypress :: "bool \<Rightarrow> int \<Rightarrow> cs \<Rightarrow> (cs \<times> int) res" where
  "keypress lfn key s =
     (if view_isopen (c_viewer (app s))
      then bindE (view_input key (c_viewer (app s))) (\<lambda>v.
           Inr (on_app (\<lambda>a. a\<lparr>c_viewer := v\<rparr>) s, 0))
      else if key = 27 \<or> key = int (ccode CHR ''q'') \<or> key = KB_F10 then Inr (s, -1)
      else if key = int (ccode CHR 0x60) then Inr (act_redraw s, 0)
      else if key = 9 then Inr (tab_key s, 0)
      else if key = KB_INS then bindE (ins_key s) (\<lambda>s. Inr (s, 0))
      else if key = 10 then bindE (act_activate s) (\<lambda>s. Inr (s, 0))
      else if key = 8 then bindE (back_key s) (\<lambda>s. Inr (s, 0))
      else if key = KB_F3 then bindE (act_view s) (\<lambda>s. Inr (s, 0))
      else if key = KB_F5 then bindE (act_transfer lfn s) (\<lambda>s. Inr (s, 0))
      else if key = KB_F8 then bindE (act_delete s) (\<lambda>s. Inr (s, 0))
      else
        case list_key key s of
          None \<Rightarrow> Inr (s, 0)
        | Some m \<Rightarrow> bindE m (\<lambda>(s, _). Inr (s, 0)))"

text \<open>\<open>proc_input\<close> with the keys that \<open>poll_input\<close> has.\<close>

fun proc_input :: "bool \<Rightarrow> int list \<Rightarrow> cs \<Rightarrow> (cs \<times> int) res" where
  "proc_input lfn [] s = Inr (s, 0)"
| "proc_input lfn (k # ks) s =
     bindE (keypress lfn k s) (\<lambda>(s, r). if r = -1 then Inr (s, -1) else proc_input lfn ks s)"

section \<open>The screen\<close>

text \<open>
  \<open>updateui\<close>, in the order of its parts. Each part gives the new state, the bits it sets in \<open>upd\<close> and
  the calls it makes to draw.
\<close>

type_synonym ui_res = "(cs \<times> 32 word \<times> draw_cmd list) res"

definition ui_status :: "cs \<Rightarrow> ui_res" where
  "ui_status s =
     (if status s \<noteq> c_prev_status (app s) \<or> c_dirty (app s) AND M_UI_STATUS \<noteq> 0
      then
        let up = (status s \<noteq> FTP_DISC)
        in Inr (on_app (\<lambda>a. a\<lparr>c_prev_status := status s\<rparr>) s, 0x8000,
             [TgFg (if up then Green else Red), TgBg Black, TgRect None 0 0 40 1 False,
              TgText 0 0 (''Srv: '' @ (if up then opt_host (c_opts (app s)) else ''-''))])
      else Inr (s, 0, []))"

definition pct_text :: "int \<Rightarrow> string" where
  "pct_text n =
     '' '' @ (if n < 10 then ''  '' else if n < 100 then '' '' else []) @ dec_str (nat n) @ ''%''"

text \<open>The product is a \<open>long\<close>, the result an \<open>int\<close>.\<close>

definition progress :: "ftp_transfer \<Rightarrow> string" where
  "progress x =
     (if x_total x = 0 then '' ???%''
      else
        let p = int32 (cdiv (int64 (100 * x_count x)) (x_total x));
            p = (if p < 0 then 0 else p);
            p = (if p > 100 then 100 else p)
        in pct_text p)"

definition ui_xfer :: "cs \<Rightarrow> ui_res" where
  "ui_xfer s =
     bindE (case c_cur_xfer (app s) of
              Some i \<Rightarrow>
                (case xfers s i of
                   None \<Rightarrow> Inl UseAfterFree
                 | Some x \<Rightarrow>
                     Inr (s, 0x8000,
                       [TgArrow 40 0 (if x_op x = FTP_RETR then RArrow else LArrow) (x_rname x),
                        TgText 75 0 (progress x)]))
            | None \<Rightarrow>
                if c_prev_xfer (app s) \<noteq> None \<or> c_dirty (app s) AND M_UI_XFER \<noteq> 0
                then Inr (s, 0x8000, [TgRect None 40 0 40 1 False])
                else Inr (s, 0, []))
       (\<lambda>(s, u, d). Inr (on_app (\<lambda>a. a\<lparr>c_prev_xfer := c_cur_xfer a\<rparr>) s, u, [TgFg White, TgBg Black] @ d))"

text \<open>The text of a list item; a directory goes through \<open>sprintf\<close> into 128 bytes.\<close>

definition item_text :: "ftp_dirent \<Rightarrow> string res" where
  "item_text e =
     (if de_type e = FTP_DIR
      then (if length (de_name e) + 2 > 128 then Inl Overrun else Inr (de_name e @ ''/''))
      else Inr (de_name e))"

fun fill_list :: "ftp_dirent darr \<Rightarrow> nat \<Rightarrow> nat \<Rightarrow> tui_list \<Rightarrow> tui_list res" where
  "fill_list d i 0 w = Inr w"
| "fill_list d i (Suc n) w =
     bindE (darr_get d (int i)) (\<lambda>e.
     bindE (item_text e) (\<lambda>txt.
     bindE (tui_add_list_item txt w) (fill_list d (Suc i) n)))"

definition show_dir :: "ftp_dirent darr \<Rightarrow> tui_list \<Rightarrow> tui_list res" where
  "show_dir d w =
     bindE (tui_clear_list w) (\<lambda>w.
     bindE (fill_list d 0 (darr_size d) w) (\<lambda>w.
     bindE (tui_list_setcur 0 w) (\<lambda>(w, _). Inr w)))"

definition set_list :: "nat \<Rightarrow> tui_list \<Rightarrow> cs \<Rightarrow> cs" where
  "set_list i w s = on_app (\<lambda>a. a\<lparr>c_uilist := (c_uilist a)(i := w)\<rparr>) s"

definition title_differs :: "tui_list \<Rightarrow> string \<Rightarrow> bool res" where
  "title_differs w t = (case tui_get_title w of None \<Rightarrow> Inl NullDeref | Some u \<Rightarrow> Inr (strcmp u t \<noteq> 0))"

definition ui_remote :: "cs \<Rightarrow> ui_res" where
  "ui_remote s =
     bindE (case ftp_curdir s of
              None \<Rightarrow> Inr (s, 0)
            | Some remdir \<Rightarrow>
                bindE (title_differs (c_uilist (app s) 0) remdir) (\<lambda>differ.
                if differ then Inr (set_list 0 (tui_set_title remdir (c_uilist (app s) 0)) s, 1)
                else Inr (s, 0))) (\<lambda>(s, u).
     if modified s AND FTP_MOD_DIR \<noteq> 0
     then bindE (show_dir (dirent s) (c_uilist (app s) 0)) (\<lambda>w.
          Inr ((set_list 0 w s)\<lparr>modified := modified s AND NOT FTP_MOD_DIR\<rparr>, u OR 1, []))
     else Inr (s, u, []))"

definition ui_local :: "cs \<Rightarrow> ui_res" where
  "ui_local s =
     bindE (if c_local_modified (app s) then Inr True
            else title_differs (c_uilist (app s) 1) (c_curdir (app s))) (\<lambda>refresh.
     if refresh
     then bindE (show_dir (c_localdir (app s)) (c_uilist (app s) 1)) (\<lambda>w.
          let s = set_list 1 (tui_set_title (c_curdir (app s)) w) s
          in Inr (on_app (\<lambda>a. a\<lparr>c_local_modified := False\<rparr>) s, 2, []))
     else Inr (s, 0, []))"

text \<open>The two lists as the widgets at the addresses 0 and 1; they have no parents and no children.\<close>

definition ui_store :: "cs \<Rightarrow> nat \<Rightarrow> tui_list option" where
  "ui_store s = (\<lambda>i. if i < 2 then Some (c_uilist (app s) i) else None)"

definition draw_widget :: "nat \<Rightarrow> cs \<Rightarrow> (cs \<times> draw_cmd list) res" where
  "draw_widget i s =
     bindE (tui_draw (draw_list 2) 2 i (ui_store s)) (\<lambda>(m, d).
     Inr (case m i of None \<Rightarrow> s | Some w \<Rightarrow> set_list i w s, d))"

definition ui_draw :: "nat \<Rightarrow> 32 word \<Rightarrow> 32 word \<Rightarrow> cs \<Rightarrow> ui_res" where
  "ui_draw i b upd s =
     (if tui_isdirty (c_uilist (app s) i) \<or> upd AND b \<noteq> 0
      then bindE (draw_widget i s) (\<lambda>(s, d). Inr (s, 0, d))
      else Inr (s, 0, []))"

definition main_bntext :: "string list" where
  "main_bntext = [''Help  '', ''      '', ''View  '', ''      '', ''Downld'',
     ''      '', ''Mkdir '', ''Delete'', ''PullDn'', ''Quit  '']"

definition ui_bars :: "cs \<Rightarrow> ui_res" where
  "ui_bars s =
     (let conline = (c_dirty (app s) AND M_UI_CONLINE \<noteq> 0);
          buttons = (c_dirty (app s) AND M_UI_BUTTONS \<noteq> 0);
          labels = (if c_focus (app s) = 1 then main_bntext[4 := ''Upload''] else main_bntext)
      in Inr (s, if conline \<or> buttons then 1 else 0,
           (if conline then [TgBg Black, TgFg White, TgRect None 0 22 80 1 False] else [])
           @ (if buttons then draw_buttons 0 0 labels else [])))"

definition updateui :: "cs \<Rightarrow> (cs \<times> draw_cmd list) res" where
  "updateui s =
     bindE (ui_status s) (\<lambda>(s, u1, d1).
     bindE (ui_xfer s) (\<lambda>(s, u2, d2).
     bindE (ui_remote s) (\<lambda>(s, u3, d3).
     bindE (ui_local s) (\<lambda>(s, u4, d4).
     let upd = u1 OR u2 OR u3 OR u4 in
     bindE (ui_draw 0 1 upd s) (\<lambda>(s, _, d5).
     bindE (ui_draw 1 2 upd s) (\<lambda>(s, _, d6).
     bindE (ui_bars s) (\<lambda>(s, u7, d7).
     let upd = (if u7 \<noteq> 0 then 1 else upd);
         d = d1 @ d2 @ d3 @ d4 @ d5 @ d6 @ d7
     in if upd \<noteq> 0 then Inr (on_app (\<lambda>a. a\<lparr>c_dirty := 0\<rparr>) s, d @ [TgRedraw])
        else Inr (s, d))))))))"

section \<open>The program\<close>

subsection \<open>Arguments\<close>

definition parse_host :: "string \<Rightarrow> options \<Rightarrow> options" where
  "parse_host str opts =
     (case strchr str CHR ''@'' of
        Some p \<Rightarrow>
          let str' = takeWhile (\<lambda>c. c \<noteq> CHR ''@'') str
          in (case strchr str' CHR '':'' of
                Some q \<Rightarrow> opts\<lparr>opt_host := tl p, opt_user := Some (takeWhile (\<lambda>c. c \<noteq> CHR '':'') str'),
                            opt_pass := Some (tl q)\<rparr>
              | None \<Rightarrow> opts\<lparr>opt_host := tl p, opt_user := Some str', opt_pass := None\<rparr>)
      | None \<Rightarrow> opts\<lparr>opt_host := str, opt_user := None, opt_pass := None\<rparr>)"

text \<open>
  \<open>parse_args\<close> ends with a value for \<open>main\<close>, with the usage text and \<open>exit (0)\<close>, or with an error.
  The test \<open>argv[i][2] != 0\<close> reads past the end of the argument \<open>-\<close>.
\<close>

datatype args_result = ArgsOk options | ArgsExit | ArgsBad

fun parse_args :: "nat \<Rightarrow> string list \<Rightarrow> options \<Rightarrow> args_result res" where
  "parse_args argidx [] opts = Inr (ArgsOk opts)"
| "parse_args argidx (a # as1) opts =
     (if a \<noteq> [] \<and> hd a = CHR ''-''
      then (if length a = 1 then Inl Overread
            else if length a > 2 then Inr ArgsBad
            else if a ! 1 = CHR ''h'' then Inr ArgsExit else Inr ArgsBad)
      else if argidx = 0 then parse_args 1 as1 (parse_host a opts)
      else if argidx = 1
      then (let n = atoi a in if n \<le> 0 then Inr ArgsBad else parse_args 2 as1 (opts\<lparr>opt_port := n\<rparr>))
      else Inr ArgsBad)"

definition default_options :: options where
  "default_options = \<lparr>opt_host = ''localhost'', opt_port = 21, opt_user = None, opt_pass = None\<rparr>"

fun find_server_from :: "server darr \<Rightarrow> string \<Rightarrow> nat \<Rightarrow> nat \<Rightarrow> server option res" where
  "find_server_from l name i 0 = Inr None"
| "find_server_from l name i (Suc n) =
     bindE (darr_get l (int i)) (\<lambda>srv.
     if strcmp (srv_name srv) name = 0 then Inr (Some srv) else find_server_from l name (Suc i) n)"

definition find_server :: "string \<Rightarrow> server darr option \<Rightarrow> server option res" where
  "find_server name srvlist =
     (case srvlist of None \<Rightarrow> Inr None | Some l \<Rightarrow> find_server_from l name 0 (darr_size l))"

subsection \<open>The main loop\<close>

text \<open>
  \<open>main\<close> up to the loop, after the arguments and the list of servers were read; \<open>None\<close> is \<open>return 1\<close>.
  The result holds the server entry that \<open>main\<close> keeps in \<open>srv\<close>.
\<close>

definition main_start :: "cs \<Rightarrow> (cs \<times> server option) option res" where
  "main_start s =
     (let s = on_app (\<lambda>a. a\<lparr>c_localdir := darr_alloc 0 12\<rparr>) s;
          s = (case next_ans [] (cwd_in (app s)) of
                 (cwd, r) \<Rightarrow> on_app (\<lambda>a. a\<lparr>cwd_in := r, c_curdir := cwd\<rparr>) s);
          s = fst (update_localdir s)
      in case ftp_alloc s of
           None \<Rightarrow> Inr None
         | Some s \<Rightarrow>
             bindE (find_server (opt_host (c_opts (app s))) (c_srvlist (app s))) (\<lambda>srv.
             let opts = c_opts (app s);
                 opts = (case srv of
                        None \<Rightarrow> opts
                      | Some v \<Rightarrow> if opt_user opts = None \<and> srv_user v \<noteq> None
                                then opts\<lparr>opt_user := srv_user v, opt_pass := srv_pass v\<rparr> else opts);
                 s = on_app (\<lambda>a. a\<lparr>c_opts := opts\<rparr>) s;
                 s = (case opt_user opts of
                        None \<Rightarrow> s
                      | Some u \<Rightarrow> ftp_auth u (case opt_pass opts of Some p \<Rightarrow> p | None \<Rightarrow> ''foobar'') s);
                 host = (case srv of None \<Rightarrow> opt_host opts | Some v \<Rightarrow> srv_host v)
             in case ftp_connect host (opt_port opts) s of
                  (s, r) \<Rightarrow>
                    if r = -1 then Inr None
                    else Inr (Some (on_app (\<lambda>a. a\<lparr>
                           c_uilist := (\<lambda>i. if i = 0
                             then tui_focus True (tui_list_new ''Remote'' 0 1 40 21 PNull PNull)
                             else tui_list_new ''Local'' 40 1 40 21 PNull PNull),
                           c_focus := 0, c_local_modified := True, c_dirty := 0xffff\<rparr>) s, srv))))"

fun handle_ready :: "int set \<Rightarrow> int list \<Rightarrow> cs \<Rightarrow> cs res" where
  "handle_ready ready [] s = Inr s"
| "handle_ready ready (fd # fds) s =
     bindE (if fd \<in> ready then engine fd s else Inr s) (handle_ready ready fds)"

text \<open>
  One round of the loop, for the keys and the ready descriptors that the round sees. \<open>ftp_sockets\<close> is
  given the size of the array in bytes. The last result is false when the loop ends.
\<close>

definition main_round ::
  "bool \<Rightarrow> int list \<Rightarrow> int set \<Rightarrow> cs \<times> server option \<Rightarrow> ((cs \<times> server option) \<times> draw_cmd list \<times> bool) res" where
  "main_round lfn keys ready st =
     (let s = fst st; srv = snd st; socks = ftp_sockets s 64
      in bindE (proc_input lfn keys s) (\<lambda>(s, r).
         if r = -1 then Inr ((ftp_free (ftp_close s), srv), [], False)
         else
           bindE (handle_ready ready socks s) (\<lambda>s.
           bindE (if view_isopen (c_viewer (app s))
                  then bindE (view_update (c_viewer (app s))) (\<lambda>(v, d).
                       Inr (on_app (\<lambda>a. a\<lparr>c_viewer := v\<rparr>) s, d))
                  else updateui s) (\<lambda>(s, d).
           case srv of
             None \<Rightarrow> Inr ((s, srv), d, True)
           | Some v \<Rightarrow>
               (case srv_dir v of
                  None \<Rightarrow> Inr ((s, srv), d, True)
                | Some dir \<Rightarrow>
                    if status s \<noteq> FTP_DISC
                    then bindE (ftp_queue engine FTP_CHDIR (Some dir) s) (\<lambda>(s, _).
                         Inr ((s, None), d, True))
                    else Inr ((s, srv), d, True))))))"

end
