(* ===== verification/Client_Inv.thy ===== *)
theory Client_Inv
  imports Client
begin

text \<open>
  The invariant of the whole program: every key, every refresh of the screen, every event of a
  socket and so every round of the main loop keeps \<open>inv\<close>, which joins the invariant of the engine with
  \<open>client_ok\<close>. A run ends with a result or with one of the faults of \<open>ftp_faults\<close>; it never follows a
  pointer of the wrong kind, never frees memory with the wrong function and never hangs.
\<close>

section \<open>Keys\<close>

lemma queue_step: "cstep s t \<Longrightarrow> safep client_ok s (ftp_queue engine op arg t)"
  using visftp.queue_safe step_ok_inv by (blast intro: safep_trans)

lemma queue_transfer_step: "cstep s t \<Longrightarrow> safep client_ok s (ftp_queue_transfer engine i t)"
  using visftp.queue_transfer_safe step_ok_inv by (blast intro: safep_trans)

lemma handle_step: "cstep s t \<Longrightarrow> safe client_ok s (engine fd t)"
  using visftp.handle_safe step_ok_inv by (blast intro: safe_trans)

lemma cstep_app: "cstep s t \<Longrightarrow> client_ok (app t) (dom (xfers t))"
  by (rule step_ok_app)

lemma focus_list_ui: "cstep s t \<Longrightarrow> list_ui (focus_list t)"
  using cstep_app [of s t] by (auto simp: focus_list_def client_ok_def less_2_cases_iff)

lemma set_list_step: "cstep s t \<Longrightarrow> list_ui w \<Longrightarrow> cstep s (on_app (\<lambda>a. a\<lparr>c_uilist := (c_uilist a)(i := w)\<rparr>) t)"
  using cstep_app [of s t] by (simp add: client_ok_def)

lemma on_focus_step:
  assumes t: "cstep s t" and f: "\<And>w. list_ui w \<Longrightarrow> safeE E (\<lambda>(w', r). list_ui w') (f w)" and e: "E \<subseteq> ftp_faults"
  shows "safep client_ok s (on_focus f t)"
  unfolding on_focus_def
proof (rule safeE_bind [where Q = "\<lambda>(w', r). list_ui w'"])
  have "safeE E (\<lambda>(w', r). list_ui w') (f (focus_list t))" using focus_list_ui [OF t] by (rule f)
  then show "safeE ftp_faults (\<lambda>(w', r). list_ui w') (f (c_uilist (app t) (c_focus (app t))))"
    unfolding focus_list_def by (rule safeE_mono) (use e in auto)
qed (auto intro: set_list_step [OF t])

lemmas nav_steps =
  on_focus_step [OF _ ui_prev, simplified] on_focus_step [OF _ ui_next, simplified]
  on_focus_step [OF _ ui_start, simplified] on_focus_step [OF _ ui_end, simplified]

lemma setcur_step: "cstep s t \<Longrightarrow> 0 \<le> i \<Longrightarrow> safep client_ok s (on_focus (tui_list_setcur i) t)"
  by (erule on_focus_step [where E = "{}"]) (simp_all add: ui_setcur)

lemma toggle_step: "cstep s t \<Longrightarrow> safep client_ok s (on_focus (tui_list_toggle_sel i) t)"
  by (erule on_focus_step [where E = "{Overread}"]) (simp_all add: ui_toggle)

lemma darr_get_fault: "safeE ftp_faults (\<lambda>_. True) (darr_get d i)"
  by (simp add: darr_get_def split: option.split)

lemma entry_size_fault: "safeE ftp_faults (\<lambda>_. True) (entry_size e)"
  by (simp add: entry_size_def split: option.split)

lemma list_query_fault:
  "list_ui w \<Longrightarrow> safeE ftp_faults (\<lambda>_. True) (tui_get_list_cur w)"
  "list_ui w \<Longrightarrow> safeE ftp_faults (\<lambda>_. True) (tui_num_list_items w)"
  by (simp_all add: tui_get_list_cur_def tui_num_list_items_def as_list_def list_ui_def list_wf_def)

lemma sel_loop_fault: "safeE ftp_faults (\<lambda>_. True) (sel_loop es i n m)"
  by (induction n arbitrary: i m) (auto intro!: safeE_bind [where Q = "\<lambda>_. True"] darr_get_fault)

lemma get_sel_fault: "list_ui w \<Longrightarrow> safeE ftp_faults (\<lambda>_. True) (tui_list_get_sel m w)"
  by (auto simp: tui_list_get_sel_def as_list_def list_ui_def list_wf_def
      intro!: safeE_bind [where Q = "\<lambda>_. True"] sel_loop_fault)

text \<open>Reading something, and then acting on it.\<close>

lemma read_then: "safeE ftp_faults (\<lambda>_. True) m \<Longrightarrow> (\<And>x. safeE ftp_faults P (f x)) \<Longrightarrow> safeE ftp_faults P (bindE m f)"
  by (rule safeE_bind) auto

lemma safeE_if: "(b \<Longrightarrow> safeE E P x) \<Longrightarrow> (\<not> b \<Longrightarrow> safeE E P y) \<Longrightarrow> safeE E P (if b then x else y)"
  by simp

lemma safeE_case_prod: "(\<And>a b. safeE E P (f a b)) \<Longrightarrow> safeE E P (case p of (a, b) \<Rightarrow> f a b)"
  by (cases p) simp

lemma ins_key_step: "cstep s t \<Longrightarrow> safe client_ok s (ins_key t)"
proof -
  assume t: "cstep s t"
  have "safe client_ok s (bindE (on_focus (tui_list_toggle_sel c) t) (\<lambda>(s, _).
      bindE (on_focus tui_list_cur_next s) (\<lambda>(s, _). Inr s)))" for c
    by (rule safeE_bind [OF toggle_step [OF t]])
      (auto simp: step_okp_def intro!: safeE_bind [OF nav_steps(2)])
  with t show ?thesis
    unfolding ins_key_def by (auto intro!: read_then list_query_fault focus_list_ui)
qed

lemma tab_key_step: "cstep s t \<Longrightarrow> cstep s (tab_key t)"
proof -
  assume t: "cstep s t"
  then have "client_ok (app t) (dom (xfers t))" by (rule cstep_app)
  moreover from this have "c_focus (app t) = 0 \<or> c_focus (app t) = 1" by (auto simp: client_ok_def)
  ultimately show ?thesis using t by (elim disjE) (simp_all add: tab_key_def client_ok_def)
qed

lemma back_key_step: "cstep s t \<Longrightarrow> safe client_ok s (back_key t)"
  by (auto simp: back_key_def step_okp_def intro!: safeE_bind [OF queue_step] local_chdir_step)

lemma act_activate_step: "cstep s t \<Longrightarrow> safe client_ok s (act_activate t)"
proof -
  assume t: "cstep s t"
  have r: "safe client_ok s (bindE (ftp_queue engine FTP_CHDIR a t) (\<lambda>(s, _). Inr s))" for a
    by (rule drop_result) (rule queue_step [OF t])
  have l: "safe client_ok s (case local_chdir d t of
      (s, False) \<Rightarrow> Inr (emit (OLog Err ''failed to change directory: %s'' [d]) s) | (s, True) \<Rightarrow> Inr s)" for d
    using local_chdir_step [OF t, of d] by (auto split: prod.split bool.split)
  show ?thesis
    unfolding act_activate_def ftp_dirent_at_def
    using t r l by (auto intro!: read_then list_query_fault focus_list_ui darr_get_fault)
qed

text \<open>A new transfer gets an unused address.\<close>

lemma new_xfer_step: "cstep s t \<Longrightarrow> cstep s (new_xfer x t)"
proof -
  assume t: "cstep s t"
  let ?i = "c_next_xfer (app t)"
  have "client_ok (app t) (dom (xfers t))" using t by (rule cstep_app)
  then have "client_ok (app t\<lparr>c_next_xfer := Suc ?i, c_cur_xfer := Some ?i\<rparr>) (insert ?i (dom (xfers t)))"
    by (auto simp: client_ok_def less_Suc_eq)
  with t show ?thesis by (simp add: new_xfer_def Let_def step_ok_def ftp_inv_def)
qed

lemma app_step:
  "cstep s t \<Longrightarrow> client_ok (f (app t)) (dom (xfers t)) \<Longrightarrow> cstep s (on_app f t)"
  by simp

lemma misc_app [simp]:
  "client_ok (a\<lparr>fopen_in := r\<rparr>) D \<longleftrightarrow> client_ok a D"
  "client_ok (a\<lparr>read_in := rs\<rparr>) D \<longleftrightarrow> client_ok a D"
  "client_ok (a\<lparr>c_out := e\<rparr>) D \<longleftrightarrow> client_ok a D"
  "client_ok (a\<lparr>c_next_file := n\<rparr>) D \<longleftrightarrow> client_ok a D"
  "client_ok (a\<lparr>c_local_modified := b\<rparr>) D \<longleftrightarrow> client_ok a D"
  "client_ok (a\<lparr>c_dirty := d\<rparr>) D \<longleftrightarrow> client_ok a D"
  "client_ok (a\<lparr>c_prev_status := st\<rparr>) D \<longleftrightarrow> client_ok a D"
  "client_ok (a\<lparr>c_prev_xfer := px\<rparr>) D \<longleftrightarrow> client_ok a D"
  by (simp_all add: client_ok_def)

lemma download_tail:
  assumes u: "cstep s u"
  shows "safep client_ok s (bindE (ftp_queue_transfer engine i u) (\<lambda>(s, _).
    Inr (on_app (\<lambda>a. a\<lparr>c_local_modified := True\<rparr>) s, b)))"
  by (rule safeE_bind [OF queue_transfer_step [OF u]])
    (auto simp: step_okp_def intro: cstep_app)

lemma start_download_step: "cstep s t \<Longrightarrow> safep client_ok s (start_download lfn sel t)"
proof -
  assume t: "cstep s t"
  have c: "client_ok (app t) (dom (xfers t))" using t by (rule cstep_app)
  show ?thesis
    unfolding start_download_def ftp_dirent_at_def Let_def
    by (rule read_then [OF darr_get_fault])
      (use t c in \<open>auto intro!: read_then entry_size_fault download_tail new_xfer_step app_step
        split: prod.split bool.split\<close>)
qed

lemma download_loop_step: "cstep s t \<Longrightarrow> safe client_ok s (download_loop lfn selv n t)"
proof (induction n arbitrary: selv t)
  case (Suc n)
  have "safe client_ok s (bindE (start_download lfn sel t) (\<lambda>(s, go).
      if go then download_loop lfn selv' n s else Inr s))" for sel selv'
    by (rule safeE_bind [OF start_download_step [OF Suc.prems]]) (auto simp: step_okp_def Suc.IH)
  with Suc show ?case by (auto split: list.split)
qed simp

lemma act_transfer_step: "cstep s t \<Longrightarrow> safe client_ok s (act_transfer lfn t)"
  unfolding act_transfer_def
  by (auto intro!: read_then list_query_fault get_sel_fault focus_list_ui download_loop_step
      simp del: download_loop.simps)

lemma delete_loop_step: "cstep s t \<Longrightarrow> safe client_ok s (delete_loop selv n t)"
proof (induction n arbitrary: selv t)
  case (Suc n)
  have c: "client_ok (app t) (dom (xfers t))" using Suc.prems by (rule cstep_app)
  have "cstep s (if b then on_app (\<lambda>a. a\<lparr>c_out := c_out a @ [FRemove d], c_local_modified := True\<rparr>)
      (emit (OLog Info ''removing local file: %s'' [d]) t) else t)" for b d
    using Suc.prems c by simp
  then show ?case
    using Suc.IH Suc.prems by (auto intro!: read_then darr_get_fault split: list.split)
qed simp

lemma act_delete_step: "cstep s t \<Longrightarrow> safe client_ok s (act_delete t)"
proof -
  assume t: "cstep s t"
  have loop: "safe client_ok s (bindE (delete_loop selv n t) (\<lambda>s.
      Inr (if c_focus (app s) = 1 \<and> b then fst (update_localdir s) else s)))" for selv n b
    by (rule safeE_bind [OF delete_loop_step [OF t]]) (auto intro: update_localdir_step)
  have sel: "safeE ftp_faults (\<lambda>_. True) (if numsel = 0
            then (if nitems = 0 then Inl Overrun
                  else bindE (tui_get_list_cur (focus_list t)) (\<lambda>cur.
                       Inr (if cur \<noteq> -1 then ([cur], 1) else ([cur], 0))))
            else Inr (selv, numsel))" for numsel nitems :: int and selv
    using t by (auto intro!: read_then list_query_fault focus_list_ui)
  have tail: "safe client_ok s (case r of (selv, numsel) \<Rightarrow>
      bindE (delete_loop selv (nat numsel) t) (\<lambda>s.
      Inr (if c_focus (app s) = 1 \<and> numsel \<noteq> 0 then fst (update_localdir s) else s)))" for r :: "int list \<times> int"
    by (cases r) (simp only: prod.case loop)
  have f: "list_ui (focus_list t)" using t by (rule focus_list_ui)
  show ?thesis
    unfolding act_delete_def
    by (rule read_then [OF list_query_fault(2) [OF f]], rule read_then [OF get_sel_fault [OF f]],
        rule safeE_case_prod, rule read_then [OF sel], rule tail)
qed

lemma viewer_step: "cstep s t \<Longrightarrow> viewer_ok v \<Longrightarrow> cstep s (on_app (\<lambda>a. a\<lparr>c_viewer := v\<rparr>) t)"
  using cstep_app [of s t] by (simp add: client_ok_def)

lemma cstep_viewer: "cstep s t \<Longrightarrow> viewer_ok (c_viewer (app t))"
  using cstep_app [of s t] by (simp add: client_ok_def)

lemma act_view_step: "cstep s t \<Longrightarrow> safe client_ok s (act_view t)"
proof -
  assume t: "cstep s t"
  have q: "safe client_ok s (bindE (ftp_queue_transfer engine i (new_xfer x t)) (\<lambda>(s, _). Inr s))" for i x
    by (rule drop_result) (rule queue_transfer_step [OF new_xfer_step [OF t]])
  have v: "safe client_ok s (bindE (view_memopen nm (Some (Malloced m)) n None (c_viewer (app u))) (\<lambda>v.
      Inr (act_redraw (on_app (\<lambda>a. a\<lparr>c_viewer := v\<rparr>) u))))" if "cstep s u" for nm m n u
  proof (rule safeE_bind)
    show "safeE ftp_faults viewer_ok (view_memopen nm (Some (Malloced m)) n None (c_viewer (app u)))"
      by (rule safeE_mono [OF memopen_safe [OF cstep_viewer [OF that]]]) auto
  qed (auto intro!: act_redraw_step viewer_step that)
  have local: "safe client_ok s (case sys_malloc t of
         (False, s) \<Rightarrow> Inr (emit (OLog Err ''failed to allocate file buffer (%ld bytes)'' []) s)
       | (True, s) \<Rightarrow>
           (case next_ans None (read_in (app s)) of
              (None, r) \<Rightarrow>
                Inr (emit (OLog Err ''failed to open file: %s: %s'' [nm])
                       (on_app (\<lambda>a. a\<lparr>read_in := r\<rparr>) s))
            | (Some content, r) \<Rightarrow>
                let s = on_app (\<lambda>a. a\<lparr>read_in := r\<rparr>) s
                in if length content < nat n
                   then Inr (emit (OLog Err ''failed to read file: %s'' [nm]) s)
                   else
                     bindE (view_memopen nm (Some (Malloced (take (nat n) content))) n None
                              (c_viewer (app s))) (\<lambda>v.
                     Inr (act_redraw (on_app (\<lambda>a. a\<lparr>c_viewer := v\<rparr>) s)))))" for nm n
  proof -
    obtain ok u where m: "sys_malloc t = (ok, u)" by (cases "sys_malloc t")
    then have u: "cstep s u" using t by (simp add: sys_call_pairs)
    obtain c r where n: "next_ans None (read_in (app u)) = (c, r)" by (cases "next_ans None (read_in (app u))")
    have w: "cstep s (on_app (\<lambda>a. a\<lparr>read_in := r\<rparr>) u)" using u cstep_app [OF u] by simp
    show ?thesis
      using m u n w v [OF w] by (cases ok; cases c) (simp_all add: Let_def)
  qed
  have f: "list_ui (focus_list t)" using t by (rule focus_list_ui)
  show ?thesis
    unfolding act_view_def ftp_dirent_at_def Let_def
    by (rule read_then [OF list_query_fault(1) [OF f]], rule safeE_if)
      (rule read_then [OF darr_get_fault], rule read_then [OF entry_size_fault], rule q local [unfolded Let_def])+
qed

lemma list_key_step:
  assumes t: "cstep s t"
  shows "case list_key key t of None \<Rightarrow> True | Some m \<Rightarrow> safep client_ok s m"
proof -
  have up: "safep client_ok s (bindE (tui_get_list_cur (focus_list t)) (\<lambda>c.
      let cur = c - 16
      in if cur < 0 then on_focus tui_list_cur_start t else on_focus (tui_list_setcur cur) t))"
    using t by (auto simp: Let_def intro!: read_then list_query_fault focus_list_ui nav_steps setcur_step)
  have down: "safep client_ok s (bindE (tui_get_list_cur (focus_list t)) (\<lambda>c.
      bindE (tui_num_list_items (focus_list t)) (\<lambda>n.
      let cur = c + 16
      in if cur \<ge> n then on_focus tui_list_cur_end t else on_focus (tui_list_setcur cur) t)))"
  proof (rule safeE_bind [where Q = "\<lambda>c. -1 \<le> c"])
    show "safeE ftp_faults (\<lambda>c. -1 \<le> c) (tui_get_list_cur (focus_list t))"
      using focus_list_ui [OF t] by (simp add: tui_get_list_cur_def as_list_def list_ui_def list_wf_def)
  qed (use t in \<open>auto simp: Let_def intro!: read_then list_query_fault focus_list_ui nav_steps setcur_step\<close>)
  show ?thesis
    using t up down by (simp add: list_key_def nav_steps)
qed

lemma keypress_step: "cstep s t \<Longrightarrow> safep client_ok s (keypress lfn key t)"
proof -
  assume t: "cstep s t"
  have v: "safep client_ok s (bindE (view_input key (c_viewer (app t))) (\<lambda>v. Inr (on_app (\<lambda>a. a\<lparr>c_viewer := v\<rparr>) t, 0)))"
    if "view_isopen (c_viewer (app t))"
    using view_input_safe [OF cstep_viewer [OF t] that, of key] by (auto intro: viewer_step [OF t])
  have lk: "safep client_ok s (case list_key key t of None \<Rightarrow> Inr (t, 0) | Some m \<Rightarrow> bindE m (\<lambda>(s, _). Inr (s, 0)))"
  proof (cases "list_key key t")
    case (Some m)
    then have "safep client_ok s m" using list_key_step [OF t, of key] by simp
    then have "safep client_ok s (bindE m (\<lambda>(s, _). Inr (s, 0)))"
      by (rule safeE_bind) (auto simp: step_okp_def)
    with Some show ?thesis by simp
  qed (simp add: t)
  show ?thesis
    unfolding keypress_def
    using t v lk by (auto intro!: add_result act_redraw_step tab_key_step ins_key_step act_activate_step
        back_key_step act_view_step act_transfer_step act_delete_step simp del: KB_F1_def)
qed

lemma proc_input_step: "cstep s t \<Longrightarrow> safep client_ok s (proc_input lfn keys t)"
proof (induction keys arbitrary: t)
  case (Cons k ks)
  have "safep client_ok s (bindE (keypress lfn k t) (\<lambda>(s, r). if r = -1 then Inr (s, -1) else proc_input lfn ks s))"
    by (rule safeE_bind [OF keypress_step [OF Cons.prems]]) (auto simp: step_okp_def Cons.IH)
  then show ?case by simp
qed simp

section \<open>The screen\<close>

text \<open>
  A refresh has one fault left: the text of a directory entry that does not fit its buffer. The
  transfer that is shown exists, the entries that are read are there.
\<close>

abbreviation ui_ok :: "cs \<Rightarrow> (cs \<times> 'b) res \<Rightarrow> bool" where
  "ui_ok s m \<equiv> safeE {Overrun} (\<lambda>p. cstep s (fst p)) m"

lemma ui_status_ok: "cstep s t \<Longrightarrow> ui_ok s (ui_status t)"
  using cstep_app [of s t] by (auto simp: ui_status_def Let_def)

lemma ui_xfer_ok: "cstep s t \<Longrightarrow> ui_ok s (ui_xfer t)"
proof -
  assume t: "cstep s t"
  have c: "client_ok (app t) (dom (xfers t))" using t by (rule cstep_app)
  show ?thesis
  proof (cases "c_cur_xfer (app t)")
    case (Some i)
    then obtain x where "xfers t i = Some x" using c by (auto simp: client_ok_def)
    with Some t c show ?thesis by (simp add: ui_xfer_def)
  qed (use t c in \<open>simp add: ui_xfer_def\<close>)
qed

lemma item_text_fault: "safeE {Overrun} (\<lambda>_. True) (item_text e)"
  by (simp add: item_text_def)

text \<open>\<open>fill_list\<close> and \<open>show_dir\<close> on a list of the screen.\<close>

definition fillable :: "tui_list \<Rightarrow> tui_list \<Rightarrow> bool" where
  "fillable w w' \<longleftrightarrow> list_wf w' \<and> in_frame w' \<and> cur w' = cur w \<and> view_offs w' = view_offs w
     \<and> w_slots w' = w_slots w \<and> w_title w' = w_title w"

lemma add_item_fillable: "fillable w v \<Longrightarrow> \<exists>v'. tui_add_list_item s v = Inr v' \<and> fillable w v'
    \<and> darr_size (entries v') = Suc (darr_size (entries v))"
  by (auto simp: tui_add_list_item_def as_list_def fillable_def list_wf_def in_frame_def Let_def da.push_inv da.push_list
      darr_size_list)

lemma fill_list_ok:
  assumes "darr_ok d" "i + n \<le> darr_size d" "fillable w v"
  shows "safeE {Overrun} (\<lambda>v'. fillable w v' \<and> darr_size (entries v') = darr_size (entries v) + n) (fill_list d i n v)"
  using assms(2,3)
proof (induction n arbitrary: i v)
  case (Suc n)
  have g: "darr_get d (int i) = Inr (darr_list d ! i)"
    using Suc.prems(1) assms(1) darr_get_list [of d "int i"] by (simp add: darr_size_list)
  have rest: "safeE {Overrun} (\<lambda>v'. fillable w v' \<and> darr_size (entries v') = darr_size (entries v) + Suc n)
      (bindE (tui_add_list_item tx v) (fill_list d (Suc i) n))" for tx
  proof -
    from add_item_fillable [OF Suc.prems(2), of tx] obtain v1 where v1: "tui_add_list_item tx v = Inr v1"
      "fillable w v1" "darr_size (entries v1) = Suc (darr_size (entries v))" by auto
    with Suc.IH [OF _ v1(2), of "Suc i"] Suc.prems(1) show ?thesis by simp
  qed
  from safeE_bind [OF item_text_fault, OF rest] g show ?case by simp
qed simp

lemma show_dir_ok:
  assumes w: "list_ui w" and d: "darr_ok d"
  shows "safeE {Overrun} list_ui (show_dir d w)"
proof -
  have "\<exists>v. tui_clear_list w = Inr v \<and> fillable w v \<and> darr_size (entries v) = 0"
    using w by (auto simp: tui_clear_list_def as_list_def fillable_def list_ui_def list_wf_def in_frame_def
        darr_size_list darr_list_clear)
  then obtain v where v: "tui_clear_list w = Inr v" "fillable w v" "darr_size (entries v) = 0" by blast
  have fin: "safeE {Overrun} list_ui (bindE (tui_list_setcur 0 u) (\<lambda>(w, _). Inr w))"
    if u: "fillable w u" for u
  proof (cases "darr_size (entries u) = 0")
    case True
    then have "list_ui u" using w u by (simp add: fillable_def list_ui_def)
    then have "safeE {Overrun} (\<lambda>(w', r). list_ui w') (tui_list_setcur 0 u)"
      using ui_setcur [of u 0] by (auto elim: safeE_mono)
    then show ?thesis by (rule safeE_bind) auto
  next
    case False
    have "\<exists>u' r. tui_list_setcur 0 u = Inr (u', r) \<and> list_wf u' \<and> cursor_ok u' \<and> cur u' = 0 \<and> view_offs u' = 0
        \<and> entries u' = entries u \<and> num_sel u' = num_sel u"
      using u w False by (intro setcur_zero) (auto simp: fillable_def list_ui_def split: if_splits)
    then obtain u' r where s: "tui_list_setcur 0 u = Inr (u', r)" "list_wf u'" "cursor_ok u'" "cur u' = 0" "view_offs u' = 0"
      by blast
    have "w_slots u' = w_slots u \<and> w_title u' = w_title u" "in_frame u' = in_frame u"
      using s(1) by (auto simp: tui_list_setcur_def as_list_def in_frame_def Let_def split: if_splits)
    with s u w show ?thesis by (simp add: fillable_def list_ui_def)
  qed
  have "safeE {Overrun} list_ui (bindE (fill_list d 0 (darr_size d) v) (\<lambda>w. bindE (tui_list_setcur 0 w) (\<lambda>(w, _). Inr w)))"
    by (rule safeE_bind [OF fill_list_ok [OF d _ v(2)]]) (use fin in auto)
  with v(1) show ?thesis by (simp add: show_dir_def)
qed

lemma set_list_ok: "cstep s t \<Longrightarrow> list_ui w \<Longrightarrow> cstep s (set_list i w t)"
  unfolding set_list_def by (rule set_list_step)

lemma cstep_lists: "cstep s t \<Longrightarrow> list_ui (c_uilist (app t) 0) \<and> list_ui (c_uilist (app t) 1)"
  using cstep_app [of s t] by (simp add: client_ok_def)

lemma title_differs_ok: "list_ui w \<Longrightarrow> \<exists>b. title_differs w s = Inr b"
  by (auto simp: title_differs_def tui_get_title_def list_ui_def)

lemma set_list_fields [simp]: "modified (set_list i w s) = modified s" "dirent (set_list i w s) = dirent s"
  by (simp_all add: set_list_def)

lemma ui_remote_ok: "cstep s t \<Longrightarrow> ui_ok s (ui_remote t)"
proof -
  assume t: "cstep s t"
  have l: "list_ui (c_uilist (app t) 0)" using cstep_lists [OF t] by simp
  have title: "safeE {Overrun} (\<lambda>p. cstep s (fst p)) (case ftp_curdir t of None \<Rightarrow> Inr (t, 0)
      | Some remdir \<Rightarrow>
          bindE (title_differs (c_uilist (app t) 0) remdir) (\<lambda>differ.
          if differ then Inr (set_list 0 (tui_set_title remdir (c_uilist (app t) 0)) t, 1)
          else Inr (t, 0 :: 32 word)))"
  proof (cases "ftp_curdir t")
    case (Some rd)
    from title_differs_ok [OF l, of rd] obtain b where "title_differs (c_uilist (app t) 0) rd = Inr b" ..
    with Some t l show ?thesis by (simp add: set_list_ok)
  qed (simp add: t)
  have dir: "ui_ok s (if modified u AND FTP_MOD_DIR \<noteq> 0
      then bindE (show_dir (dirent u) (c_uilist (app u) 0)) (\<lambda>w.
           Inr ((set_list 0 w u)\<lparr>modified := modified u AND NOT FTP_MOD_DIR\<rparr>, b OR 1, [] :: draw_cmd list))
      else Inr (u, b, [] :: draw_cmd list))" if u: "cstep s u" for u and b :: "32 word"
  proof -
    have "darr_ok (dirent u)" using u by (simp add: step_ok_def ftp_inv_def)
    then have "safeE {Overrun} list_ui (show_dir (dirent u) (c_uilist (app u) 0))"
      using cstep_lists [OF u] by (intro show_dir_ok) simp_all
    then have "ui_ok s (bindE (show_dir (dirent u) (c_uilist (app u) 0)) (\<lambda>w.
        Inr ((set_list 0 w u)\<lparr>modified := modified u AND NOT FTP_MOD_DIR\<rparr>, b OR 1, [] :: draw_cmd list)))"
      by (rule safeE_bind) (auto intro: set_list_ok [OF u])
    with u show ?thesis by simp
  qed
  show ?thesis
    unfolding ui_remote_def by (rule safeE_bind [OF title]) (auto intro!: dir)
qed

lemma ui_local_ok: "cstep s t \<Longrightarrow> ui_ok s (ui_local t)"
proof -
  assume t: "cstep s t"
  have l: "list_ui (c_uilist (app t) 1)" using cstep_lists [OF t] by simp
  have d: "darr_ok (c_localdir (app t))" using cstep_app [OF t] by (simp add: client_ok_def)
  have "\<exists>b. (if c_local_modified (app t) then Inr True
      else title_differs (c_uilist (app t) 1) (c_curdir (app t))) = Inr b"
    using title_differs_ok [OF l, of "c_curdir (app t)"] by (cases "c_local_modified (app t)") auto
  then obtain b where b: "(if c_local_modified (app t) then Inr True
      else title_differs (c_uilist (app t) 1) (c_curdir (app t))) = Inr b" ..
  have fin: "cstep s (on_app (\<lambda>a. a\<lparr>c_local_modified := False\<rparr>) (set_list 1 (tui_set_title nm w) t))"
    if "list_ui w" for w nm
  proof -
    have u: "cstep s (set_list 1 (tui_set_title nm w) t)" using t that by (simp add: set_list_ok)
    then show ?thesis using cstep_app [OF u] by simp
  qed
  have "ui_ok s (bindE (show_dir (c_localdir (app t)) (c_uilist (app t) 1)) (\<lambda>w.
      let s = set_list 1 (tui_set_title (c_curdir (app t)) w) t
      in Inr (on_app (\<lambda>a. a\<lparr>c_local_modified := False\<rparr>) s, 2 :: 32 word, [] :: draw_cmd list)))"
    by (rule safeE_bind [OF show_dir_ok [OF l d]]) (unfold Let_def, simp only: safeE_Inr fst_conv fin)
  with b t show ?thesis by (simp only: ui_local_def bindE_Inr) (cases b, simp_all)
qed

lemma draw_widget_ok:
  assumes t: "cstep s t" and i: "i < 2"
  shows "ui_ok s (draw_widget i t)"
proof -
  let ?w = "c_uilist (app t) i"
  have l: "list_ui ?w" using cstep_lists [OF t] i by (auto simp: less_2_cases_iff)
  then have sl: "w_slots ?w = list_slots" by (simp add: list_ui_def)
  from ui_draw_ok [OF l, of "(0 + w_x ?w, 0 + w_y ?w)"] obtain d where d: "draw_list_at ?w (w_x ?w, w_y ?w) = Inr d" by auto
  have "draw_list 2 (ui_store t) i = Inr d"
    using i sl d by (simp add: draw_list_def ui_store_def w_deref_def w_link_def numeral_2_eq_2 del: PAR_def)
  then have "draw_widget i t = Inr (set_list i (?w\<lparr>w_dirty := False\<rparr>) t, d @ [TgRedraw])"
    using i sl by (simp add: draw_widget_def numeral_2_eq_2 w_deref_def ui_store_def w_link_def
        del: PAR_def CHILD_def)
  then show ?thesis using t l by (simp add: set_list_ok)
qed

lemma ui_draw_step: "cstep s t \<Longrightarrow> i < 2 \<Longrightarrow> ui_ok s (ui_draw i b upd t)"
  using draw_widget_ok [of s t i] unfolding ui_draw_def by (auto intro!: safeE_bind [OF draw_widget_ok])

lemma ui_bars_ok: "cstep s t \<Longrightarrow> ui_ok s (ui_bars t)"
  by (simp add: ui_bars_def Let_def)

lemma ui_seq: "ui_ok s m \<Longrightarrow> (\<And>t u d. cstep s t \<Longrightarrow> ui_ok s (f t u d)) \<Longrightarrow> ui_ok s (bindE m (\<lambda>(s, u, d). f s u d))"
  by (cases m) auto

lemma updateui_ok: "cstep s t \<Longrightarrow> ui_ok s (updateui t)"
proof -
  assume t: "cstep s t"
  show ?thesis
    unfolding updateui_def
    by (rule ui_seq [OF ui_status_ok [OF t]], rule ui_seq [OF ui_xfer_ok], assumption,
        rule ui_seq [OF ui_remote_ok], assumption, rule ui_seq [OF ui_local_ok], assumption,
        unfold Let_def, rule ui_seq [OF ui_draw_step], assumption, simp,
        rule ui_seq [OF ui_draw_step], assumption, simp, rule ui_seq [OF ui_bars_ok], assumption)
      (auto dest: cstep_app)
qed

section \<open>The main loop\<close>

lemma handle_ready_step: "cstep s t \<Longrightarrow> safe client_ok s (handle_ready ready fds t)"
proof (induction fds arbitrary: t)
  case (Cons fd fds)
  have "safe client_ok s (if fd \<in> ready then engine fd t else Inr t)"
    using Cons.prems handle_step by simp
  then have "safe client_ok s (bindE (if fd \<in> ready then engine fd t else Inr t) (handle_ready ready fds))"
    by (rule safeE_bind) (rule Cons.IH)
  then show ?case by simp
qed simp

lemma view_or_ui_step:
  assumes t: "cstep s t"
  shows "safep client_ok s (if view_isopen (c_viewer (app t))
    then bindE (view_update (c_viewer (app t))) (\<lambda>(v, d). Inr (on_app (\<lambda>a. a\<lparr>c_viewer := v\<rparr>) t, d))
    else updateui t)"
proof (rule safeE_if)
  assume "view_isopen (c_viewer (app t))"
  then have "safeE ftp_faults (\<lambda>(v', d). viewer_ok v') (view_update (c_viewer (app t)))"
    using cstep_viewer [OF t] by (intro safeE_mono [OF view_update_safe]) auto
  then show "safep client_ok s (bindE (view_update (c_viewer (app t)))
      (\<lambda>(v, d). Inr (on_app (\<lambda>a. a\<lparr>c_viewer := v\<rparr>) t, d)))"
    by (rule safeE_bind) (auto intro: viewer_step [OF t])
next
  show "safep client_ok s (updateui t)"
    using updateui_ok [OF t] by (rule safeE_mono) (auto simp: step_okp_def)
qed

definition round_ok :: "cs \<Rightarrow> (cs \<times> server option) \<times> draw_cmd list \<times> bool \<Rightarrow> bool" where
  "round_ok s r \<longleftrightarrow> cstep s (fst (fst r))"

lemma main_round_step:
  assumes i: "inv (fst st)"
  shows "safeE ftp_faults (round_ok (fst st)) (main_round lfn keys ready st)"
proof -
  let ?s = "fst st"
  have s: "cstep ?s ?s" using i by simp
  define last where "last = (\<lambda>(s :: cs, d :: draw_cmd list). case snd st of
             None \<Rightarrow> Inr ((s, snd st), d, True)
           | Some v \<Rightarrow>
               (case srv_dir v of
                  None \<Rightarrow> Inr ((s, snd st), d, True)
                | Some dir \<Rightarrow>
                    if status s \<noteq> FTP_DISC
                    then bindE (ftp_queue engine FTP_CHDIR (Some dir) s) (\<lambda>(s, _).
                         Inr ((s, None), d, True))
                    else Inr ((s, snd st), d, True)))"
  have last: "safeE ftp_faults (round_ok ?s) (last (t, d))" if t: "cstep ?s t" for t d
  proof -
    have "safeE ftp_faults (round_ok ?s) (bindE (ftp_queue engine FTP_CHDIR a t) (\<lambda>(s, _). Inr ((s, None), d, True)))" for a
      by (rule safeE_bind [OF queue_step [OF t]]) (auto simp: step_okp_def round_ok_def)
    with t show ?thesis by (auto simp: last_def round_ok_def split: option.split)
  qed
  have shown: "safeE ftp_faults (round_ok ?s) (bindE (if view_isopen (c_viewer (app t))
                  then bindE (view_update (c_viewer (app t))) (\<lambda>(v, d).
                       Inr (on_app (\<lambda>a. a\<lparr>c_viewer := v\<rparr>) t, d))
                  else updateui t) last)" if t: "cstep ?s t" for t
    by (rule safeE_bind [OF view_or_ui_step [OF t]]) (auto simp: step_okp_def intro!: last)
  have sockets: "safeE ftp_faults (round_ok ?s) (bindE (handle_ready ready (ftp_sockets ?s 64) t) (\<lambda>s.
      bindE (if view_isopen (c_viewer (app s))
                  then bindE (view_update (c_viewer (app s))) (\<lambda>(v, d).
                       Inr (on_app (\<lambda>a. a\<lparr>c_viewer := v\<rparr>) s, d))
                  else updateui s) last))" if t: "cstep ?s t" for t
    by (rule safeE_bind [OF handle_ready_step [OF t]]) (rule shown)
  have "safeE ftp_faults (round_ok ?s) (bindE (proc_input lfn keys ?s) (\<lambda>(s, r).
      if r = -1 then Inr ((ftp_free (ftp_close s), snd st), [], False)
      else bindE (handle_ready ready (ftp_sockets ?s 64) s) (\<lambda>s.
        bindE (if view_isopen (c_viewer (app s))
                  then bindE (view_update (c_viewer (app s))) (\<lambda>(v, d).
                       Inr (on_app (\<lambda>a. a\<lparr>c_viewer := v\<rparr>) s, d))
                  else updateui s) last)))"
  proof (rule safeE_bind [OF proc_input_step [OF s]])
    fix x :: "cs \<times> int"
    assume "step_okp client_ok ?s x"
    then have "cstep ?s (fst x)" by (simp add: step_okp_def)
    then show "safeE ftp_faults (round_ok ?s) (case x of (s, r) \<Rightarrow>
      if r = -1 then Inr ((ftp_free (ftp_close s), snd st), [], False)
      else bindE (handle_ready ready (ftp_sockets ?s 64) s) (\<lambda>s.
        bindE (if view_isopen (c_viewer (app s))
                  then bindE (view_update (c_viewer (app s))) (\<lambda>(v, d).
                       Inr (on_app (\<lambda>a. a\<lparr>c_viewer := v\<rparr>) s, d))
                  else updateui s) last))"
      using sockets by (cases x) (simp add: round_ok_def ftp_close_ok ftp_free_ok)
  qed
  then show ?thesis unfolding main_round_def last_def Let_def .
qed

text \<open>A state of the process before \<open>main\<close>: nothing is allocated, all variables are zero.\<close>

definition boot :: "cs \<Rightarrow> bool" where
  "boot s \<longleftrightarrow> xfers s = Map.empty \<and> bufs s = Map.empty \<and> c_viewer (app s) = viewer0
     \<and> c_cur_xfer (app s) = None"

lemma find_server_from_fault: "safeE ftp_faults (\<lambda>_. True) (find_server_from l name i n)"
  by (induction n arbitrary: i) (auto intro!: read_then darr_get_fault safeE_if)

lemma find_server_fault: "safeE ftp_faults (\<lambda>_. True) (find_server name l)"
  by (auto simp: find_server_def find_server_from_fault split: option.split)

lemma connect_inv: "ftp_inv I s \<Longrightarrow> ftp_inv I (fst (ftp_connect h p s))"
  by (auto simp: ftp_connect_def sys_socket_def sys_gethostbyname_def sys_connect_def ftp_inv_def emit_def
      CRECV_SIZE_def Let_def split: prod.split option.split bool.split)

text \<open>Before the lists are made.\<close>

definition pre_ok :: "client \<Rightarrow> nat set \<Rightarrow> bool" where
  "pre_ok a D \<longleftrightarrow> darr_ok (c_localdir a) \<and> c_viewer a = viewer0 \<and> c_cur_xfer a = None \<and> D = {}"

lemma alloc_inv:
  assumes "ftp_alloc s = Some t" "pre_ok (app s) (dom (xfers s))" "bufs s = Map.empty"
  shows "ftp_inv pre_ok t"
  using assms by (auto simp: ftp_alloc_def sys_malloc_def ftp_inv_def CRECV_SIZE_def split: prod.splits bool.splits)

lemma update_localdir_pre:
  "bufs s = Map.empty \<Longrightarrow> pre_ok (app s) (dom (xfers s))
   \<Longrightarrow> bufs (fst (update_localdir s)) = Map.empty
     \<and> pre_ok (app (fst (update_localdir s))) (dom (xfers (fst (update_localdir s))))"
  by (auto simp: update_localdir_def pre_ok_def read_entries_ok emit_def split: prod.split option.split)

lemma lists_made:
  assumes "ftp_inv pre_ok s"
  shows "inv (on_app (\<lambda>a. a\<lparr>
    c_uilist := (\<lambda>i. if i = 0
      then tui_focus True (tui_list_new ''Remote'' 0 1 40 21 PNull PNull)
      else tui_list_new ''Local'' 40 1 40 21 PNull PNull),
    c_focus := 0, c_local_modified := True, c_dirty := 0xffff\<rparr>) s)"
  using assms by (auto simp: ftp_inv_def pre_ok_def client_ok_def list_ui_new)

lemma main_start_ok: "boot s \<Longrightarrow> safeE ftp_faults (\<lambda>r. case r of None \<Rightarrow> True | Some st \<Rightarrow> inv (fst st)) (main_start s)"
proof -
  assume b: "boot s"
  define s1 where "s1 = (case next_ans [] (cwd_in (app (on_app (\<lambda>a. a\<lparr>c_localdir := darr_alloc 0 12\<rparr>) s))) of
      (cwd, r) \<Rightarrow> on_app (\<lambda>a. a\<lparr>cwd_in := r, c_curdir := cwd\<rparr>) (on_app (\<lambda>a. a\<lparr>c_localdir := darr_alloc 0 12\<rparr>) s))"
  have "bufs s1 = Map.empty \<and> pre_ok (app s1) (dom (xfers s1))"
    using b by (auto simp: s1_def boot_def pre_ok_def split: prod.split)
  then have s2: "bufs (fst (update_localdir s1)) = Map.empty
      \<and> pre_ok (app (fst (update_localdir s1))) (dom (xfers (fst (update_localdir s1))))"
    by (intro update_localdir_pre) simp_all
  show ?thesis
  proof (cases "ftp_alloc (fst (update_localdir s1))")
    case None
    then show ?thesis unfolding main_start_def Let_def s1_def [symmetric] by simp
  next
    case (Some t)
    have t: "ftp_inv pre_ok t" using alloc_inv [OF Some] s2 by simp
    have fin: "safeE ftp_faults (\<lambda>r. case r of None \<Rightarrow> True | Some st \<Rightarrow> inv (fst st))
        (case ftp_connect h p u of
           (s, r) \<Rightarrow> if r = -1 then Inr None
             else Inr (Some (on_app (\<lambda>a. a\<lparr>
                           c_uilist := (\<lambda>i. if i = 0
                             then tui_focus True (tui_list_new ''Remote'' 0 1 40 21 PNull PNull)
                             else tui_list_new ''Local'' 40 1 40 21 PNull PNull),
                           c_focus := 0, c_local_modified := True, c_dirty := 0xffff\<rparr>) s, srv)))"
      if "ftp_inv pre_ok u" for h p u srv
      using lists_made [OF connect_inv [OF that, of h p]] by (auto split: prod.split)
    have auth: "ftp_inv pre_ok (case ou of None \<Rightarrow> on_app (\<lambda>a. a\<lparr>c_opts := o1\<rparr>) t
        | Some u \<Rightarrow> ftp_auth u pw (on_app (\<lambda>a. a\<lparr>c_opts := o1\<rparr>) t))" for ou pw o1
      using t by (auto simp: ftp_auth_def ftp_inv_def pre_ok_def split: option.split)
    show ?thesis
      unfolding main_start_def Let_def s1_def [symmetric] Some option.case
      by (rule safeE_bind [OF find_server_fault]) (rule fin, rule auth)
  qed
qed

section \<open>Reachable states\<close>

inductive reach :: "cs \<times> server option \<Rightarrow> bool" where
  reach_start: "boot s \<Longrightarrow> main_start s = Inr (Some st) \<Longrightarrow> reach st"
| reach_round: "reach st \<Longrightarrow> main_round lfn keys ready st = Inr (st', d, go) \<Longrightarrow> reach st'"

lemma reach_inv: "reach st \<Longrightarrow> inv (fst st)"
proof (induction rule: reach.induct)
  case (reach_start s st)
  then show ?case using main_start_ok [of s] by simp
next
  case (reach_round st lfn keys ready st' d go)
  then show ?case
    using main_round_step [of st lfn keys ready] by (auto simp: round_ok_def dest: step_ok_inv)
qed

end
