(* ===== verification/Transfers.thy ===== *)
theory Transfers
  imports Client_Inv
begin

text \<open>
  Whole operations: sequences of queue and array operations against the lists they stand for, and
  the two kinds of download over all their packets.
\<close>

section \<open>Sequences of operations\<close>

datatype 'a dop = DPush 'a | DPop | DClear

fun darr_run :: "'a dop list \<Rightarrow> 'a darr \<Rightarrow> 'a darr" where
  "darr_run [] d = d"
| "darr_run (DPush x # ops) d = darr_run ops (darr_push d x)"
| "darr_run (DPop # ops) d = darr_run ops (darr_pop d)"
| "darr_run (DClear # ops) d = darr_run ops (darr_clear d)"

fun list_run :: "'a dop list \<Rightarrow> 'a list \<Rightarrow> 'a list" where
  "list_run [] xs = xs"
| "list_run (DPush x # ops) xs = list_run ops (xs @ [x])"
| "list_run (DPop # ops) xs = list_run ops (butlast xs)"
| "list_run (DClear # ops) xs = list_run ops []"

lemma darr_run_list:
  "darr_ok d \<Longrightarrow> darr_tight d \<Longrightarrow> darr_ok (darr_run ops d) \<and> darr_tight (darr_run ops d)
    \<and> darr_list (darr_run ops d) = list_run ops (darr_list d)"
proof (induction ops d rule: darr_run.induct)
  case (2 x ops d)
  then show ?case by (simp add: da.push_inv da.push_list darr_tight_push darr_ok_wf)
next
  case (3 ops d)
  then show ?case by (simp add: da.pop_inv da.pop_list darr_tight_pop darr_ok_wf)
next
  case (4 ops d)
  then show ?case by (simp add: da.clear_inv da.clear_list darr_tight_clear)
qed simp

datatype qop = QEnq ftp_op | QDeq

text \<open>The items that come out.\<close>

fun queue_run :: "qop list \<Rightarrow> op_queue \<Rightarrow> ftp_op list res" where
  "queue_run [] q = Inr []"
| "queue_run (QEnq x # ops) q = bindE (enq_op x q) (queue_run ops)"
| "queue_run (QDeq # ops) q =
     bindE (deq_op q) (\<lambda>r. case r of
         None \<Rightarrow> queue_run ops q
       | Some (x, q') \<Rightarrow> bindE (queue_run ops q') (\<lambda>xs. Inr (x # xs)))"

fun fifo_run :: "qop list \<Rightarrow> ftp_op list \<Rightarrow> ftp_op list" where
  "fifo_run [] xs = []"
| "fifo_run (QEnq x # ops) xs = fifo_run ops (xs @ [x])"
| "fifo_run (QDeq # ops) xs = (case xs of [] \<Rightarrow> fifo_run ops [] | x # xs' \<Rightarrow> x # fifo_run ops xs')"

lemma queue_run_fifo: "q_ok q \<Longrightarrow> queue_run ops q = Inr (fifo_run ops (q_list q))"
proof (induction ops q rule: queue_run.induct)
  case (2 x ops q)
  from opq.enqE [OF "2.prems", of x] obtain q' where "enq_op x q = Inr q'" "q_ok q'" "q_list q' = q_list q @ [x]" .
  with "2.IH" [of q'] show ?case by simp
next
  case (3 ops q)
  show ?case
  proof (cases rule: opq.deqE [OF "3.prems"])
    case 1
    then show ?thesis using "3.IH"(1) "3.prems" by simp
  next
    case (2 x q')
    then show ?thesis using "3.IH"(2) by simp
  qed
qed simp

section \<open>Packets\<close>

fun feed :: "(string \<Rightarrow> 'a sys \<Rightarrow> 'a sys res) \<Rightarrow> string list \<Rightarrow> 'a sys \<Rightarrow> 'a sys res" where
  "feed f [] s = Inr s"
| "feed f (p # ps) s = bindE (f p s) (feed f ps)"

definition packets_ok :: "string list \<Rightarrow> bool" where
  "packets_ok ps \<longleftrightarrow> (\<forall>p \<in> set ps. p \<noteq> [] \<and> length p \<le> DRECV_SIZE)"

text \<open>Collecting a listing.\<close>

lemma packet_stored:
  assumes "bufs s i = Some b" "buf_ok b" "p \<noteq> []" "length p \<le> DRECV_SIZE" "mem_in s = []"
    and "length (rb_data b) + length p \<le> max_block"
  shows "\<exists>b'. dproc_list p (ClsBuf i) s = Inr (s\<lparr>bufs := (bufs s)(i \<mapsto> b')\<rparr>) \<and> buf_ok b' \<and> rb_data b' = rb_data b @ p"
proof (cases "int (rb_size b + length p) \<le> rb_bufsz b")
  case True
  then show ?thesis using packet_fits [OF assms(1-3) True] by blast
next
  case False
  then have "rb_bufsz b < int max_block" using assms(2,6) by (simp add: rb_data_length)
  moreover have "sys_malloc s = (True, s)" using assms(5) by (simp add: sys_malloc_def)
  ultimately show ?thesis using packet_grows [OF assms(1-4)] False by fastforce
qed

lemma collect_packets:
  assumes "packets_ok ps" "bufs s i = Some b" "buf_ok b" "mem_in s = []" "length (rb_data b @ concat ps) \<le> max_block"
  shows "\<exists>s' b'. feed (\<lambda>p. dproc_list p (ClsBuf i)) ps s = Inr s' \<and> bufs s' i = Some b' \<and> buf_ok b'
    \<and> rb_data b' = rb_data b @ concat ps \<and> dirent s' = dirent s \<and> busy s' = busy s \<and> mem_in s' = []"
  using assms
proof (induction ps arbitrary: s b)
  case (Cons p ps)
  have p: "p \<noteq> []" "length p \<le> DRECV_SIZE" and ps: "packets_ok ps"
    using Cons.prems(1) by (auto simp: packets_ok_def)
  obtain b1 where b1: "dproc_list p (ClsBuf i) s = Inr (s\<lparr>bufs := (bufs s)(i \<mapsto> b1)\<rparr>)" "buf_ok b1" "rb_data b1 = rb_data b @ p"
    using packet_stored [OF Cons.prems(2,3) p Cons.prems(4)] Cons.prems(5) by auto
  let ?s = "s\<lparr>bufs := (bufs s)(i \<mapsto> b1)\<rparr>"
  have "bufs ?s i = Some b1" "mem_in ?s = []" "length (rb_data b1 @ concat ps) \<le> max_block"
    using Cons.prems(4,5) b1(3) by simp_all
  from Cons.IH [OF ps this(1) b1(2) this(2,3)] b1 show ?case by simp
qed simp

lemma parse_data:
  assumes "buf_ok b" "rb_data b = concat (map ls_text es)" "list_all ls_wf es" "darr_ok d"
  shows "\<exists>d'. parse_listing ent (rb_size b) (rb_buf b) d = Inr d' \<and> darr_ok d'
    \<and> map dirent_view (darr_list d') = map dirent_view (darr_list d) @ map ls_view es"
proof -
  have "rb_buf b = concat (map ls_text es) @ drop (rb_size b) (rb_buf b)"
    using assms(2) append_take_drop_id [of "rb_size b" "rb_buf b"] by (simp add: rb_data_def)
  moreover have "rb_size b = length (concat (map ls_text es))" using rb_data_length [OF assms(1)] assms(2) by simp
  ultimately show ?thesis using parse_listing_ls [OF assms(3,4), of ent "drop (rb_size b) (rb_buf b)"] by simp
qed

lemma list_download:
  assumes "packets_ok ps" "concat ps = concat (map ls_text es)" "list_all ls_wf es" "length (concat ps) \<le> max_block"
    and "bufs s i = Some b" "buf_ok b" "rb_data b = []" "mem_in s = []"
  shows "\<exists>s'. bindE (feed (\<lambda>p. dproc_list p (ClsBuf i)) ps s) (dproc_list [] (ClsBuf i)) = Inr s'
    \<and> darr_ok (dirent s') \<and> mset (map dirent_view (darr_list (dirent s'))) = mset (map ls_view es)
    \<and> sorted_wrt (\<lambda>a b. ftp_direntcmp a b \<le> 0) (darr_list (dirent s'))
    \<and> busy s' = busy s - 1 \<and> bufs s' i = None \<and> dproc s' = None"
proof -
  obtain t b' where t: "feed (\<lambda>p. dproc_list p (ClsBuf i)) ps s = Inr t" "bufs t i = Some b'" "buf_ok b'"
    "rb_data b' = concat ps" "busy t = busy s"
    using collect_packets [OF assms(1,5,6,8)] assms(4,7) by auto
  obtain d where d: "parse_listing ent0 (rb_size b') (rb_buf b') (darr_clear (dirent t)) = Inr d" "darr_ok d"
    "map dirent_view (darr_list d) = map ls_view es"
    using parse_data [OF t(3) _ assms(3), of "darr_clear (dirent t)" ent0] t(4) assms(2) by (auto simp: darr_list_clear)
  have "mset (map dirent_view (qsort ftp_direntcmp (darr_list d))) = mset (map dirent_view (darr_list d))"
    by simp
  then show ?thesis
    using t d by (simp add: dproc_list_def deref_buf_def Let_def darr_qsort_list direntcmp.sorted_qsort)
qed

text \<open>Collecting a file.\<close>

lemma file_packets:
  assumes "packets_ok ps" "xfers s i = Some x" "x_op x = FTP_RETR" "x_fp x = Some f" "x_count x \<le> x_total x"
  shows "\<exists>s'. feed (\<lambda>p. dproc_xfer cb p (ClsXfer i)) ps s = Inr s' \<and> files s' f = files s f @ concat ps
    \<and> xfers s' i = Some (x\<lparr>x_count := min (x_total x) (x_count x + int (length (concat ps)))\<rparr>)
    \<and> out s' = out s \<and> busy s' = busy s"
  using assms
proof (induction ps arbitrary: s x)
  case Nil
  then show ?case by (simp add: min_def)
next
  case (Cons p ps)
  have p: "p \<noteq> []" and ps: "packets_ok ps" using Cons.prems(1) by (auto simp: packets_ok_def)
  let ?x = "x\<lparr>x_count := min (x_total x) (x_count x + int (length p))\<rparr>"
  let ?s = "s\<lparr>files := (files s)(f := files s f @ p), xfers := (xfers s)(i \<mapsto> ?x)\<rparr>"
  have step: "dproc_xfer cb p (ClsXfer i) s = Inr ?s"
    using p Cons.prems(2-4) by (auto simp: dproc_xfer_def deref_xfer_def Let_def min_def)
  have "\<exists>s'. feed (\<lambda>p. dproc_xfer cb p (ClsXfer i)) ps ?s = Inr s' \<and> files s' f = files ?s f @ concat ps
    \<and> xfers s' i = Some (?x\<lparr>x_count := min (x_total ?x) (x_count ?x + int (length (concat ps)))\<rparr>)
    \<and> out s' = out ?s \<and> busy s' = busy ?s"
    using ps Cons.prems by (intro Cons.IH) simp_all
  moreover have "min (x_total x) (min (x_total x) (x_count x + int (length p)) + int (length (concat ps)))
      = min (x_total x) (x_count x + int (length p) + int (length (concat ps)))" by (simp add: min_def)
  ultimately show ?case using step by (auto simp: algebra_simps)
qed

lemma mem_append_list:
  assumes "darr_ok m"
  shows "darr_list (mem_append m bs) = darr_list m @ bs" "darr_ok (mem_append m bs)"
proof -
  let ?n = "nelem m"
  have len: "?n \<le> length (cells m)" and none: "None \<notin> set (take ?n (cells m))"
    using assms by (auto simp: darr_ok_def darr_wf_def)
  have c: "take ?n (realloc_cells (?n + length bs) (cells m)) = take ?n (cells m)"
    using len by (simp add: take_realloc_cells)
  show "darr_list (mem_append m bs) = darr_list m @ bs"
    using c len by (simp add: mem_append_def darr_list_def darr_size_def darr_resize_desc_def Let_def comp_def)
  show "darr_ok (mem_append m bs)"
    using c len none by (auto simp: mem_append_def darr_ok_def darr_wf_def darr_size_def darr_resize_desc_def Let_def)
qed

lemma view_packets:
  assumes "packets_ok ps" "xfers s i = Some x" "x_op x = FTP_RETR" "x_fp x = None" "x_mem x = Some m" "darr_ok m"
    "x_count x \<le> x_total x"
  shows "\<exists>s' m'. feed (\<lambda>p. dproc_xfer cb p (ClsXfer i)) ps s = Inr s' \<and> darr_ok m'
    \<and> darr_list m' = darr_list m @ concat ps
    \<and> xfers s' i = Some (x\<lparr>x_mem := Some m', x_count := min (x_total x) (x_count x + int (length (concat ps)))\<rparr>)
    \<and> app s' = app s \<and> out s' = out s \<and> busy s' = busy s"
  using assms
proof (induction ps arbitrary: s x m)
  case Nil
  then show ?case by (auto simp: min_def intro!: exI [of _ m])
next
  case (Cons p ps)
  have p: "p \<noteq> []" and ps: "packets_ok ps" using Cons.prems(1) by (auto simp: packets_ok_def)
  let ?x = "x\<lparr>x_mem := Some (mem_append m p), x_count := min (x_total x) (x_count x + int (length p))\<rparr>"
  let ?s = "s\<lparr>xfers := (xfers s)(i \<mapsto> ?x)\<rparr>"
  have step: "dproc_xfer cb p (ClsXfer i) s = Inr ?s"
    using p Cons.prems(2-5) by (auto simp: dproc_xfer_def deref_xfer_def Let_def min_def)
  have "\<exists>s' m'. feed (\<lambda>p. dproc_xfer cb p (ClsXfer i)) ps ?s = Inr s' \<and> darr_ok m'
    \<and> darr_list m' = darr_list (mem_append m p) @ concat ps
    \<and> xfers s' i = Some (?x\<lparr>x_mem := Some m', x_count := min (x_total ?x) (x_count ?x + int (length (concat ps)))\<rparr>)
    \<and> app s' = app ?s \<and> out s' = out ?s \<and> busy s' = busy ?s"
    using ps Cons.prems mem_append_list [of m p] by (intro Cons.IH) simp_all
  moreover have "min (x_total x) (min (x_total x) (x_count x + int (length p)) + int (length (concat ps)))
      = min (x_total x) (x_count x + int (length p) + int (length (concat ps)))" by (simp add: min_def)
  ultimately show ?case using step mem_append_list(1) [of m p] Cons.prems(6) by (auto simp: algebra_simps)
qed

section \<open>Directories, rows and replies\<close>

definition entry_label :: "ftp_dirent \<Rightarrow> string" where
  "entry_label e = (if de_type e = FTP_DIR then de_name e @ ''/'' else de_name e)"

lemma item_text_label: "de_type e = FTP_DIR \<longrightarrow> length (de_name e) \<le> 126 \<Longrightarrow> item_text e = Inr (entry_label e)"
  by (auto simp: item_text_def entry_label_def)

lemma fill_list_items:
  assumes "darr_ok d" "i + n = darr_size d"
    and "\<forall>e \<in> set (darr_list d). de_type e = FTP_DIR \<longrightarrow> length (de_name e) \<le> 126"
  shows "fill_list d i n w = add_items (map entry_label (drop i (darr_list d))) w"
  using assms(2)
proof (induction n arbitrary: i w)
  case 0
  then show ?case using assms(1) by (simp add: darr_size_list)
next
  case (Suc n)
  then have i: "i < length (darr_list d)" using assms(1) by (simp add: darr_size_list)
  then have "darr_get d (int i) = Inr (darr_list d ! i)"
    using assms(1) darr_get_list [of d "int i"] by simp
  moreover have "item_text (darr_list d ! i) = Inr (entry_label (darr_list d ! i))"
    using i assms(3) by (intro item_text_label) simp
  moreover have "drop i (darr_list d) = darr_list d ! i # drop (Suc i) (darr_list d)"
    using i by (simp add: Cons_nth_drop_Suc)
  ultimately show ?case using Suc.IH [of "Suc i"] Suc.prems by (cases "tui_add_list_item (entry_label (darr_list d ! i)) w") auto
qed

lemma show_dir_refill:
  assumes "darr_ok d" and "\<forall>e \<in> set (darr_list d). de_type e = FTP_DIR \<longrightarrow> length (de_name e) \<le> 126"
  shows "show_dir d w = refill (map entry_label (darr_list d)) w"
  using fill_list_items [OF assms(1) _ assms(2), of 0 "darr_size d"] by (simp add: show_dir_def refill_def)

lemma fill_list_overrun:
  assumes "darr_ok d" "list_wf w" "i + n = darr_size d"
    and "\<exists>e \<in> set (drop i (darr_list d)). de_type e = FTP_DIR \<and> 126 < length (de_name e)"
  shows "fill_list d i n w = Inl Overrun"
  using assms(2-4)
proof (induction n arbitrary: i w)
  case 0
  then show ?case using assms(1) by (simp add: darr_size_list)
next
  case (Suc n)
  then have i: "i < length (darr_list d)" using assms(1) by (simp add: darr_size_list)
  let ?e = "darr_list d ! i"
  have g: "darr_get d (int i) = Inr ?e" using i assms(1) darr_get_list [of d "int i"] by simp
  have split: "drop i (darr_list d) = ?e # drop (Suc i) (darr_list d)" using i by (simp add: Cons_nth_drop_Suc)
  show ?case
  proof (cases "de_type ?e = FTP_DIR \<and> 126 < length (de_name ?e)")
    case True
    then show ?thesis using g by (simp add: item_text_def)
  next
    case False
    from add_item_entries [OF Suc.prems(1)] obtain w' where
      "tui_add_list_item (if de_type ?e = FTP_DIR then de_name ?e @ ''/'' else de_name ?e) w = Inr w'" "list_wf w'" by blast
    moreover have "fill_list d (Suc i) n w' = Inl Overrun"
      using Suc.prems(2,3) split False calculation(2) by (intro Suc.IH) auto
    ultimately show ?thesis using g False by (auto simp: item_text_def split: if_splits)
  qed
qed

lemma fixname_split:
  assumes "CHR ''.'' \<notin> set ext"
  shows "fixname False (base @ CHR ''.'' # ext) = take 8 base @ CHR ''.'' # take 3 ext"
proof -
  have t: "takeWhile (\<lambda>c. c \<noteq> CHR ''.'') (rev ext @ CHR ''.'' # rev base) = rev ext"
    using assms by (subst takeWhile_append2) auto
  have d: "dropWhile (\<lambda>c. c \<noteq> CHR ''.'') (rev ext @ CHR ''.'' # rev base) = CHR ''.'' # rev base"
    using assms by (subst dropWhile_append2) auto
  show ?thesis by (simp add: fixname_def t d)
qed

definition darr_fresh :: "'a darr \<Rightarrow> bool" where
  "darr_fresh d \<longleftrightarrow> darr_ok d \<and> set (drop (nelem d) (cells d)) \<subseteq> {None}"

lemma drop_Suc_None: "set (drop n xs) \<subseteq> {None} \<Longrightarrow> set (drop (Suc n) xs) \<subseteq> {None}"
  using set_drop_subset_set_drop [of n "Suc n" xs] by auto

lemma fresh_push: "darr_fresh d \<Longrightarrow> darr_fresh (darr_push d x)"
proof -
  assume f: "darr_fresh d"
  then have ok: "darr_ok d" and n: "set (drop (nelem d) (cells d)) \<subseteq> {None}" by (simp_all add: darr_fresh_def)
  have le: "nelem d \<le> length (cells d)" using ok by (simp add: darr_ok_def darr_wf_def)
  have "set (drop (nelem d) (realloc_cells k (cells d))) \<subseteq> {None}" if "nelem d \<le> k" for k
  proof -
    have "set (drop (nelem d) (take k (cells d))) \<subseteq> set (drop (nelem d) (cells d))"
      by (simp add: drop_take set_take_subset)
    then show ?thesis using n by (auto simp: realloc_cells_def)
  qed
  moreover have "nelem d < (if max_elem d \<noteq> 0 then max_elem d * 2 else 1)" if "nelem d \<ge> max_elem d"
    using that ok by (intro push_room) (simp add: darr_ok_def)
  ultimately have "set (drop (Suc (nelem d)) (realloc_cells (if max_elem d \<noteq> 0 then max_elem d * 2 else 1) (cells d))) \<subseteq> {None}"
    if "nelem d \<ge> max_elem d" using that by (meson drop_Suc_None less_imp_le)
  moreover have "set (drop (Suc (nelem d)) (cells d)) \<subseteq> {None}" using n by (rule drop_Suc_None)
  ultimately have "set (drop (Suc (nelem d)) (cells (darr_push d x))) \<subseteq> {None}"
    by (cases "nelem d \<ge> max_elem d")
      (simp_all add: darr_push_def darr_push_impl_def darr_resize_desc_def Let_def split del: if_split)
  moreover have "nelem (darr_push d x) = Suc (nelem d)"
    by (simp add: darr_push_def darr_push_impl_def Let_def)
  ultimately show ?thesis using da.push_inv [OF ok] by (simp add: darr_fresh_def)
qed

lemma split_spans_fresh: "split_spans bs n p st ls = Inr ls' \<Longrightarrow> darr_fresh ls \<Longrightarrow> darr_fresh ls'"
proof (induction n arbitrary: bs p st ls)
  case (Suc n)
  then show ?case
    using fresh_push [OF Suc.prems(2)] by (fastforce split: list.splits if_splits)
qed simp

lemma fresh_get: "darr_fresh d \<Longrightarrow> int (nelem d) \<le> i \<Longrightarrow> darr_get d i = Inl Overread"
proof -
  assume f: "darr_fresh d" and i: "int (nelem d) \<le> i"
  then have "cells d ! nat i = None" if "i < int (length (cells d))"
    using that by (auto simp: darr_fresh_def in_set_conv_nth nth_drop
        dest!: subsetD [of _ _ "drop (nelem d) (cells d) ! (nat i - nelem d)"] intro!: nth_mem)
  then show ?thesis using i by (auto simp: darr_get_def)
qed

lemma draw_rows_past:
  assumes "\<exists>k < n. darr_get ls (v_vscroll v + int (i + k)) = Inl Overread"
  shows "draw_rows v ls bytes i n = Inl Overread"
  using assms
proof (induction n arbitrary: i)
  case (Suc n)
  show ?case
  proof (cases "darr_get ls (v_vscroll v + int i)")
    case (Inl e)
    then have "e = Overread" by (auto simp: darr_get_def split: if_splits option.splits)
    with Inl show ?thesis by simp
  next
    case (Inr p)
    from Suc.prems obtain k where k: "k < Suc n" "darr_get ls (v_vscroll v + int (i + k)) = Inl Overread" by blast
    with Inr obtain k' where "k = Suc k'" by (cases k) auto
    with k have "\<exists>k<n. darr_get ls (v_vscroll v + int (Suc i + k)) = Inl Overread" by auto
    from Suc.IH [OF this] Inr show ?thesis by (cases p) simp
  qed
qed simp

lemma scan_skip:
  assumes "\<forall>c \<in> set l. c \<noteq> CR \<and> c \<noteq> LF" "take (length l) (drop pos (crecv s)) = l" "pos + length l \<le> length (crecv s)"
  shows "scan_lines h cb (length l + k) pos buf s = scan_lines h cb k (pos + length l) buf s"
  using assms
proof (induction l arbitrary: pos)
  case (Cons c l)
  have lt: "pos < length (crecv s)" using Cons.prems(3) by simp
  then have d: "drop pos (crecv s) = crecv s ! pos # drop (Suc pos) (crecv s)" by (simp add: Cons_nth_drop_Suc)
  with Cons.prems(2) have c: "crecv s ! pos = c" "take (length l) (drop (Suc pos) (crecv s)) = l" by simp_all
  with Cons.IH [of "Suc pos"] Cons.prems show ?case by (simp add: Let_def)
qed simp

lemma scan_crlf:
  assumes "crecv s ! pos = CR" "crecv s ! Suc pos = LF" "Suc pos < length (crecv s)"
    and "c = (crecv s)[pos := NUL, Suc pos := NUL]"
  shows "scan_lines h cb 2 pos buf s = bindE (proc_control h cb (cstr (drop buf c)) (s\<lparr>crecv := c\<rparr>))
    (\<lambda>t. Inr (t, Suc (Suc pos)))"
proof -
  have z: "scan_lines h cb 0 p q = (\<lambda>t. Inr (t, q))" for p q
    by (rule ext) simp
  show ?thesis using assms by (simp add: numeral_2_eq_2 Let_def z)
qed

lemma update_two: "(l @ a # b # r)[Suc (length l) := y] = l @ a # y # r"
  by (induction l) simp_all

lemma cstr_take: "NUL \<notin> set l \<Longrightarrow> cstr (l @ NUL # r) = l"
  by (simp add: cstr_def takeWhile_append)

section \<open>Example states\<close>

text \<open>A connected engine with nothing to do, and a client without files.\<close>

definition idle :: "'a \<Rightarrow> 'a sys" where
  "idle a =
     \<lparr>ctl = 3, lis = -1, data = -1, status = FTP_DISC, busy = 0, user = None, pass = None,
      pasv_mode = True, opqueue = empty_queue, cproc = None, dproc = None, cproc_cls = ClsNull,
      dproc_cls = ClsNull, crecv = replicate CRECV_SIZE NUL, num_crecv = 0, curdir = None,
      dirent = darr_alloc 0 12, last_resp = 0, modified = 0, bufs = Map.empty, xfers = Map.empty,
      files = (\<lambda>_. []), next_buf = 0, ctl_rx = [], dat_rx = [], sel_in = [], sock_in = [],
      conn_in = [], bind_in = [], name_in = [], host_in = [], acc_in = [], mem_in = [], stale = (\<lambda>_ _. NUL), out = [],
      app = a\<rparr>"

lemma idle_fields [simp]:
  "ctl (idle a) = 3" "lis (idle a) = -1" "data (idle a) = -1" "busy (idle a) = 0"
  "status (idle a) = FTP_DISC" "user (idle a) = None" "pass (idle a) = None" "pasv_mode (idle a)"
  "opqueue (idle a) = empty_queue" "cproc (idle a) = None" "dproc (idle a) = None"
  "crecv (idle a) = replicate CRECV_SIZE NUL" "num_crecv (idle a) = 0" "dirent (idle a) = darr_alloc 0 12"
  "bufs (idle a) = Map.empty" "xfers (idle a) = Map.empty" "files (idle a) = (\<lambda>_. [])"
  "ctl_rx (idle a) = []" "dat_rx (idle a) = []" "sel_in (idle a) = []" "sock_in (idle a) = []"
  "conn_in (idle a) = []" "mem_in (idle a) = []" "out (idle a) = []" "app (idle a) = a"
  "bind_in (idle a) = []" "name_in (idle a) = []"
  by (simp_all add: idle_def)

lemma idle_inv: "I a {} \<Longrightarrow> ftp_inv I (idle a)"
  by (simp add: ftp_inv_def idle_def CRECV_SIZE_def)

definition client0 :: client where
  "client0 =
     \<lparr>c_opts = default_options, c_srvlist = None,
      c_uilist = (\<lambda>i. tui_list_new ''Remote'' 0 1 40 21 PNull PNull), c_focus = 0, c_dirty = 0,
      c_curdir = ''/'', c_localdir = darr_alloc 0 12, c_local_modified = False, c_cur_xfer = None,
      c_viewer = viewer0, c_prev_status = FTP_DISC, c_prev_xfer = None, c_next_xfer = 0,
      c_next_file = 0, dir_in = [], chdir_in = [], cwd_in = [], fopen_in = [], read_in = [],
      c_out = []\<rparr>"

lemma client0_ok: "client_ok client0 {}"
  by (simp add: client_ok_def client0_def list_ui_new)

definition list_example :: tui_list where
  "list_example =
     (tui_list_new ''Local'' 40 1 40 21 PNull PNull)
       \<lparr>entries := darr_push (darr_alloc 0 16) \<lparr>e_text = ''a'', e_sel = False\<rparr>\<rparr>"

lemma list_example_ok: "list_ok list_example"
proof -
  have s: "darr_size (entries list_example) = 1"
    by (simp add: list_example_def darr_defs)
  have e: "darr_list (entries list_example) = [\<lparr>e_text = ''a'', e_sel = False\<rparr>]" "darr_ok (entries list_example)"
    by (simp_all add: list_example_def da.push_list da.push_inv darr_list_alloc)
  have f: "w_type list_example = TUI_LIST" "length (w_slots list_example) = 9" "w_height list_example = 21"
    "cur list_example = -1" "view_offs list_example = 0" "num_sel list_example = 0"
    by (simp_all add: list_example_def tui_list_new_def Let_def tui_widget_def widget.defs
        tui_set_callback_def no_slots_def)
  show ?thesis using s e f by (simp add: list_ok_def list_wf_def cursor_ok_def sel_count_def VISLINES_def)
qed

definition dir_example :: "ftp_dirent darr" where
  "dir_example = darr_push (darr_alloc 0 12) \<lparr>de_name = ''pub'', de_type = FTP_DIR, de_size = None\<rparr>"

lemma dir_example_list: "darr_ok dir_example" "darr_list dir_example = [\<lparr>de_name = ''pub'', de_type = FTP_DIR, de_size = None\<rparr>]"
  by (simp_all add: dir_example_def da.push_list da.push_inv darr_list_alloc)

definition two_widgets :: "unit wstore" where
  "two_widgets = [0 \<mapsto> tui_window ''w'' 0 0 80 25, 1 \<mapsto> tui_button ''ok'' 1 2 PNull PNull]"

lemma two_widgets_ok: "wstore_ok two_widgets" "children two_widgets 0 []" "get_link two_widgets 1 PAR = Inr None"
  by (auto simp: two_widgets_def wstore_ok_def tui_window_def tui_button_def tui_widget_def no_slots_def Let_def
      children_def get_link_def w_deref_def w_link_def)

definition viewer_example :: viewer where
  "viewer_example = viewer0\<lparr>v_title := Some ''f'', v_data := Some (Malloced ''a''), v_lines := Some (darr_alloc 0 16)\<rparr>"

definition boot0 :: cs where
  "boot0 = (idle client0)\<lparr>ctl := -1, sock_in := [3], host_in := [Some 0x7f000001], conn_in := [True]\<rparr>"

lemma boot0_starts: "\<exists>st. main_start boot0 = Inr (Some st)"
  by (simp add: main_start_def boot0_def client0_def Let_def update_localdir_def ftp_alloc_def
      sys_malloc_def find_server_def default_options_def ftp_connect_def sys_socket_def
      sys_gethostbyname_def sys_connect_def emit_def idle_def)

definition ls_example :: ls_entry where
  "ls_example = \<lparr>ls_mode = ''drwxr-xr-x'', ls_links = ''2'', ls_owner = ''ftp'', ls_group = ''ftp'',
     ls_size = 7, ls_month = ''Jan'', ls_day = ''1'', ls_year = ''2020'', ls_name = ''pub'',
     ls_target = None, ls_pad = (\<lambda>_. 0)\<rparr>"

lemma ls_example_wf: "ls_wf ls_example"
  by (simp add: ls_wf_def ls_example_def ls_word_def line_text_def ls_name_text_def isspace_def ccode_def)

lemma ls_example_short: "ls_text ls_example \<noteq> []" "length (ls_text ls_example) \<le> 256"
  by (simp_all add: ls_text_def ls_example_def ls_name_text_def dec_str.simps)

definition xfer_example :: ftp_transfer where
  "xfer_example = \<lparr>x_op = FTP_RETR, x_rname = ''a.txt'', x_fp = Some 0, x_mem = None, x_total = 6,
     x_count = 0, x_done = Some Xfer_done\<rparr>"

end
