(* ===== verification/Dialogue.thy ===== *)
theory Dialogue
  imports Transfers
begin

text \<open>
  Whole replies, and what the engine does when they answer the commands of a change of directory: the
  lemmas follow one request through \<open>ftp_queue\<close>, \<open>handle_control\<close>, \<open>proc_control\<close>, the queue and the
  nested \<open>ftp_handle\<close> of \<open>ftp_waitresp\<close>.
\<close>

section \<open>Whole replies\<close>

text \<open>The line of a reply: a code, a space and a text.\<close>

definition rline :: "nat \<Rightarrow> string \<Rightarrow> string" where
  "rline n tx = code3 n @ CHR '' '' # tx"

definition one_line :: "string \<Rightarrow> bool" where
  "one_line tx \<longleftrightarrow> (\<forall>c \<in> set tx. c \<noteq> CR \<and> c \<noteq> LF \<and> c \<noteq> NUL)"

lemma one_line_simps [simp]:
  "one_line []" "one_line (c # s) \<longleftrightarrow> c \<noteq> CR \<and> c \<noteq> LF \<and> c \<noteq> NUL \<and> one_line s"
  "one_line (s @ t) \<longleftrightarrow> one_line s \<and> one_line t"
  by (auto simp: one_line_def)

lemma rline_text:
  assumes "n < 1000" "one_line tx"
  shows "reply_line (rline n tx) = rline n tx" "respcode (rline n tx) = int n"
    "one_line (rline n tx)" "length (rline n tx) = length tx + 4"
proof -
  obtain a b c where abc: "code3 n = [a, b, c]" "isdigit a" "isdigit b" "isdigit c"
    using code3_digits [OF assms(1)] by metis
  have plain: "isdigit x \<Longrightarrow> x \<noteq> CR \<and> x \<noteq> LF \<and> x \<noteq> NUL \<and> \<not> isspace x" for x
    by (auto simp: isdigit_def isspace_def ccode_def)
  have sp: "isspace CHR '' ''" "\<not> isdigit CHR '' ''" by (simp_all add: isspace_def isdigit_def ccode_def)
  show "respcode (rline n tx) = int n" using respcode_code3 [OF assms(1) sp(2)] sp by (simp add: rline_def)
  show l: "one_line (rline n tx)" using abc plain assms(2) by (auto simp: rline_def)
  then have "CR \<notin> set (rline n tx)" by (auto simp: one_line_def)
  then show "reply_line (rline n tx) = rline n tx"
    using abc plain by (auto simp: rline_def reply_line_def takeWhile_eq_all_conv)
  show "length (rline n tx) = length tx + 4" using abc by (simp add: rline_def)
qed

text \<open>A line that a packet brings whole, before the socket would block.\<close>

lemma control_line:
  assumes "num_crecv s = 0" "length (crecv s) = CRECV_SIZE" "ctl_rx s = Rx (l @ [CR, LF]) # rest"
    and "one_line l" "length l \<le> 254"
  obtains c k where "length c = CRECV_SIZE"
    "handle_control h cb s = bindE (proc_control h cb l (s\<lparr>ctl_rx := rest, crecv := c\<rparr>))
      (\<lambda>t. control_loop h cb (Suc k) (t\<lparr>num_crecv := 0\<rparr>))"
proof -
  let ?r = "drop (length l + 2) (crecv s)"
  let ?c = "l @ [NUL, NUL] @ ?r"
  let ?t = "s\<lparr>ctl_rx := rest, crecv := (l @ [CR, LF]) @ ?r\<rparr>"
  obtain k where k: "rx_size (ctl_rx s) = Suc k"
    using assms(3) by (simp add: rx_size_def)
  have fit: "length l + 2 \<le> CRECV_SIZE" "\<not> CRECV_SIZE \<le> 0" using assms(5) by (simp_all add: CRECV_SIZE_def)
  have nul: "NUL \<notin> set l" and eol: "\<forall>c \<in> set l. c \<noteq> CR \<and> c \<noteq> LF" using assms(4) by (auto simp: one_line_def)
  have "scan_lines h cb (length l + 2) 0 0 ?t = scan_lines h cb 2 (length l) 0 ?t"
    using eol scan_skip [of l 0 ?t h cb 2 0] by auto
  also have "\<dots> = bindE (proc_control h cb (cstr (drop 0 ?c)) (?t\<lparr>crecv := ?c\<rparr>)) (\<lambda>t. Inr (t, Suc (Suc (length l))))"
    by (rule scan_crlf) (simp_all add: nth_append update_two)
  also have "\<dots> = bindE (proc_control h cb l (s\<lparr>ctl_rx := rest, crecv := ?c\<rparr>)) (\<lambda>t. Inr (t, length l + 2))"
    using nul cstr_take [of l "NUL # ?r"] by simp
  finally have sc: "scan_lines h cb (length l + 2) 0 0 ?t
      = bindE (proc_control h cb l (s\<lparr>ctl_rx := rest, crecv := ?c\<rparr>)) (\<lambda>t. Inr (t, length l + 2))" .
  have "rx_take CRECV_SIZE (ctl_rx s) = (Rx (l @ [CR, LF]), rest)" using assms(3) fit(1) by (simp add: rx_take_def)
  then have hc: "handle_control h cb s = bindE (scan_lines h cb (length l + 2) 0 0 ?t)
      (\<lambda>(s, buf). control_loop h cb (Suc k) (keep_rest buf (length l + 2) s))"
    using assms(1) fit(2) k by (simp add: handle_control_def Let_def del: scan_lines.simps)
  show thesis
  proof (rule that [of ?c k])
    show "length ?c = CRECV_SIZE" using fit(1) assms(2) by simp
    show "handle_control h cb s = bindE (proc_control h cb l (s\<lparr>ctl_rx := rest, crecv := ?c\<rparr>))
        (\<lambda>t. control_loop h cb (Suc k) (t\<lparr>num_crecv := 0\<rparr>))"
      unfolding hc sc by (simp add: bindE_assoc keep_rest_def del: control_loop.simps)
  qed
qed

lemma control_blocks:
  assumes "ctl_rx t = rest" "rest = [] \<or> hd rest = RxBlock"
  shows "control_loop h cb (Suc k) (t\<lparr>num_crecv := 0\<rparr>) = Inr (t\<lparr>num_crecv := 0, ctl_rx := tl rest\<rparr>, 0)"
  using assms by (cases rest) (auto simp: rx_take_def CRECV_SIZE_def)

lemma control_reply:
  assumes "num_crecv s = 0" "length (crecv s) = CRECV_SIZE" "ctl_rx s = Rx (l @ [CR, LF]) # rest"
    and "one_line l" "length l \<le> 254" "rest = [] \<or> hd rest = RxBlock"
  obtains c where "length c = CRECV_SIZE"
    "\<And>t. proc_control h cb l (s\<lparr>ctl_rx := rest, crecv := c\<rparr>) = Inr t \<Longrightarrow> ctl_rx t = rest \<Longrightarrow>
      handle_control h cb s = Inr (t\<lparr>num_crecv := 0, ctl_rx := tl rest\<rparr>, 0)"
proof -
  obtain c k where c: "length c = CRECV_SIZE"
    "handle_control h cb s = bindE (proc_control h cb l (s\<lparr>ctl_rx := rest, crecv := c\<rparr>))
      (\<lambda>t. control_loop h cb (Suc k) (t\<lparr>num_crecv := 0\<rparr>))"
    by (rule control_line [OF assms(1-5)])
  show thesis
    by (rule that [OF c(1)]) (use c(2) assms(6) in \<open>simp add: control_blocks del: control_loop.simps\<close>)
qed

text \<open>
  The same for \<open>ftp_handle\<close>: the reply is handled and then, when nothing is under way any more, the next
  operation of the queue is started.
\<close>

lemma handle_reply:
  assumes "num_crecv s = 0" "length (crecv s) = CRECV_SIZE" "ctl_rx s = Rx (rline n tx @ [CR, LF]) # rest"
    and "one_line tx" "length tx \<le> 250" "rest = [] \<or> hd rest = RxBlock" "n < 1000" "0 < n" "cproc s = Some f"
  obtains c where "length c = CRECV_SIZE"
    "\<And>t r. run_cproc h cb f (int n) (rline n tx) (cproc_cls s)
         (s\<lparr>ctl_rx := rest, crecv := c, out := out s @ [OLog Info ''recv: %s'' [rline n tx]], last_resp := int n\<rparr>)
        = Inr (t, r) \<Longrightarrow> ctl_rx t = rest \<Longrightarrow>
      handle_step cb h (ctl s) s =
        (let t = t\<lparr>busy := busy t - (if r \<le> 0 then 1 else 0), num_crecv := 0, ctl_rx := tl rest\<rparr>
         in if busy t \<le> 0 then if busy t \<noteq> 0 then Inl AssertFail else exec_queued h t else Inr t)"
proof -
  note rl = rline_text [OF assms(7,4)]
  obtain c where c: "length c = CRECV_SIZE"
    "\<And>t. proc_control h cb (rline n tx) (s\<lparr>ctl_rx := rest, crecv := c\<rparr>) = Inr t \<Longrightarrow> ctl_rx t = rest \<Longrightarrow>
      handle_control h cb s = Inr (t\<lparr>num_crecv := 0, ctl_rx := tl rest\<rparr>, 0)"
    using control_reply [OF assms(1-3) rl(3) _ assms(6), of h cb] rl(4) assms(5) by auto
  show thesis
  proof (rule that [OF c(1)])
    fix t r
    assume a: "run_cproc h cb f (int n) (rline n tx) (cproc_cls s)
         (s\<lparr>ctl_rx := rest, crecv := c, out := out s @ [OLog Info ''recv: %s'' [rline n tx]], last_resp := int n\<rparr>)
        = Inr (t, r)" "ctl_rx t = rest"
    let ?u = "t\<lparr>busy := busy t - (if r \<le> 0 then 1 else 0)\<rparr>"
    have "proc_control h cb (rline n tx) (s\<lparr>ctl_rx := rest, crecv := c\<rparr>) = Inr ?u"
      using a(1) assms(8,9) by (simp add: proc_control_def rl(1,2) emit_def Let_def)
    from c(2) [OF this] a(2) show "handle_step cb h (ctl s) s =
        (let t = t\<lparr>busy := busy t - (if r \<le> 0 then 1 else 0), num_crecv := 0, ctl_rx := tl rest\<rparr>
         in if busy t \<le> 0 then if busy t \<noteq> 0 then Inl AssertFail else exec_queued h t else Inr t)"
      by (simp add: handle_step_def Let_def)
  qed
qed

lemma handle_fault:
  assumes "num_crecv s = 0" "length (crecv s) = CRECV_SIZE" "ctl_rx s = Rx (rline n tx @ [CR, LF]) # rest"
    and "one_line tx" "length tx \<le> 250" "rest = [] \<or> hd rest = RxBlock" "n < 1000" "0 < n" "cproc s = Some f"
    and "\<And>u. xfers u = xfers s \<Longrightarrow> run_cproc h cb f (int n) (rline n tx) (cproc_cls s) u = Inl e"
  shows "handle_step cb h (ctl s) s = Inl e"
proof -
  note rl = rline_text [OF assms(7,4)]
  obtain c k where c: "handle_control h cb s = bindE (proc_control h cb (rline n tx) (s\<lparr>ctl_rx := rest, crecv := c\<rparr>))
      (\<lambda>t. control_loop h cb (Suc k) (t\<lparr>num_crecv := 0\<rparr>))"
    by (rule control_line [OF assms(1-3) rl(3), of h cb]) (use rl(4) assms(5) in auto)
  have "proc_control h cb (rline n tx) (s\<lparr>ctl_rx := rest, crecv := c\<rparr>) = Inl e"
    using assms(8-10) by (simp add: proc_control_def rl(1,2) emit_def Let_def)
  then show ?thesis by (simp add: handle_step_def c)
qed


section \<open>A change of directory\<close>

text \<open>The texts that have been sent.\<close>

definition sent :: "'a sys \<Rightarrow> string list" where
  "sent s = concat (map (\<lambda>e. case e of OSend fd t \<Rightarrow> [t] | _ \<Rightarrow> []) (out s))"

definition plain_op :: "opcode \<Rightarrow> ftp_op" where
  "plain_op c = \<lparr>op_code = c, op_arg = None, op_data = None\<rparr>"

text \<open>An engine that waits for \<open>n\<close> ends, with the operations \<open>ops\<close> queued.\<close>

definition awaits :: "int \<Rightarrow> ftp_op list \<Rightarrow> 'a sys \<Rightarrow> bool" where
  "awaits n ops s \<longleftrightarrow> busy s = n \<and> q_ok (opqueue s) \<and> q_list (opqueue s) = ops \<and> num_crecv s = 0
     \<and> length (crecv s) = CRECV_SIZE \<and> 0 \<le> ctl s \<and> mem_in s = []"

text \<open>What stays the same while a request is answered, without and with the state of the sockets.\<close>

definition same_rest :: "'a sys \<Rightarrow> 'a sys \<Rightarrow> bool" where
  "same_rest s t \<longleftrightarrow> ctl t = ctl s \<and> lis t = lis s \<and> pasv_mode t = pasv_mode s \<and> xfers t = xfers s
     \<and> files t = files s \<and> app t = app s \<and> dat_rx t = dat_rx s"

definition same_net :: "'a sys \<Rightarrow> 'a sys \<Rightarrow> bool" where
  "same_net s t \<longleftrightarrow> same_rest s t \<and> data t = data s \<and> sel_in t = sel_in s \<and> sock_in t = sock_in s
     \<and> conn_in t = conn_in s \<and> bufs t = bufs s"

lemmas same_defs = same_net_def same_rest_def

lemma same_rest_trans: "same_rest s t \<Longrightarrow> same_rest t u \<Longrightarrow> same_rest s u"
  by (simp add: same_rest_def)

lemma same_net_trans: "same_net s t \<Longrightarrow> same_net t u \<Longrightarrow> same_net s u"
  by (auto simp: same_net_def intro: same_rest_trans)

lemma exec_queued_item:
  assumes "q_ok (opqueue s)" "q_list (opqueue s) = op # ops"
  obtains q where "exec_queued h s = exec_op h op (s\<lparr>opqueue := q\<rparr>)" "q_ok q" "q_list q = ops"
  using assms(2) by (cases rule: opq.deqE [OF assms(1)]) (auto simp: exec_queued_def)

lemma exec_queued_none: "q_ok (opqueue s) \<Longrightarrow> q_list (opqueue s) = [] \<Longrightarrow> exec_queued h s = Inr s"
  by (cases rule: opq.deqE [of "opqueue s"]) (auto simp: exec_queued_def)

text \<open>The request.\<close>

definition cwd_text :: "string \<Rightarrow> string" where
  "cwd_text d = (if d = ''..'' then ''cdup'' else ''cwd '' @ d)"

lemma chdir_sent:
  assumes "awaits 0 [] s" "length d \<le> 240"
  obtains t where "ftp_queue h FTP_CHDIR (Some d) s = Inr (t, 0)" "awaits 1 [] t" "cproc t = Some Cproc_cwd"
    "ctl_rx t = ctl_rx s" "same_net s t" "sent t = sent s @ [cwd_text d @ [CR, LF]]"
proof -
  have "qhead (opqueue s) = None" using assms(1) q_head_list by (auto simp: awaits_def)
  then show thesis
    using assms that
    by (cases "d = ''..''") (simp_all add: ftp_queue_def exec_op.simps ftp_chdir_def sendcmd_def emit_def
        Let_def awaits_def same_defs sent_def cwd_text_def)
qed

text \<open>The server accepts it: the client asks for the name of the directory and queues the listing.\<close>

lemma cwd_accepted:
  assumes "awaits 1 [] s" "cproc s = Some Cproc_cwd" "ctl_rx s = Rx (rline 250 tx @ [CR, LF]) # RxBlock # rest"
    and "one_line tx" "length tx \<le> 250"
  obtains t where "handle_step cb h (ctl s) s = Inr t" "awaits 1 [plain_op FTP_LIST] t" "cproc t = Some Cproc_pwd"
    "ctl_rx t = rest" "same_net s t" "sent t = sent s @ [''pwd'' @ [CR, LF]]"
proof -
  have s: "num_crecv s = 0" "length (crecv s) = CRECV_SIZE" "busy s = 1" "q_ok (opqueue s)"
    "q_list (opqueue s) = []" "mem_in s = []" "0 \<le> ctl s" using assms(1) by (simp_all add: awaits_def)
  obtain q1 where q1: "enq_op (plain_op FTP_PWD) (opqueue s) = Inr q1" "q_ok q1" "q_list q1 = [plain_op FTP_PWD]"
    using opq.enqE [OF s(4), of "plain_op FTP_PWD"] s(5) by auto
  obtain q2 where q2: "enq_op (plain_op FTP_LIST) q1 = Inr q2" "q_ok q2" "q_list q2 = [plain_op FTP_PWD, plain_op FTP_LIST]"
    using opq.enqE [OF q1(2), of "plain_op FTP_LIST"] q1(3) by auto
  have cwd: "cproc_cwd h 250 u = Inr (u\<lparr>opqueue := q2\<rparr>, 0)" if "busy u = 1" "opqueue u = opqueue s" "mem_in u = []" for u
    using that q1(1) q2(1) by (simp add: cproc_cwd_def ftp_queue_def sys_malloc_def plain_op_def)
  obtain c where c: "length c = CRECV_SIZE"
    "handle_step cb h (ctl s) s = exec_queued h (s\<lparr>crecv := c, out := out s @ [OLog Info ''recv: %s'' [rline 250 tx]],
        last_resp := 250, opqueue := q2, busy := 0, num_crecv := 0, ctl_rx := rest\<rparr>)"
    using handle_reply [OF s(1,2) assms(3-5) _ _ _ assms(2), of h cb] cwd s by (auto simp: run_cproc_def)
  let ?t = "s\<lparr>crecv := c, out := out s @ [OLog Info ''recv: %s'' [rline 250 tx]],
        last_resp := 250, opqueue := q2, busy := 0, num_crecv := 0, ctl_rx := rest\<rparr>"
  obtain q3 where q3: "exec_queued h ?t = exec_op h (plain_op FTP_PWD) (?t\<lparr>opqueue := q3\<rparr>)" "q_ok q3" "q_list q3 = [plain_op FTP_LIST]"
    using exec_queued_item [of ?t "plain_op FTP_PWD" "[plain_op FTP_LIST]" h] q2 by auto
  then show thesis
    using c s that
    by (simp add: plain_op_def exec_op.simps ftp_pwd_def sendcmd_def emit_def awaits_def same_defs sent_def)
qed

section \<open>The data connection\<close>

text \<open>The text of a reply 227 that holds an address, and the answers with which passive mode succeeds.\<close>

definition offers :: "string \<Rightarrow> 32 word \<Rightarrow> 16 word \<Rightarrow> bool" where
  "offers l a p \<longleftrightarrow> one_line l \<and> length l \<le> 250 \<and> parse_pasv (rline 227 l) = Some (a, uint p)"

definition passive_works :: "32 word \<Rightarrow> 16 word \<Rightarrow> int \<Rightarrow> rx_ans list \<Rightarrow> 'a sys \<Rightarrow> bool" where
  "passive_works a p fd rest s \<longleftrightarrow> lis s < 0 \<and> data s = -1 \<and> pasv_mode s \<and> 0 \<le> fd \<and> (rest = [] \<or> hd rest = RxBlock)
     \<and> (\<exists>l. ctl_rx s = Rx (rline 227 l @ [CR, LF]) # rest \<and> offers l a p)
     \<and> (\<exists>r. sock_in s = fd # r) \<and> (\<exists>r. conn_in s = True # r) \<and> (\<exists>e r. sel_in s = Sel True e # r)"

definition opened :: "32 word \<Rightarrow> 16 word \<Rightarrow> int \<Rightarrow> 'a sys \<Rightarrow> 'a sys \<Rightarrow> bool" where
  "opened a p fd s t \<longleftrightarrow> data t = fd \<and> OConnect fd a (uint p) \<in> set (out t) \<and> same_rest s t
     \<and> sock_in t = tl (sock_in s) \<and> conn_in t = tl (conn_in s) \<and> sel_in t = tl (sel_in s)"

lemma offers_text:
  assumes "one_line (tx @ CHR ''('' # port_args a p @ post)" "length (tx @ CHR ''('' # port_args a p @ post) \<le> 250"
    and "\<forall>c \<in> set tx. \<not> isdigit c" "post = [] \<or> \<not> isdigit (hd post)"
  shows "offers (tx @ CHR ''('' # port_args a p @ post) a p"
proof -
  have "code3 227 = ''227''" by code_simp
  then show ?thesis
    using assms(1,2) parse_pasv_port_args [OF assms(3,4), of a p] by (simp add: offers_def rline_def)
qed

text \<open>
  The reply to \<open>PASV\<close>. The engine is not busy then, so the next operation of the queue is started, before
  the one that has asked for the connection goes on.
\<close>

lemma pasv_reply:
  assumes "awaits 1 ops s" "cproc s = Some Cproc_pasv" "ctl_rx s = Rx (rline 227 l @ [CR, LF]) # rest" "offers l a p"
    and "rest = [] \<or> hd rest = RxBlock" "sock_in s = fd # fds" "0 \<le> fd" "conn_in s = True # cs"
  obtains t where "handle_step cb h (ctl s) s = exec_queued h t" "awaits 0 ops t" "last_resp t = 227" "sent t = sent s"
    "data t = fd" "OConnect fd a (uint p) \<in> set (out t)" "same_rest s t" "sock_in t = fds" "conn_in t = cs" "sel_in t = sel_in s"
    "ctl_rx t = tl rest" "curdir t = curdir s" "bufs t = bufs s"
proof -
  have s: "num_crecv s = 0" "length (crecv s) = CRECV_SIZE" using assms(1) by (simp_all add: awaits_def)
  have l: "one_line l" "length l \<le> 250" and pp: "parse_pasv (rline 227 l) = Some (a, uint p)"
    using assms(4) by (simp_all add: offers_def)
  have run: "run_cproc h cb Cproc_pasv 227 (rline 227 l) k u
      = Inr (u\<lparr>sock_in := fds, data := fd, conn_in := cs, status := FTP_CONN_PASV,
          out := out u @ [OLog Info ''passive mode: %s port %d'' [inet_ntoa a, dec_str (nat (uint p))], OConnect fd a (uint p)]\<rparr>, 0)"
    if "sock_in u = fd # fds" "conn_in u = True # cs" for u k
    using that pp assms(7) by (simp add: run_cproc_def cproc_pasv_def sys_socket_def sys_connect_def emit_def)
  obtain c where c: "length c = CRECV_SIZE"
    "\<And>t r. run_cproc h cb Cproc_pasv 227 (rline 227 l) (cproc_cls s)
         (s\<lparr>ctl_rx := rest, crecv := c, out := out s @ [OLog Info ''recv: %s'' [rline 227 l]], last_resp := 227\<rparr>)
        = Inr (t, r) \<Longrightarrow> ctl_rx t = rest \<Longrightarrow>
      handle_step cb h (ctl s) s =
        (let t = t\<lparr>busy := busy t - (if r \<le> 0 then 1 else 0), num_crecv := 0, ctl_rx := tl rest\<rparr>
         in if busy t \<le> 0 then if busy t \<noteq> 0 then Inl AssertFail else exec_queued h t else Inr t)"
    using handle_reply [OF s assms(3) l assms(5) _ _ assms(2), of h cb] by auto
  note step = c(2) [OF run]
  have "\<exists>t. handle_step cb h (ctl s) s = exec_queued h t \<and> awaits 0 ops t \<and> last_resp t = 227 \<and> sent t = sent s
    \<and> data t = fd \<and> OConnect fd a (uint p) \<in> set (out t) \<and> same_rest s t \<and> sock_in t = fds \<and> conn_in t = cs \<and> sel_in t = sel_in s
    \<and> ctl_rx t = tl rest \<and> curdir t = curdir s \<and> bufs t = bufs s"
    by (subst step) (use assms(1,6,8) c(1) in \<open>auto simp: Let_def awaits_def sent_def same_rest_def\<close>)
  then show thesis using that by blast
qed

text \<open>The wait calls \<open>ftp_handle\<close> after it has taken the answer of \<open>select\<close>.\<close>

definition agrees :: "'a handler \<Rightarrow> 'a callback \<Rightarrow> 'a handler \<Rightarrow> 'a sys \<Rightarrow> bool" where
  "agrees g cb h s \<longleftrightarrow> (\<forall>fd v. sel_in v = tl (sel_in s) \<longrightarrow> g fd v = handle_step cb h fd v)"

lemma agrees_step [simp]: "agrees (handle_step cb h) cb h s"
  by (simp add: agrees_def)

lemma agrees_handle [simp]: "agrees (ftp_handle cb) cb (ftp_handle_n (length (sel_in s) - 1) cb) s"
  by (simp add: agrees_def ftp_handle_def)

lemma passive_opens:
  assumes "awaits 0 ops s" "passive_works a p fd rest s"
  obtains t where "awaits 0 ops t" "opened a p fd s t" "ctl_rx t = tl rest" "curdir t = curdir s" "bufs t = bufs s"
    "sent t = sent s @ [''PASV'' @ [CR, LF]]" "last_resp t = 227"
    "\<And>g w. agrees g cb h s \<Longrightarrow> exec_queued h t = Inr w \<Longrightarrow> last_resp w \<noteq> 0 \<Longrightarrow> data w \<noteq> -1 \<Longrightarrow> prepare_data g s = Inr (w, 0)"
proof -
  obtain l fds cs e sl where o: "ctl_rx s = Rx (rline 227 l @ [CR, LF]) # rest" "offers l a p" "rest = [] \<or> hd rest = RxBlock"
    "sock_in s = fd # fds" "0 \<le> fd" "conn_in s = True # cs" "sel_in s = Sel True e # sl" "lis s < 0" "data s = -1" "pasv_mode s"
    using assms(2) by (auto simp: passive_works_def)
  have s: "busy s = 0" "0 \<le> ctl s" using assms(1) by (simp_all add: awaits_def)
  define u where "u = s\<lparr>busy := 1, out := out s @ [OLog Info ''send: %s'' [''PASV''], OSend (ctl s) (''PASV'' @ [CR, LF])],
    cproc := Some Cproc_pasv\<rparr>"
  have pas: "ftp_passive s = Inr u"
    using s o(8,9) by (simp add: ftp_passive_def sendcmd_def emit_def u_def)
  let ?v = "u\<lparr>sel_in := sl, last_resp := -1\<rparr>"
  have v: "awaits 1 ops ?v" "cproc ?v = Some Cproc_pasv" "ctl ?v = ctl s" "sent ?v = sent s @ [''PASV'' @ [CR, LF]]"
    using assms(1) s by (simp_all add: awaits_def u_def sent_def)
  obtain w where w: "handle_step cb h (ctl ?v) ?v = exec_queued h w" "awaits 0 ops w" "last_resp w = 227"
    "sent w = sent ?v" "data w = fd" "OConnect fd a (uint p) \<in> set (out w)" "same_rest ?v w" "sock_in w = fds" "conn_in w = cs"
    "sel_in w = sel_in ?v" "ctl_rx w = tl rest" "curdir w = curdir ?v" "bufs w = bufs ?v"
    by (rule pasv_reply [OF v(1,2) _ o(2,3) _ o(5), of fds cs cb h]) (use o(1,4,6) in \<open>simp_all add: u_def\<close>)
  have "prepare_data g s = Inr (r, 0)"
    if "agrees g cb h s" "exec_queued h w = Inr r" "last_resp r \<noteq> 0" "data r \<noteq> -1" for g r
  proof -
    have "g (ctl ?v) ?v = Inr r" using that(1,2) w(1) o(7) by (simp add: agrees_def)
    then have "ftp_waitresp g TIMEOUT u = Inr (r, last_resp r)"
      using that(3) v(3) s(2) o(7) by (simp add: ftp_waitresp_def wait_loop.simps(2) u_def TIMEOUT_def)
    then show ?thesis using pas o(9,10) that(4) by (simp add: prepare_data_def)
  qed
  moreover have "opened a p fd s w" using w o(4,6,7) by (simp add: opened_def same_rest_def u_def)
  ultimately show thesis using that [of w] w v(4) by (simp add: u_def)
qed

lemma passive_prepared:
  assumes "awaits 0 [] s" "passive_works a p fd rest s" "agrees g cb h s"
  obtains w where "prepare_data g s = Inr (w, 0)" "awaits 0 [] w" "opened a p fd s w" "ctl_rx w = tl rest"
    "curdir w = curdir s" "sent w = sent s @ [''PASV'' @ [CR, LF]]"
proof (rule passive_opens [OF assms(1,2), of cb h])
  fix w
  assume w: "awaits 0 [] w" "opened a p fd s w" "ctl_rx w = tl rest" "curdir w = curdir s"
    "sent w = sent s @ [''PASV'' @ [CR, LF]]" "last_resp w = 227"
    and prep: "\<And>g r. agrees g cb h s \<Longrightarrow> exec_queued h w = Inr r \<Longrightarrow> last_resp r \<noteq> 0 \<Longrightarrow> data r \<noteq> -1 \<Longrightarrow> prepare_data g s = Inr (r, 0)"
  have "data w \<noteq> -1" using w(2) assms(2) by (auto simp: opened_def passive_works_def)
  then show thesis
    using that prep [OF assms(3), of w] exec_queued_none [of w h] w by (auto simp: awaits_def)
qed

text \<open>A listing is asked for on a data connection that the server opens.\<close>

definition asked_list :: "'a sys \<Rightarrow> bool" where
  "asked_list t \<longleftrightarrow> awaits 2 [] t \<and> cproc t = Some Cproc_list \<and> dproc t = Some Dproc_list
     \<and> (\<exists>i b. dproc_cls t = ClsBuf i \<and> bufs t i = Some b \<and> buf_ok b \<and> rb_data b = [])"

lemma list_passive:
  assumes "awaits 0 [] s" "passive_works a p fd rest s" "agrees g cb h s"
  obtains t where "ftp_list g s = Inr (t, 0)" "asked_list t" "opened a p fd s t" "ctl_rx t = tl rest"
    "sent t = sent s @ map (\<lambda>c. c @ [CR, LF]) [''PASV'', ''list'']" "curdir t = curdir s"
proof -
  obtain w where "prepare_data g s = Inr (w, 0)" and w: "awaits 0 [] w" "opened a p fd s w"
    "ctl_rx w = tl rest" "curdir w = curdir s" "sent w = sent s @ [''PASV'' @ [CR, LF]]"
    by (rule passive_prepared [OF assms])
  then show thesis
    using that w by (simp add: ftp_list_def sys_malloc_def awaits_def sendcmd_def emit_def Let_def sent_def asked_list_def
        opened_def same_rest_def buf_ok_def rb_data_def fresh_bytes_def)
qed

text \<open>The same for a file.\<close>

definition asked_file :: "nat \<Rightarrow> 'a sys \<Rightarrow> bool" where
  "asked_file i t \<longleftrightarrow> awaits 2 [] t \<and> cproc t = Some Cproc_xfer \<and> dproc t = Some Dproc_xfer
     \<and> cproc_cls t = ClsXfer i \<and> dproc_cls t = ClsXfer i"

lemma file_passive:
  assumes "awaits 0 [] s" "passive_works a p fd rest s" "agrees g cb h s" "xfers s i = Some x" "x_op x = FTP_RETR" "length (x_rname x) \<le> 248"
  obtains t where "ftp_transfer g (Some i) s = Inr (t, 0)" "asked_file i t" "opened a p fd s t" "ctl_rx t = tl rest"
    "sent t = sent s @ map (\<lambda>c. c @ [CR, LF]) [''PASV'', ''retr '' @ x_rname x]"
proof -
  obtain w where "prepare_data g s = Inr (w, 0)" and w: "awaits 0 [] w" "opened a p fd s w"
    "ctl_rx w = tl rest" "curdir w = curdir s" "sent w = sent s @ [''PASV'' @ [CR, LF]]"
    by (rule passive_prepared [OF assms(1-3)])
  moreover have "xfers w i = Some x" using w(2) assms(4) by (simp add: opened_def same_rest_def)
  ultimately show thesis
    using that w assms(5,6) by (simp add: ftp_transfer_def awaits_def sendcmd_def emit_def Let_def sent_def asked_file_def
        opened_def same_rest_def)
qed

section \<open>The name of the directory\<close>

text \<open>After it the queued listing is started at once.\<close>

definition names_dir :: "string \<Rightarrow> string \<Rightarrow> bool" where
  "names_dir l d \<longleftrightarrow> one_line l \<and> length l \<le> 250 \<and> get_quoted_text (rline 257 l) = Some d"

lemma names_dir_quoted:
  assumes "one_line (DQUOTE # d @ DQUOTE # tx)" "length (DQUOTE # d @ DQUOTE # tx) \<le> 250" "DQUOTE \<notin> set d"
  shows "names_dir (DQUOTE # d @ DQUOTE # tx) d"
proof -
  have "DQUOTE \<notin> set (code3 257 @ '' '')" by code_simp
  moreover have "takeWhile (\<lambda>c. c \<noteq> DQUOTE) (d @ DQUOTE # tx) = d" using assms(3) by (induction d) auto
  ultimately have "get_quoted_text ((code3 257 @ '' '') @ DQUOTE # d @ DQUOTE # tx) = Some d"
    by (subst get_quoted_eq) simp_all
  then show ?thesis using assms(1,2) by (simp add: names_dir_def rline_def)
qed

lemma pwd_answered:
  assumes "awaits 1 [plain_op FTP_LIST] s" "cproc s = Some Cproc_pwd"
    and "ctl_rx s = Rx (rline 257 l @ [CR, LF]) # RxBlock # r" "names_dir l d" "passive_works a p fd rest (s\<lparr>ctl_rx := r\<rparr>)"
  obtains t where "handle_step cb (handle_step cb h) (ctl s) s = Inr t" "asked_list t" "opened a p fd s t"
    "ctl_rx t = tl rest" "sent t = sent s @ map (\<lambda>c. c @ [CR, LF]) [''PASV'', ''list'']" "curdir t = Some d"
proof -
  have s: "num_crecv s = 0" "length (crecv s) = CRECV_SIZE" "busy s = 1" "q_ok (opqueue s)"
    "q_list (opqueue s) = [plain_op FTP_LIST]" "mem_in s = []" "0 \<le> ctl s" using assms(1) by (simp_all add: awaits_def)
  have l: "one_line l" "length l \<le> 250" and quo: "get_quoted_text (rline 257 l) = Some d"
    using assms(4) by (simp_all add: names_dir_def)
  have run: "run_cproc h' cb Cproc_pwd 257 (rline 257 l) k u = Inr (u\<lparr>curdir := Some d, modified := FTP_MOD_DIR\<rparr>, 0)" for h' k u
    using quo by (simp add: run_cproc_def cproc_pwd_def)
  obtain c where c: "length c = CRECV_SIZE"
    "handle_step cb (handle_step cb h) (ctl s) s = exec_queued (handle_step cb h)
      (s\<lparr>crecv := c, out := out s @ [OLog Info ''recv: %s'' [rline 257 l]], last_resp := 257, curdir := Some d,
        modified := FTP_MOD_DIR, busy := 0, num_crecv := 0, ctl_rx := r\<rparr>)"
    using handle_reply [OF s(1,2) assms(3) l _ _ _ assms(2), of "handle_step cb h" cb] run s by auto
  let ?t = "s\<lparr>crecv := c, out := out s @ [OLog Info ''recv: %s'' [rline 257 l]], last_resp := 257, curdir := Some d,
        modified := FTP_MOD_DIR, busy := 0, num_crecv := 0, ctl_rx := r\<rparr>"
  obtain q where q: "exec_queued (handle_step cb h) ?t = exec_op (handle_step cb h) (plain_op FTP_LIST) (?t\<lparr>opqueue := q\<rparr>)"
    "q_ok q" "q_list q = []"
    using exec_queued_item [of ?t "plain_op FTP_LIST" "[]" "handle_step cb h"] s by auto
  have aw: "awaits 0 [] (?t\<lparr>opqueue := q\<rparr>)" using s c(1) q by (simp add: awaits_def)
  have co: "passive_works a p fd rest (?t\<lparr>opqueue := q\<rparr>)" using assms(5) by (simp add: passive_works_def)
  obtain t where t: "ftp_list (handle_step cb h) (?t\<lparr>opqueue := q\<rparr>) = Inr (t, 0)" "asked_list t"
    "opened a p fd (?t\<lparr>opqueue := q\<rparr>) t" "ctl_rx t = tl rest"
    "sent t = sent (?t\<lparr>opqueue := q\<rparr>) @ map (\<lambda>c. c @ [CR, LF]) [''PASV'', ''list'']" "curdir t = curdir (?t\<lparr>opqueue := q\<rparr>)"
    by (rule list_passive [OF aw co agrees_step])
  have "handle_step cb (handle_step cb h) (ctl s) s = Inr t"
    using c(2) q(1) t(1) by (simp add: plain_op_def exec_op.simps)
  moreover have "opened a p fd s t" using t(3) by (simp add: opened_def same_rest_def)
  ultimately show thesis using that t by (simp add: sent_def)
qed

section \<open>Active mode\<close>

lemma list_active:
  assumes "awaits 0 [] s" "\<not> pasv_mode s" "data s = -1" "length (port_args a p) \<le> 248"
    and "sock_in s = fd # fds" "fd \<noteq> -1" "bind_in s = True # bs" "name_in s = Some (a, p) # ns"
  obtains t where "ftp_list h s = Inr (t, -1)" "awaits 1 [] t" "cproc t = Some Cproc_active" "dproc t = dproc s" "lis t = fd"
    "ctl_rx t = ctl_rx s" "ctl t = ctl s" "sent t = sent s @ [''PORT '' @ port_args a p @ [CR, LF]]"
proof -
  have "\<exists>t. ftp_active s = Inr (t, 0) \<and> awaits 1 [] t \<and> cproc t = Some Cproc_active \<and> dproc t = dproc s \<and> lis t = fd
    \<and> ctl_rx t = ctl_rx s \<and> ctl t = ctl s \<and> data t = -1 \<and> sent t = sent s @ [''PORT '' @ port_args a p @ [CR, LF]]"
    using assms by (simp add: ftp_active_def sys_socket_def sys_bind_def sys_getsockname_def sendcmd_def emit_def
        Let_def awaits_def sent_def)
  then show thesis using that assms(2,3) by (auto simp: ftp_list_def prepare_data_def)
qed

lemma port_accepted:
  assumes "awaits 1 [] s" "cproc s = Some Cproc_active" "ctl_rx s = [Rx (rline 200 tx @ [CR, LF])]"
    and "one_line tx" "length tx \<le> 250"
  obtains t where "handle_step cb h (ctl s) s = Inr t" "awaits 0 [] t" "dproc t = dproc s" "lis t = lis s" "sent t = sent s"
proof -
  have s: "num_crecv s = 0" "length (crecv s) = CRECV_SIZE" "busy s = 1" "q_ok (opqueue s)"
    "q_list (opqueue s) = []" "mem_in s = []" "0 \<le> ctl s" using assms(1) by (simp_all add: awaits_def)
  have run: "run_cproc h cb Cproc_active 200 l k u = Inr (u\<lparr>status := FTP_CONN_ACT\<rparr>, 0)" for l k u
    by (simp add: run_cproc_def cproc_active_def)
  obtain c where c: "length c = CRECV_SIZE" "handle_step cb h (ctl s) s = exec_queued h
      (s\<lparr>crecv := c, out := out s @ [OLog Info ''recv: %s'' [rline 200 tx]], last_resp := 200, status := FTP_CONN_ACT,
         busy := 0, num_crecv := 0, ctl_rx := []\<rparr>)"
    using handle_reply [OF s(1,2) assms(3-5) _ _ _ assms(2), of h cb] run s by auto
  show thesis
    by (rule that, subst c(2), rule exec_queued_none) (use s c(1) in \<open>simp_all add: awaits_def sent_def\<close>)
qed

lemma ftp_handle_knot: "ftp_handle_n (Suc n) cb = handle_step cb (ftp_handle_n n cb)"
  by (intro ext) simp

section \<open>Examples\<close>

lemma port_example: "port_args 0x7f000001 2021 = ''127,0,0,1,7,229''"
  by code_simp

definition dialogue_example :: "client sys" where
  "dialogue_example = (idle client0)\<lparr>sock_in := [4], conn_in := [True], sel_in := [Sel True 0],
     ctl_rx := [Rx (rline 250 ''ok'' @ [CR, LF]), RxBlock,
       Rx (rline 257 (DQUOTE # ''/pub'' @ DQUOTE # '' is it'') @ [CR, LF]), RxBlock,
       Rx (rline 227 (''Passive '' @ CHR ''('' # port_args 0x7f000001 2021 @ '')'') @ [CR, LF])]\<rparr>"

definition active_example :: "client sys" where
  "active_example = (idle client0)\<lparr>pasv_mode := False, sock_in := [5], bind_in := [True],
     name_in := [Some (0x7f000001, 2021)], ctl_rx := [Rx (rline 200 ''ok'' @ [CR, LF])]\<rparr>"

end
