(* ===== verification/Session.thy ===== *)
theory Session
  imports Dialogue
begin

text \<open>
  A session, event by event: the login up to the request for the first listing, the data of a listing or a
  file in any number of packets, and the replies that come before and after it.
\<close>

text \<open>The calls of \<open>ftp_handle\<close> for descriptors that become readable one after the other.\<close>

fun events :: "'a callback \<Rightarrow> int list \<Rightarrow> 'a sys \<Rightarrow> 'a sys res" where
  "events cb [] s = Inr s"
| "events cb (fd # fds) s = bindE (ftp_handle cb fd s) (events cb fds)"

lemma events_append: "events cb (a @ b) s = bindE (events cb a s) (events cb b)"
proof (induction a arbitrary: s)
  case (Cons fd a)
  then show ?case by (cases "ftp_handle cb fd s") simp_all
qed simp

lemma events_snoc: "events cb (fds @ [fd]) s = bindE (events cb fds s) (ftp_handle cb fd)"
proof -
  have "events cb [fd] = ftp_handle cb fd"
  proof
    show "events cb [fd] t = ftp_handle cb fd t" for t by (cases "ftp_handle cb fd t") simp_all
  qed
  then show ?thesis by (simp only: events_append)
qed

section \<open>Two transfers in the queue\<close>

definition file_op :: "nat \<Rightarrow> ftp_op" where
  "file_op i = \<lparr>op_code = FTP_XFER, op_arg = None, op_data = Some i\<rparr>"

text \<open>
  While the first one waits for its data connection, the nested \<open>ftp_handle\<close> finds the engine idle and starts
  the second one, which uses the connection; then the first one goes on.
\<close>

lemma transfers_mixed:
  assumes "awaits 0 [file_op i, file_op j] s" "passive_works a p fd rest s" "agrees g cb h s"
    and "xfers s i = Some x" "x_op x = FTP_RETR" "length (x_rname x) \<le> 248"
    and "xfers s j = Some y" "x_op y = FTP_RETR" "length (x_rname y) \<le> 248"
  obtains t where "exec_queued g s = Inr t" "awaits 4 [] t" "dproc t = Some Dproc_xfer" "dproc_cls t = ClsXfer i"
    "opened a p fd s t" "sent t = sent s @ map (\<lambda>c. c @ [CR, LF]) [''PASV'', ''retr '' @ x_rname y, ''retr '' @ x_rname x]"
proof -
  have q: "q_ok (opqueue s)" "q_list (opqueue s) = [file_op i, file_op j]" using assms(1) by (simp_all add: awaits_def)
  obtain q' where q': "exec_queued g s = exec_op g (file_op i) (s\<lparr>opqueue := q'\<rparr>)"
    "q_ok q'" "q_list q' = [file_op j]" by (rule exec_queued_item [OF q])
  let ?s = "s\<lparr>opqueue := q'\<rparr>"
  have aw: "awaits 0 [file_op j] ?s" and co: "passive_works a p fd rest ?s" and ag: "agrees g cb h ?s"
    using assms(1-3) q' by (simp_all add: awaits_def passive_works_def agrees_def)
  show thesis
  proof (rule passive_opens [OF aw co, of cb h])
    fix w
    assume w: "awaits 0 [file_op j] w" "opened a p fd ?s w" "sent w = sent ?s @ [''PASV'' @ [CR, LF]]" "last_resp w = 227"
      and prep: "\<And>g r. agrees g cb h ?s \<Longrightarrow> exec_queued h w = Inr r \<Longrightarrow> last_resp r \<noteq> 0 \<Longrightarrow> data r \<noteq> -1 \<Longrightarrow> prepare_data g ?s = Inr (r, 0)"
    have wq: "q_ok (opqueue w)" "q_list (opqueue w) = [file_op j]" using w(1) by (simp_all add: awaits_def)
    obtain q2 where q2: "exec_queued h w = exec_op h (file_op j) (w\<lparr>opqueue := q2\<rparr>)" "q_ok q2" "q_list q2 = []"
      by (rule exec_queued_item [OF wq])
    have d: "0 \<le> data w" "xfers w i = Some x" "xfers w j = Some y"
      using w(2) assms(2,4,7) by (auto simp: opened_def same_rest_def passive_works_def)
    have "exec_op h (file_op j) (w\<lparr>opqueue := q2\<rparr>) = bindE (sendcmd (''retr '' @ x_rname y) (w\<lparr>opqueue := q2\<rparr>)) (\<lambda>s.
        Inr (s\<lparr>cproc := Some Cproc_xfer, dproc := Some Dproc_xfer, cproc_cls := ClsXfer j, dproc_cls := ClsXfer j,
          busy := busy s + 1\<rparr>))"
      using d assms(8) by (simp add: exec_op.simps file_op_def ftp_transfer_def prepare_data_def bindE_assoc)
    then obtain r where r: "exec_queued h w = Inr r" "awaits 2 [] r" "last_resp r = 227" "data r = data w" "xfers r = xfers w"
      "opened a p fd ?s r" "sent r = sent w @ [''retr '' @ x_rname y @ [CR, LF]]"
      using q2 w assms(9) by (simp add: sendcmd_def emit_def awaits_def opened_def same_rest_def sent_def)
    have "prepare_data g ?s = Inr (r, 0)" using prep [OF ag r(1)] r(3,4) d(1) by simp
    then show thesis
      using q'(1) r d assms(5,6) w that
      by (simp add: exec_op.simps file_op_def ftp_transfer_def sendcmd_def emit_def Let_def awaits_def opened_def
          same_rest_def sent_def)
  qed
qed

section \<open>The login\<close>

lemma handle_login:
  assumes "num_crecv s = 0" "length (crecv s) = CRECV_SIZE" "ctl_rx s = Rx (rline n tx @ [CR, LF]) # rest"
    and "one_line tx" "length tx \<le> 250" "rest = [] \<or> hd rest = RxBlock" "n < 1000" "0 < n" "cproc s = None"
  obtains c where "length c = CRECV_SIZE"
    "\<And>t. login_reply h (int n)
         (s\<lparr>ctl_rx := rest, crecv := c, out := out s @ [OLog Info ''recv: %s'' [rline n tx]], last_resp := int n\<rparr>)
        = Inr t \<Longrightarrow> ctl_rx t = rest \<Longrightarrow>
      handle_step cb h (ctl s) s =
        (let t = t\<lparr>num_crecv := 0, ctl_rx := tl rest\<rparr>
         in if busy t \<le> 0 then if busy t \<noteq> 0 then Inl AssertFail else exec_queued h t else Inr t)"
proof -
  note rl = rline_text [OF assms(7,4)]
  obtain c where c: "length c = CRECV_SIZE"
    "\<And>t. proc_control h cb (rline n tx) (s\<lparr>ctl_rx := rest, crecv := c\<rparr>) = Inr t \<Longrightarrow> ctl_rx t = rest \<Longrightarrow>
      handle_control h cb s = Inr (t\<lparr>num_crecv := 0, ctl_rx := tl rest\<rparr>, 0)"
    using control_reply [OF assms(1-3) rl(3) _ assms(6), of h cb] rl(4) assms(5) by auto
  show thesis
    by (rule that [OF c(1)])
      (use c(2) assms(8,9) in \<open>simp add: proc_control_def rl(1,2) emit_def handle_step_def Let_def\<close>)
qed

text \<open>The name and the password go out as they are asked for.\<close>

definition asks :: "nat \<Rightarrow> string \<Rightarrow> 'a sys \<Rightarrow> bool" where
  "asks n c s \<longleftrightarrow> (n = 220 \<and> c = ''user '' @ (case user s of Some u \<Rightarrow> u | None \<Rightarrow> ''anonymous'')
     \<or> n = 331 \<and> c = ''pass '' @ (case pass s of Some p \<Rightarrow> p | None \<Rightarrow> ''foobar'')) \<and> length c \<le> 253"

lemma login_asked:
  assumes "awaits m ops s" "cproc s = None" "ctl_rx s = Rx (rline n tx @ [CR, LF]) # RxBlock # rest"
    and "one_line tx" "length tx \<le> 250" "asks n c s"
  obtains t where "handle_step cb h (ctl s) s = Inr t" "awaits 1 ops t" "cproc t = None" "ctl_rx t = rest" "same_net s t"
    "user t = user s" "pass t = pass s" "curdir t = curdir s" "sent t = sent s @ [c @ [CR, LF]]"
proof -
  have s: "num_crecv s = 0" "length (crecv s) = CRECV_SIZE" "0 \<le> ctl s" using assms(1) by (simp_all add: awaits_def)
  have n: "0 < n" "n < 1000" using assms(6) by (auto simp: asks_def)
  have rep: "login_reply h (int n) u = sendcmd c (u\<lparr>busy := 0\<rparr>)" if "user u = user s" "pass u = pass s" for u
    using assms(6) that by (auto simp: asks_def login_reply_def)
  obtain k where k: "length k = CRECV_SIZE"
    "\<And>t. login_reply h (int n)
         (s\<lparr>ctl_rx := RxBlock # rest, crecv := k, out := out s @ [OLog Info ''recv: %s'' [rline n tx]], last_resp := int n\<rparr>)
        = Inr t \<Longrightarrow> ctl_rx t = RxBlock # rest \<Longrightarrow>
      handle_step cb h (ctl s) s =
        (let t = t\<lparr>num_crecv := 0, ctl_rx := rest\<rparr>
         in if busy t \<le> 0 then if busy t \<noteq> 0 then Inl AssertFail else exec_queued h t else Inr t)"
    using handle_login [OF s(1,2) assms(3-5) _ n(2,1) assms(2), of h cb] by auto
  have "\<exists>t. login_reply h (int n)
         (s\<lparr>ctl_rx := RxBlock # rest, crecv := k, out := out s @ [OLog Info ''recv: %s'' [rline n tx]], last_resp := int n\<rparr>)
        = Inr t \<and> ctl_rx t = RxBlock # rest \<and> awaits 1 ops (t\<lparr>num_crecv := 0\<rparr>) \<and> cproc t = None \<and> same_net s t
        \<and> user t = user s \<and> pass t = pass s \<and> curdir t = curdir s \<and> sent t = sent s @ [c @ [CR, LF]]"
    using assms(1,2,6) k(1) by (subst rep) (auto simp: asks_def sendcmd_def emit_def Let_def awaits_def same_defs sent_def)
  then obtain t where t: "login_reply h (int n)
         (s\<lparr>ctl_rx := RxBlock # rest, crecv := k, out := out s @ [OLog Info ''recv: %s'' [rline n tx]], last_resp := int n\<rparr>)
        = Inr t" "ctl_rx t = RxBlock # rest" "awaits 1 ops (t\<lparr>num_crecv := 0\<rparr>)" "cproc t = None" "same_net s t"
        "user t = user s" "pass t = pass s" "curdir t = curdir s" "sent t = sent s @ [c @ [CR, LF]]" by blast
  show thesis
    by (rule that [of "t\<lparr>num_crecv := 0, ctl_rx := rest\<rparr>"])
      (use k(2) [OF t(1,2)] t in \<open>simp_all add: Let_def awaits_def same_defs sent_def\<close>)
qed

lemma newconn_starts:
  assumes "0 \<le> ctl s" "q_ok (opqueue s)" "q_list (opqueue s) = []" "mem_in s = []" "busy s = 0"
  obtains q where "newconn h s = Inr (s\<lparr>busy := 1,
      out := out s @ [OLog Info ''send: %s'' [''type I''], OSend (ctl s) (''type I'' @ [CR, LF])], opqueue := q\<rparr>, 0)"
    "q_ok q" "q_list q = [plain_op FTP_PWD, plain_op FTP_LIST]"
proof -
  have head: "qhead (opqueue s) = None" using q_head_list assms(2,3) by blast
  obtain q1 where q1: "enq_op (plain_op FTP_PWD) (opqueue s) = Inr q1" "q_ok q1" "q_list q1 = [plain_op FTP_PWD]"
    using opq.enqE [OF assms(2), of "plain_op FTP_PWD"] assms(3) by auto
  obtain q2 where q2: "enq_op (plain_op FTP_LIST) q1 = Inr q2" "q_ok q2" "q_list q2 = [plain_op FTP_PWD, plain_op FTP_LIST]"
    using opq.enqE [OF q1(2), of "plain_op FTP_LIST"] q1(3) by auto
  have up: "toupper CHR ''I'' = CHR ''I''" by code_simp
  show thesis
    using assms(1,4,5) head q1(1) q2 that [of q2]
    by (simp add: newconn_def ftp_queue_def exec_op.simps ftp_type_def sendcmd_def emit_def sys_malloc_def Let_def up
        plain_op_def)
qed

lemma login_accepted:
  assumes "awaits m [] s" "cproc s = None" "ctl_rx s = Rx (rline 230 tx @ [CR, LF]) # RxBlock # rest"
    and "one_line tx" "length tx \<le> 250"
  obtains t where "handle_step cb h (ctl s) s = Inr t" "awaits 1 [plain_op FTP_PWD, plain_op FTP_LIST] t" "cproc t = None"
    "ctl_rx t = rest" "same_net s t" "sent t = sent s @ [''type I'' @ [CR, LF]]"
proof -
  have s: "num_crecv s = 0" "length (crecv s) = CRECV_SIZE" "0 \<le> ctl s" "q_ok (opqueue s)" "q_list (opqueue s) = []"
    "mem_in s = []" using assms(1) by (simp_all add: awaits_def)
  obtain k where k: "length k = CRECV_SIZE"
    "\<And>t. login_reply h 230
         (s\<lparr>ctl_rx := RxBlock # rest, crecv := k, out := out s @ [OLog Info ''recv: %s'' [rline 230 tx]], last_resp := 230\<rparr>)
        = Inr t \<Longrightarrow> ctl_rx t = RxBlock # rest \<Longrightarrow>
      handle_step cb h (ctl s) s =
        (let t = t\<lparr>num_crecv := 0, ctl_rx := rest\<rparr>
         in if busy t \<le> 0 then if busy t \<noteq> 0 then Inl AssertFail else exec_queued h t else Inr t)"
    using handle_login [OF s(1,2) assms(3-5) _ _ _ assms(2), of h cb] by auto
  let ?u = "emit (OLog Info ''login successful'' []) (s\<lparr>ctl_rx := RxBlock # rest, crecv := k,
    out := out s @ [OLog Info ''recv: %s'' [rline 230 tx]], last_resp := 230, busy := 0\<rparr>)"
  have u: "0 \<le> ctl ?u" "q_ok (opqueue ?u)" "q_list (opqueue ?u) = []" "mem_in ?u = []" "busy ?u = 0"
    using s by (simp_all add: emit_def)
  obtain q where q: "newconn h ?u = Inr (?u\<lparr>busy := 1,
      out := out ?u @ [OLog Info ''send: %s'' [''type I''], OSend (ctl ?u) (''type I'' @ [CR, LF])], opqueue := q\<rparr>, 0)"
    "q_ok q" "q_list q = [plain_op FTP_PWD, plain_op FTP_LIST]" by (rule newconn_starts [OF u])
  let ?t = "?u\<lparr>busy := 1, out := out ?u @ [OLog Info ''send: %s'' [''type I''], OSend (ctl ?u) (''type I'' @ [CR, LF])],
    opqueue := q\<rparr>"
  have "login_reply h 230
         (s\<lparr>ctl_rx := RxBlock # rest, crecv := k, out := out s @ [OLog Info ''recv: %s'' [rline 230 tx]], last_resp := 230\<rparr>)
        = Inr ?t"
    using q(1) by (simp add: login_reply_def)
  from k(2) [OF this] show thesis
    by (intro that [of "?t\<lparr>num_crecv := 0, ctl_rx := rest\<rparr>"])
      (use s k(1) q(2,3) assms(2) in \<open>simp_all add: Let_def emit_def awaits_def same_defs sent_def\<close>)
qed

text \<open>The reply to the type command starts the queue.\<close>

lemma type_accepted:
  assumes "awaits m [plain_op FTP_PWD, plain_op FTP_LIST] s" "cproc s = None"
    and "ctl_rx s = Rx (rline 200 tx @ [CR, LF]) # RxBlock # rest" "one_line tx" "length tx \<le> 250"
  obtains t where "handle_step cb h (ctl s) s = Inr t" "awaits 1 [plain_op FTP_LIST] t" "cproc t = Some Cproc_pwd"
    "ctl_rx t = rest" "same_net s t" "sent t = sent s @ [''pwd'' @ [CR, LF]]"
proof -
  have s: "num_crecv s = 0" "length (crecv s) = CRECV_SIZE" "0 \<le> ctl s" "q_ok (opqueue s)"
    "q_list (opqueue s) = [plain_op FTP_PWD, plain_op FTP_LIST]" "mem_in s = []" using assms(1) by (simp_all add: awaits_def)
  obtain k where k: "length k = CRECV_SIZE" "handle_step cb h (ctl s) s = exec_queued h
      (s\<lparr>crecv := k, out := out s @ [OLog Info ''recv: %s'' [rline 200 tx]], last_resp := 200, busy := 0,
        num_crecv := 0, ctl_rx := rest\<rparr>)"
    using handle_login [OF s(1,2) assms(3-5) _ _ _ assms(2), of h cb] by (auto simp: login_reply_def)
  let ?t = "s\<lparr>crecv := k, out := out s @ [OLog Info ''recv: %s'' [rline 200 tx]], last_resp := 200, busy := 0,
        num_crecv := 0, ctl_rx := rest\<rparr>"
  obtain q where "exec_queued h ?t = exec_op h (plain_op FTP_PWD) (?t\<lparr>opqueue := q\<rparr>)" "q_ok q" "q_list q = [plain_op FTP_LIST]"
    using exec_queued_item [of ?t "plain_op FTP_PWD" "[plain_op FTP_LIST]" h] s by auto
  then show thesis
    using k s that by (simp add: plain_op_def exec_op.simps ftp_pwd_def sendcmd_def emit_def awaits_def same_defs sent_def)
qed

text \<open>The whole login, from the connection to the request for the first listing.\<close>

lemma handle_two:
  "sel_in s = Sel True e # sl \<Longrightarrow> ftp_handle cb fd s = handle_step cb (handle_step cb (ftp_handle_n (length sl) cb)) fd s"
  by (simp add: ftp_handle_def ftp_handle_knot)

definition login_texts :: "'a sys \<Rightarrow> string list" where
  "login_texts s = [''user '' @ (case user s of Some u \<Rightarrow> u | None \<Rightarrow> ''anonymous''),
     ''pass '' @ (case pass s of Some p \<Rightarrow> p | None \<Rightarrow> ''foobar''), ''type I'', ''pwd'', ''PASV'', ''list'']"

definition line_ok :: "string \<Rightarrow> bool" where
  "line_ok l \<longleftrightarrow> one_line l \<and> length l \<le> 250"

lemma session_login:
  assumes "awaits 0 [] s" "cproc s = None" "\<forall>c \<in> set (login_texts s). length c \<le> 253"
    and "ctl_rx s = concat (map (\<lambda>(n, l). [Rx (rline n l @ [CR, LF]), RxBlock])
          [(220, l1), (331, l2), (230, l3), (200, l4), (257, l5)]) @ r"
    and "\<forall>l \<in> set [l1, l2, l3, l4]. line_ok l" "names_dir l5 d" "passive_works a p fd rest (s\<lparr>ctl_rx := r\<rparr>)"
  obtains v where "events cb (replicate 5 (ctl s)) s = Inr v" "asked_list v" "opened a p fd s v" "ctl_rx v = tl rest"
    "sent v = sent s @ map (\<lambda>c. c @ [CR, LF]) (login_texts s)" "curdir v = Some d"
proof -
  obtain e sl where sel: "sel_in s = Sel True e # sl" using assms(7) by (auto simp: passive_works_def)
  let ?h = "handle_step cb (ftp_handle_n (length sl) cb)"
  have l: "one_line l1" "length l1 \<le> 250" "one_line l2" "length l2 \<le> 250" "one_line l3" "length l3 \<le> 250"
    "one_line l4" "length l4 \<le> 250" using assms(5) by (simp_all add: line_ok_def)
  note texts = assms(3) [unfolded login_texts_def]
  have a1: "asks 220 (login_texts s ! 0) s" using texts by (auto simp: asks_def login_texts_def)
  obtain s1 where s1: "handle_step cb ?h (ctl s) s = Inr s1" "awaits 1 [] s1" "cproc s1 = None"
    "ctl_rx s1 = tl (tl (ctl_rx s))" "same_net s s1" "user s1 = user s" "pass s1 = pass s" "sent s1 = sent s @ [login_texts s ! 0 @ [CR, LF]]"
    by (rule login_asked [OF assms(1,2) _ l(1,2) a1]) (use assms(4) in auto)
  have a2: "asks 331 (login_texts s ! 1) s1" using texts s1(6,7) by (auto simp: asks_def login_texts_def)
  obtain s2 where s2: "handle_step cb ?h (ctl s1) s1 = Inr s2" "awaits 1 [] s2" "cproc s2 = None"
    "ctl_rx s2 = tl (tl (ctl_rx s1))" "same_net s1 s2" "sent s2 = sent s1 @ [login_texts s ! 1 @ [CR, LF]]"
    by (rule login_asked [OF s1(2,3) _ l(3,4) a2]) (use assms(4) s1(4) in auto)
  obtain s3 where s3: "handle_step cb ?h (ctl s2) s2 = Inr s3" "awaits 1 [plain_op FTP_PWD, plain_op FTP_LIST] s3" "cproc s3 = None"
    "ctl_rx s3 = tl (tl (ctl_rx s2))" "same_net s2 s3" "sent s3 = sent s2 @ [''type I'' @ [CR, LF]]"
    by (rule login_accepted [OF s2(2,3) _ l(5,6)]) (use assms(4) s1(4) s2(4) in auto)
  obtain s4 where s4: "handle_step cb ?h (ctl s3) s3 = Inr s4" "awaits 1 [plain_op FTP_LIST] s4" "cproc s4 = Some Cproc_pwd"
    "ctl_rx s4 = tl (tl (ctl_rx s3))" "same_net s3 s4" "sent s4 = sent s3 @ [''pwd'' @ [CR, LF]]"
    by (rule type_accepted [OF s3(2,3) _ l(7,8)]) (use assms(4) s1(4) s2(4) s3(4) in auto)
  have net: "same_net s s4" using s1(5) s2(5) s3(5) s4(5) by (blast intro: same_net_trans)
  have rx: "ctl_rx s4 = Rx (rline 257 l5 @ [CR, LF]) # RxBlock # r" using assms(4) s1(4) s2(4) s3(4) s4(4) by simp
  have co: "passive_works a p fd rest (s4\<lparr>ctl_rx := r\<rparr>)" using assms(7) net by (simp add: passive_works_def same_defs)
  obtain v where v: "handle_step cb ?h (ctl s4) s4 = Inr v" "asked_list v" "opened a p fd s4 v"
    "ctl_rx v = tl rest" "sent v = sent s4 @ map (\<lambda>c. c @ [CR, LF]) [''PASV'', ''list'']" "curdir v = Some d"
    by (rule pwd_answered [OF s4(2,3) rx assms(6) co])
  have "ctl s1 = ctl s" "ctl s2 = ctl s" "ctl s3 = ctl s" "ctl s4 = ctl s"
    "sel_in s1 = Sel True e # sl" "sel_in s2 = Sel True e # sl" "sel_in s3 = Sel True e # sl" "sel_in s4 = Sel True e # sl"
    using sel s1(5) s2(5) s3(5) s4(5) by (simp_all add: same_defs)
  then have "events cb (replicate 5 (ctl s)) s = Inr v"
    using sel s1(1) s2(1) s3(1) s4(1) v(1) by (simp add: numeral_eq_Suc handle_two)
  moreover have "opened a p fd s v" using v(3) net by (simp add: opened_def same_defs)
  moreover have "sent v = sent s @ map (\<lambda>c. c @ [CR, LF]) (login_texts s)"
    using s1(8) s2(6) s3(6) s4(6) v(5) by (simp add: login_texts_def)
  ultimately show thesis using that v(2,4,6) by blast
qed

text \<open>A structure as \<open>ftp_alloc\<close> leaves it, and the connection.\<close>

definition fresh :: "'a sys \<Rightarrow> bool" where
  "fresh s \<longleftrightarrow> lis s < 0 \<and> data s = -1 \<and> pasv_mode s \<and> cproc s = None \<and> busy s = 0 \<and> q_ok (opqueue s)
     \<and> q_list (opqueue s) = [] \<and> length (crecv s) = CRECV_SIZE \<and> mem_in s = []"

lemma alloc_fresh: "mem_in s = [] \<Longrightarrow> \<exists>t. ftp_alloc s = Some t \<and> fresh t"
  by (simp add: ftp_alloc_def sys_malloc_def fresh_def)

lemma connect_works:
  assumes "fresh s" "sock_in s = c # socks" "0 \<le> c" "host_in s = Some addr # hs" "conn_in s = True # cs"
  shows "\<exists>t. ftp_connect host port s = (t, 0) \<and> awaits 0 [] t \<and> ctl t = c \<and> cproc t = None \<and> lis t = lis s \<and> data t = data s
    \<and> pasv_mode t = pasv_mode s \<and> user t = user s \<and> pass t = pass s \<and> ctl_rx t = ctl_rx s \<and> sel_in t = sel_in s \<and> dat_rx t = dat_rx s
    \<and> sock_in t = socks \<and> conn_in t = cs \<and> sent t = sent s \<and> out t = out s @ [OConnect c addr (uint (word_of_int port :: 16 word))]"
  using assms by (simp add: ftp_connect_def fresh_def sys_socket_def sys_gethostbyname_def sys_connect_def emit_def awaits_def
      sent_def)

section \<open>Data\<close>

text \<open>What packets leave alone, and what replies leave alone of the transfer.\<close>

definition same_ctl :: "'a sys \<Rightarrow> 'a sys \<Rightarrow> bool" where
  "same_ctl s t \<longleftrightarrow> ctl t = ctl s \<and> data t = data s \<and> busy t = busy s \<and> opqueue t = opqueue s \<and> sel_in t = sel_in s
     \<and> mem_in t = mem_in s \<and> ctl_rx t = ctl_rx s \<and> num_crecv t = num_crecv s \<and> crecv t = crecv s \<and> cproc t = cproc s
     \<and> cproc_cls t = cproc_cls s \<and> dproc_cls t = dproc_cls s \<and> curdir t = curdir s \<and> app t = app s \<and> sent t = sent s"

lemma same_ctl_trans: "same_ctl s t \<Longrightarrow> same_ctl t u \<Longrightarrow> same_ctl s u"
  by (simp add: same_ctl_def)

lemma same_ctl_awaits: "same_ctl s t \<Longrightarrow> awaits n ops s \<Longrightarrow> awaits n ops t"
  by (simp add: same_ctl_def awaits_def)

definition same_data :: "'a sys \<Rightarrow> 'a sys \<Rightarrow> bool" where
  "same_data s t \<longleftrightarrow> dproc t = dproc s \<and> dproc_cls t = dproc_cls s \<and> bufs t = bufs s \<and> xfers t = xfers s
     \<and> files t = files s \<and> mem_in t = mem_in s"

text \<open>
  The interface between \<open>handle_data\<close> and a data handler: as long as the handler has stored what has
  arrived (\<open>R acc s\<close>) and there is \<open>room\<close> for more bytes, it stores the next packet and touches nothing else.
\<close>

locale receiver =
  fixes cb :: "'a callback" and F :: dproc and R :: "string \<Rightarrow> 'a sys \<Rightarrow> bool" and room :: "nat \<Rightarrow> bool"
  assumes handler: "R acc s \<Longrightarrow> dproc s = Some F"
    and stores: "R acc s \<Longrightarrow> p \<noteq> [] \<Longrightarrow> length p \<le> DRECV_SIZE \<Longrightarrow> room (length (acc @ p)) \<Longrightarrow>
      \<exists>t. run_dproc cb F p (dproc_cls s) s = Inr t \<and> R (acc @ p) t \<and> same_ctl s t \<and> dat_rx t = dat_rx s"
    and frame: "R acc s \<Longrightarrow> same_data s t \<Longrightarrow> R acc t"
    and less: "room n \<Longrightarrow> m \<le> n \<Longrightarrow> room m"
begin

lemma room_prefix: "room (length (acc @ p @ q)) \<Longrightarrow> room (length (acc @ p))"
  by (rule less) auto

lemma one_packet:
  assumes "R acc s" "p \<noteq> []" "length p \<le> DRECV_SIZE" "room (length (acc @ p))" "dat_rx s = Rx p # r"
  obtains t where "data_loop cb (Suc n) s = data_loop cb n t" "R (acc @ p) t" "same_ctl s t" "dat_rx t = r"
proof -
  let ?s = "s\<lparr>dat_rx := r\<rparr>"
  have R: "R acc ?s" using assms(1) by (rule frame) (simp add: same_data_def)
  obtain t where t: "run_dproc cb F p (dproc_cls ?s) ?s = Inr t" "R (acc @ p) t" "same_ctl ?s t" "dat_rx t = r"
    using stores [OF R assms(2-4)] by auto
  have "rx_take DRECV_SIZE (dat_rx s) = (Rx p, r)" using assms(3,5) by (simp add: rx_take_def)
  then have "data_loop cb (Suc n) s = data_loop cb n t" using handler [OF assms(1)] t(1) assms(2) by simp
  moreover have "same_ctl s t" using t(3) by (simp add: same_ctl_def sent_def)
  ultimately show thesis using that t by blast
qed

lemma packets_more:
  assumes "R acc s" "packets_ok ps" "room (length (acc @ concat ps))" "dat_rx s = map Rx ps @ r" "n \<le> length ps"
  shows "\<exists>t. data_loop cb n s = Inr (t, 0) \<and> R (acc @ concat (take n ps)) t \<and> same_ctl s t \<and> dat_rx t = map Rx (drop n ps) @ r"
  using assms
proof (induction n arbitrary: acc s ps)
  case 0
  then show ?case by (simp add: same_ctl_def)
next
  case (Suc n)
  obtain p ps' where ps: "ps = p # ps'" using Suc.prems(5) by (cases ps) auto
  then have p: "p \<noteq> []" "length p \<le> DRECV_SIZE" "packets_ok ps'" using Suc.prems(2) by (auto simp: packets_ok_def)
  obtain t where t: "data_loop cb (Suc n) s = data_loop cb n t" "R (acc @ p) t" "same_ctl s t" "dat_rx t = map Rx ps' @ r"
    by (rule one_packet [OF Suc.prems(1) p(1,2) room_prefix [of acc p "concat ps'"]]) (use Suc.prems(3,4) ps in auto)
  have "room (length ((acc @ p) @ concat ps'))" using Suc.prems(3) ps by simp
  from Suc.IH [OF t(2) p(3) this t(4)] show ?case
    using Suc.prems(5) ps t(1) same_ctl_trans [OF t(3)] by (auto simp del: data_loop.simps)
qed

lemma packets_end:
  assumes "R acc s" "packets_ok ps" "room (length (acc @ concat ps))" "dat_rx s = map Rx ps @ Rx [] # r" "length ps < n"
  shows "\<exists>t. R (acc @ concat ps) t \<and> same_ctl s t \<and> dat_rx t = r
    \<and> data_loop cb n s = bindE (run_dproc cb F [] (dproc_cls t) t) (\<lambda>u. Inr ((emit (OClose (data u)) u)\<lparr>data := -1\<rparr>, -1))"
  using assms
proof (induction ps arbitrary: acc s n)
  case Nil
  let ?s = "s\<lparr>dat_rx := r\<rparr>"
  obtain n' where n: "n = Suc n'" using Nil.prems(5) by (cases n) auto
  have "R acc ?s" using Nil.prems(1) by (rule frame) (simp add: same_data_def)
  moreover have "rx_take DRECV_SIZE (dat_rx s) = (Rx [], r)" using Nil.prems(4) by (simp add: rx_take_def)
  ultimately show ?case
    using handler [OF Nil.prems(1)] n by (intro exI [of _ ?s]) (simp add: same_ctl_def sent_def)
next
  case (Cons p ps)
  obtain n' where n: "n = Suc n'" "length ps < n'" using Cons.prems(5) by (cases n) auto
  have p: "p \<noteq> []" "length p \<le> DRECV_SIZE" "packets_ok ps" using Cons.prems(2) by (auto simp: packets_ok_def)
  obtain t where t: "data_loop cb (Suc n') s = data_loop cb n' t" "R (acc @ p) t" "same_ctl s t" "dat_rx t = map Rx ps @ Rx [] # r"
    by (rule one_packet [OF Cons.prems(1) p(1,2) room_prefix [of acc p "concat ps"]]) (use Cons.prems(3,4) in auto)
  have "room (length ((acc @ p) @ concat ps))" using Cons.prems(3) by simp
  from Cons.IH [OF t(2) p(3) this t(4) n(2)] show ?case
    using n(1) t(1) same_ctl_trans [OF t(3)] by (auto simp del: data_loop.simps)
qed

text \<open>Events: four packets each, then the end of the data.\<close>

lemma data_rounds:
  assumes "R acc s" "packets_ok ps" "room (length (acc @ concat ps))" "dat_rx s = map Rx ps @ r" "4 * m \<le> length ps" "0 < busy s" "data s \<noteq> ctl s" "0 \<le> data s"
  shows "\<exists>t. events cb (replicate m (data s)) s = Inr t \<and> R (acc @ concat (take (4 * m) ps)) t \<and> same_ctl s t
    \<and> dat_rx t = map Rx (drop (4 * m) ps) @ r"
  using assms
proof (induction m arbitrary: acc s ps)
  case 0
  then show ?case by (simp add: same_ctl_def)
next
  case (Suc m)
  obtain t where t: "data_loop cb 4 s = Inr (t, 0)" "R (acc @ concat (take 4 ps)) t" "same_ctl s t"
    "dat_rx t = map Rx (drop 4 ps) @ r"
    using packets_more [OF Suc.prems(1-4), of 4] Suc.prems(5) by auto
  have ev: "ftp_handle cb (data s) s = Inr t"
    using t(1,3) Suc.prems(6-8)
    by (simp add: ftp_handle_def handle_step_def handle_data_def same_ctl_def del: data_loop.simps)
  have ps: "packets_ok (drop 4 ps)" using Suc.prems(2) by (auto simp: packets_ok_def dest: in_set_dropD)
  have "take 4 ps @ take (4 * m) (drop 4 ps) = take (4 * Suc m) ps" by (simp add: take_add [symmetric] add.commute)
  then have "concat (take 4 ps) @ concat (take (4 * m) (drop 4 ps)) = concat (take (4 * Suc m) ps)"
    by (metis concat_append)
  moreover have "concat (take 4 ps) @ concat (drop 4 ps) = concat ps" by (metis append_take_drop_id concat_append)
  then have "room (length ((acc @ concat (take 4 ps)) @ concat (drop 4 ps)))" using Suc.prems(3) by simp
  ultimately show ?case
    using Suc.IH [OF t(2) ps _ t(4)] Suc.prems(5-8) t(3) ev same_ctl_trans [OF t(3)]
    by (auto simp: same_ctl_def add.commute)
qed

lemma data_complete:
  assumes "R acc s" "packets_ok ps" "room (length (acc @ concat ps))" "dat_rx s = map Rx ps @ Rx [] # r" "0 < busy s" "data s \<noteq> ctl s" "0 \<le> data s"
  shows "\<exists>t. R (acc @ concat ps) t \<and> same_ctl s t \<and> dat_rx t = r
    \<and> events cb (replicate (Suc (length ps div 4)) (data s)) s =
        bindE (run_dproc cb F [] (dproc_cls t) t) (\<lambda>u.
          let v = (emit (OClose (data u)) u)\<lparr>data := -1\<rparr>
          in if busy v \<le> 0 then if busy v \<noteq> 0 then Inl AssertFail else exec_queued (ftp_handle_n (length (sel_in s)) cb) v
             else Inr v)"
proof -
  let ?m = "length ps div 4"
  obtain t where t: "events cb (replicate ?m (data s)) s = Inr t" "R (acc @ concat (take (4 * ?m) ps)) t" "same_ctl s t"
    "dat_rx t = map Rx (drop (4 * ?m) ps) @ Rx [] # r"
    using data_rounds [OF assms(1-4) _ assms(5-7), of ?m] by auto
  have ps: "packets_ok (drop (4 * ?m) ps)" using assms(2) by (auto simp: packets_ok_def dest: in_set_dropD)
  have all: "(acc @ concat (take (4 * ?m) ps)) @ concat (drop (4 * ?m) ps) = acc @ concat ps"
    by (metis append.assoc append_take_drop_id concat_append)
  have short: "length (drop (4 * ?m) ps) < 4" by (simp add: minus_mult_div_eq_mod)
  obtain u where u: "R ((acc @ concat (take (4 * ?m) ps)) @ concat (drop (4 * ?m) ps)) u" "same_ctl t u" "dat_rx u = r"
    "data_loop cb 4 t = bindE (run_dproc cb F [] (dproc_cls u) u) (\<lambda>u. Inr ((emit (OClose (data u)) u)\<lparr>data := -1\<rparr>, -1))"
    using packets_end [OF t(2) ps _ t(4) short] assms(3) unfolding all by blast
  then have R: "R (acc @ concat ps) u" unfolding all by blast
  have "handle_data cb t = data_loop cb 4 t" "data t = data s" "data t \<noteq> ctl t" "sel_in t = sel_in s"
    using t(3) assms(6,7) by (simp_all add: handle_data_def same_ctl_def del: data_loop.simps)
  then have "ftp_handle cb (data s) t = bindE (run_dproc cb F [] (dproc_cls u) u) (\<lambda>u.
          let v = (emit (OClose (data u)) u)\<lparr>data := -1\<rparr>
          in if busy v \<le> 0 then if busy v \<noteq> 0 then Inl AssertFail else exec_queued (ftp_handle_n (length (sel_in s)) cb) v
             else Inr v)"
    by (simp add: ftp_handle_def handle_step_def u(4) bindE_assoc Let_def del: data_loop.simps)
  moreover have "replicate (Suc ?m) (data s) = replicate ?m (data s) @ [data s]" by (simp add: replicate_append_same)
  then have "events cb (replicate (Suc ?m) (data s)) s = ftp_handle cb (data s) t" using t(1) by (simp only: events_snoc bindE_Inr)
  ultimately show ?thesis
    using R u(3) same_ctl_trans [OF t(3) u(2)] by (intro exI [of _ u]) (simp del: replicate.simps)
qed

end

section \<open>A listing\<close>

definition has_listing :: "string \<Rightarrow> 'a sys \<Rightarrow> bool" where
  "has_listing acc s \<longleftrightarrow> dproc s = Some Dproc_list \<and> mem_in s = []
     \<and> (\<exists>i b. dproc_cls s = ClsBuf i \<and> bufs s i = Some b \<and> buf_ok b \<and> rb_data b = acc)"

interpretation listing: receiver cb Dproc_list has_listing "\<lambda>n. n \<le> max_block" for cb
proof
  fix acc p :: string and s :: "'a sys"
  assume R: "has_listing acc s" and p: "p \<noteq> []" "length p \<le> DRECV_SIZE" "length (acc @ p) \<le> max_block"
  obtain i b where b: "dproc_cls s = ClsBuf i" "bufs s i = Some b" "buf_ok b" "rb_data b = acc" "mem_in s = []" "dproc s = Some Dproc_list"
    using R by (auto simp: has_listing_def)
  obtain b' where "dproc_list p (ClsBuf i) s = Inr (s\<lparr>bufs := (bufs s)(i \<mapsto> b')\<rparr>)" "buf_ok b'" "rb_data b' = acc @ p"
    using packet_stored [OF b(2,3) p(1,2) b(5)] b(4) p(3) by auto
  then show "\<exists>t. run_dproc cb Dproc_list p (dproc_cls s) s = Inr t \<and> has_listing (acc @ p) t \<and> same_ctl s t \<and> dat_rx t = dat_rx s"
    using b by (auto simp: run_dproc_def has_listing_def same_ctl_def sent_def)
qed (auto simp: has_listing_def same_data_def)

lemma listing_ends:
  assumes "has_listing (concat (map ls_text es)) s" "list_all ls_wf es"
  shows "\<exists>d t. run_dproc cb Dproc_list [] (dproc_cls s) s = Inr t \<and> same_ctl (s\<lparr>busy := busy s - 1\<rparr>) t \<and> dirent t = d
    \<and> dproc t = None \<and> mset (map dirent_view (darr_list d)) = mset (map ls_view es)
    \<and> sorted_wrt (\<lambda>a b. ftp_direntcmp a b \<le> 0) (darr_list d)"
proof -
  obtain i b where b: "dproc_cls s = ClsBuf i" "bufs s i = Some b" "buf_ok b" "rb_data b = concat (map ls_text es)"
    using assms(1) by (auto simp: has_listing_def)
  obtain d where d: "parse_listing ent0 (rb_size b) (rb_buf b) (darr_clear (dirent s)) = Inr d" "darr_ok d"
    "map dirent_view (darr_list d) = map ls_view es"
    using parse_data [OF b(3,4) assms(2), of "darr_clear (dirent s)" ent0] by (auto simp: darr_list_clear)
  have "mset (map dirent_view (qsort ftp_direntcmp (darr_list d))) = mset (map dirent_view (darr_list d))" by simp
  then show ?thesis
    using b d by (simp add: run_dproc_def dproc_list_def deref_buf_def Let_def darr_qsort_list direntcmp.sorted_qsort
        same_ctl_def sent_def)
qed

section \<open>Replies around the data\<close>

lemma ending_reply:
  assumes "awaits n ops s" "cproc s = Some f" "f \<in> {Cproc_list, Cproc_xfer}"
    and "ctl_rx s = Rx (rline c l @ [CR, LF]) # rest" "line_ok l" "200 \<le> c" "c < 400" "rest = [] \<or> hd rest = RxBlock"
  obtains t where "handle_step cb h (ctl s) s = (if n \<le> 1 then if n \<noteq> 1 then Inl AssertFail else exec_queued h t else Inr t)"
    "awaits (n - 1) ops t" "same_data s t" "same_rest s t" "data t = data s" "cproc t = cproc s" "cproc_cls t = cproc_cls s"
    "ctl_rx t = tl rest" "sel_in t = sel_in s" "sent t = sent s" "dirent t = dirent s" "curdir t = curdir s"
    "set (out s) \<subseteq> set (out t)"
proof -
  have s: "num_crecv s = 0" "length (crecv s) = CRECV_SIZE" "busy s = n" using assms(1) by (simp_all add: awaits_def)
  have l: "one_line l" "length l \<le> 250" using assms(5) by (simp_all add: line_ok_def)
  have run: "run_cproc h cb f (int c) x k u = Inr (u, 0)" for x k u
    using assms(3,6,7) by (auto simp: run_cproc_def cproc_list_def cproc_xfer_def)
  obtain k where k: "length k = CRECV_SIZE" "handle_step cb h (ctl s) s =
        (let t = s\<lparr>ctl_rx := rest, crecv := k, out := out s @ [OLog Info ''recv: %s'' [rline c l]], last_resp := int c,
             busy := n - 1, num_crecv := 0, ctl_rx := tl rest\<rparr>
         in if busy t \<le> 0 then if busy t \<noteq> 0 then Inl AssertFail else exec_queued h t else Inr t)"
    using handle_reply [OF s(1,2) assms(4) l assms(8) _ _ assms(2), of h cb] run s(3) assms(6,7) by auto
  let ?t = "s\<lparr>ctl_rx := rest, crecv := k, out := out s @ [OLog Info ''recv: %s'' [rline c l]], last_resp := int c,
             busy := n - 1, num_crecv := 0, ctl_rx := tl rest\<rparr>"
  show thesis
    by (rule that [of ?t]) (use k assms(1) in \<open>simp_all add: Let_def awaits_def same_data_def same_rest_def sent_def subset_insertI\<close>)
qed

lemma starting_reply:
  assumes "awaits n ops s" "0 < n" "cproc s = Some Cproc_list" "ctl_rx s = Rx (rline c l @ [CR, LF]) # rest"
    and "line_ok l" "0 < c" "c < 200" "rest = [] \<or> hd rest = RxBlock"
  obtains t where "handle_step cb h (ctl s) s = Inr t" "awaits n ops t" "same_data s t" "same_rest s t" "data t = data s"
    "cproc t = cproc s" "ctl_rx t = tl rest" "sel_in t = sel_in s" "sent t = sent s" "curdir t = curdir s"
proof -
  have s: "num_crecv s = 0" "length (crecv s) = CRECV_SIZE" "busy s = n" using assms(1) by (simp_all add: awaits_def)
  have l: "one_line l" "length l \<le> 250" using assms(5) by (simp_all add: line_ok_def)
  have run: "run_cproc h cb Cproc_list (int c) x k u = Inr (u, 1)" for x k u
    using assms(7) by (simp add: run_cproc_def cproc_list_def)
  obtain k where k: "length k = CRECV_SIZE" "handle_step cb h (ctl s) s =
        (let t = s\<lparr>ctl_rx := rest, crecv := k, out := out s @ [OLog Info ''recv: %s'' [rline c l]], last_resp := int c,
             num_crecv := 0, ctl_rx := tl rest\<rparr>
         in if busy t \<le> 0 then if busy t \<noteq> 0 then Inl AssertFail else exec_queued h t else Inr t)"
    using handle_reply [OF s(1,2) assms(4) l assms(8) _ _ assms(3), of h cb] run s(3) assms(6,7) by auto
  show thesis
    by (rule that [of "s\<lparr>ctl_rx := rest, crecv := k, out := out s @ [OLog Info ''recv: %s'' [rline c l]], last_resp := int c,
             num_crecv := 0, ctl_rx := tl rest\<rparr>"])
      (use k assms(1,2) in \<open>simp_all add: Let_def awaits_def same_data_def same_rest_def sent_def\<close>)
qed

lemma handle_knot: "ftp_handle cb fd s = handle_step cb (ftp_handle_n (length (sel_in s)) cb) fd s"
  by (simp add: ftp_handle_def)

text \<open>
  The reply that ends a transfer may come between any two events of the data connection, or after them. \<open>Q\<close> is what
  the end of the data achieves (\<open>fin\<close>), and a reply does not undo it (\<open>stable\<close>).
\<close>

definition after_reply :: "'a sys \<Rightarrow> 'a sys \<Rightarrow> bool" where
  "after_reply s t \<longleftrightarrow> same_data s t \<and> same_rest s t \<and> data t = data s \<and> dirent t = dirent s \<and> curdir t = curdir s
     \<and> set (out s) \<subseteq> set (out t)"

definition data_end :: "'a callback \<Rightarrow> string list \<Rightarrow> ('a sys \<Rightarrow> bool) \<Rightarrow> 'a sys \<Rightarrow> bool" where
  "data_end cb ps Q s \<longleftrightarrow> (\<exists>t. events cb (replicate (Suc (length ps div 4)) (data s)) s = Inr t \<and> awaits (busy s - 1) [] t
     \<and> Q t \<and> ctl t = ctl s \<and> cproc t = cproc s \<and> ctl_rx t = ctl_rx s \<and> sent t = sent s)"

context receiver
begin

lemma served_around:
  assumes s: "awaits 2 [] s" "cproc s = Some f" "f \<in> {Cproc_list, Cproc_xfer}" "R [] s" "packets_ok ps" "room (length (concat ps))"
    and d: "dat_rx s = map Rx ps @ [Rx []]" "data s \<noteq> ctl s" "0 \<le> data s"
    and c: "ctl_rx s = [Rx (rline 226 l @ [CR, LF])]" "line_ok l"
    and fin: "\<And>acc qs u. R acc u \<Longrightarrow> awaits (busy u) [] u \<Longrightarrow> 0 < busy u \<Longrightarrow> acc @ concat qs = concat ps \<Longrightarrow> packets_ok qs \<Longrightarrow>
      dat_rx u = map Rx qs @ [Rx []] \<Longrightarrow> data u = data s \<Longrightarrow> ctl u = ctl s \<Longrightarrow> curdir u = curdir s \<Longrightarrow> data_end cb qs Q u"
    and stable: "\<And>t u. Q t \<Longrightarrow> after_reply t u \<Longrightarrow> Q u"
    and m: "m \<le> Suc (length ps div 4)"
  obtains t where "events cb (replicate m (data s) @ ctl s # replicate (Suc (length ps div 4) - m) (data s)) s = Inr t"
    "awaits 0 [] t" "Q t" "sent t = sent s"
proof (cases "m \<le> length ps div 4")
  case True
  then have four: "4 * m \<le> length ps" by presburger
  have b: "0 < busy s" using s(1) by (simp add: awaits_def)
  have r: "room (length ([] @ concat ps))" using s(6) by simp
  obtain s2 where s2: "events cb (replicate m (data s)) s = Inr s2" "R (concat (take (4 * m) ps)) s2" "same_ctl s s2"
    "dat_rx s2 = map Rx (drop (4 * m) ps) @ [Rx []]"
    using data_rounds [OF s(4,5) r d(1) four b d(2,3)] by auto
  have s2': "awaits 2 [] s2" "cproc s2 = Some f" "ctl_rx s2 = [Rx (rline 226 l @ [CR, LF])]" "ctl s2 = ctl s" "data s2 = data s"
    "sent s2 = sent s" "curdir s2 = curdir s"
    using same_ctl_awaits [OF s2(3) s(1)] s2(3) s(2) c(1) by (simp_all add: same_ctl_def)
  obtain s3 where s3: "ftp_handle cb (ctl s) s2 = Inr s3" "awaits 1 [] s3" "same_data s2 s3" "same_rest s2 s3" "data s3 = data s2"
    "sent s3 = sent s2" "curdir s3 = curdir s2"
    unfolding handle_knot s2'(4) [symmetric]
    by (rule ending_reply [OF s2'(1,2) s(3) s2'(3) c(2), of cb "ftp_handle_n (length (sel_in s2)) cb"]) simp_all
  have "data_end cb (drop (4 * m) ps) Q s3"
  proof (rule fin)
    show "R (concat (take (4 * m) ps)) s3" by (rule frame [OF s2(2) s3(3)])
    show "concat (take (4 * m) ps) @ concat (drop (4 * m) ps) = concat ps" by (metis append_take_drop_id concat_append)
    show "packets_ok (drop (4 * m) ps)" using s(5) by (auto simp: packets_ok_def dest: in_set_dropD)
  qed (use s3 s2(4) s2' in \<open>simp_all add: awaits_def same_rest_def\<close>)
  then obtain t where t: "events cb (replicate (Suc (length (drop (4 * m) ps) div 4)) (data s)) s3 = Inr t" "awaits 0 [] t" "Q t"
    "sent t = sent s3"
    using s3(2,5) s2'(5) by (auto simp: data_end_def awaits_def)
  have "Suc (length (drop (4 * m) ps) div 4) = Suc (length ps div 4) - m" using True by (simp add: Suc_diff_le div_mult2_eq)
  then show thesis using that t s2(1) s3(1,6) s2'(6) by (simp add: events_append)
next
  case False
  then have m': "m = Suc (length ps div 4)" using m by simp
  have "data_end cb ps Q s" using s d by (intro fin [where acc = "[]"]) (simp_all add: awaits_def)
  then obtain s2 where s2: "events cb (replicate (Suc (length ps div 4)) (data s)) s = Inr s2" "awaits 1 [] s2" "Q s2"
    "ctl s2 = ctl s" "cproc s2 = Some f" "ctl_rx s2 = [Rx (rline 226 l @ [CR, LF])]" "sent s2 = sent s"
    using s(1,2) c(1) by (auto simp: data_end_def awaits_def)
  obtain t where t: "ftp_handle cb (ctl s) s2 = exec_queued (ftp_handle_n (length (sel_in s2)) cb) t" "awaits 0 [] t"
    "after_reply s2 t" "sent t = sent s2"
    unfolding handle_knot s2(4) [symmetric]
    by (rule ending_reply [OF s2(2,5) s(3) s2(6) c(2), of cb "ftp_handle_n (length (sel_in s2)) cb"]) (simp_all add: after_reply_def)
  have "exec_queued (ftp_handle_n (length (sel_in s2)) cb) t = Inr t" using t(2) by (intro exec_queued_none) (simp_all add: awaits_def)
  then show thesis
    using that [of t] t s2 m' stable by (simp add: events_append del: replicate_Suc)
qed

end

section \<open>A listing that is served\<close>

definition shown_listing :: "ls_entry list \<Rightarrow> 'a sys \<Rightarrow> bool" where
  "shown_listing es t \<longleftrightarrow> mset (map dirent_view (darr_list (dirent t))) = mset (map ls_view es)
     \<and> sorted_wrt (\<lambda>a b. ftp_direntcmp a b \<le> 0) (darr_list (dirent t))"

definition listed :: "ls_entry list \<Rightarrow> string option \<Rightarrow> 'a sys \<Rightarrow> bool" where
  "listed es d t \<longleftrightarrow> shown_listing es t \<and> data t = -1 \<and> dproc t = None \<and> curdir t = d"

lemma listing_arrives:
  assumes "has_listing acc s" "awaits (busy s) [] s" "0 < busy s" "acc @ concat ps = concat (map ls_text es)" "packets_ok ps"
    and "dat_rx s = map Rx ps @ [Rx []]" "data s \<noteq> ctl s" "0 \<le> data s" "list_all ls_wf es" "length (acc @ concat ps) \<le> max_block"
  shows "data_end cb ps (listed es (curdir s)) s"
proof -
  obtain t where t: "has_listing (acc @ concat ps) t" "same_ctl s t"
    "events cb (replicate (Suc (length ps div 4)) (data s)) s = bindE (run_dproc cb Dproc_list [] (dproc_cls t) t) (\<lambda>u.
          let v = (emit (OClose (data u)) u)\<lparr>data := -1\<rparr>
          in if busy v \<le> 0 then if busy v \<noteq> 0 then Inl AssertFail else exec_queued (ftp_handle_n (length (sel_in s)) cb) v
             else Inr v)"
    using listing.data_complete [OF assms(1,5,10,6,3,7,8), of cb] by blast
  obtain u where u: "run_dproc cb Dproc_list [] (dproc_cls t) t = Inr u" "same_ctl (t\<lparr>busy := busy t - 1\<rparr>) u" "dproc u = None"
    "shown_listing es u"
    using listing_ends [of es t cb] t(1) assms(4,9) by (auto simp: shown_listing_def)
  let ?v = "(emit (OClose (data u)) u)\<lparr>data := -1\<rparr>"
  have v: "awaits (busy s - 1) [] ?v" "ctl ?v = ctl s" "cproc ?v = cproc s" "ctl_rx ?v = ctl_rx s" "sent ?v = sent s"
    "listed es (curdir s) ?v"
    using t(2) u(2-4) assms(2) by (auto simp: same_ctl_def awaits_def emit_def sent_def shown_listing_def listed_def)
  have "events cb (replicate (Suc (length ps div 4)) (data s)) s = Inr ?v"
    using t(3) u(1) v(1) assms(3) exec_queued_none [of ?v] by (auto simp: awaits_def Let_def)
  with v show ?thesis unfolding data_end_def by blast
qed

lemma listing_served_at:
  assumes "asked_list s" "packets_ok ps" "concat ps = concat (map ls_text es)" "list_all ls_wf es" "length (concat ps) \<le> max_block"
    and "dat_rx s = map Rx ps @ [Rx []]" "data s \<noteq> ctl s" "0 \<le> data s"
    and "ctl_rx s = [Rx (rline 150 l1 @ [CR, LF]), RxBlock, Rx (rline 226 l2 @ [CR, LF])]" "line_ok l1" "line_ok l2"
    and "m \<le> Suc (length ps div 4)"
  obtains t where "events cb (ctl s # replicate m (data s) @ ctl s # replicate (Suc (length ps div 4) - m) (data s)) s = Inr t"
    "awaits 0 [] t" "listed es (curdir s) t" "sent t = sent s"
proof -
  have s: "awaits 2 [] s" "cproc s = Some Cproc_list" "has_listing [] s"
    using assms(1) by (auto simp: asked_list_def has_listing_def awaits_def)
  obtain s1 where s1: "ftp_handle cb (ctl s) s = Inr s1" "awaits 2 [] s1" "same_data s s1" "same_rest s s1" "data s1 = data s"
    "cproc s1 = cproc s" "ctl_rx s1 = tl (tl (ctl_rx s))" "curdir s1 = curdir s" "sent s1 = sent s"
    unfolding handle_knot by (rule starting_reply [OF s(1) _ s(2) assms(9,10), of cb "ftp_handle_n (length (sel_in s)) cb"])
      (use assms(9) in auto)
  have s1': "has_listing [] s1" "dat_rx s1 = map Rx ps @ [Rx []]" "ctl s1 = ctl s" "ctl_rx s1 = [Rx (rline 226 l2 @ [CR, LF])]"
    "cproc s1 = Some Cproc_list" "data s1 \<noteq> ctl s1" "0 \<le> data s1"
    using listing.frame [OF s(3) s1(3)] s1 assms(6-9) s(2) by (simp_all add: same_rest_def)
  obtain t where "events cb (replicate m (data s1) @ ctl s1 # replicate (Suc (length ps div 4) - m) (data s1)) s1 = Inr t"
    "awaits 0 [] t" "listed es (curdir s1) t" "sent t = sent s1"
  proof (rule listing.served_around [OF s1(2) s1'(5) _ s1'(1) assms(2,5) s1'(2,6,7,4) assms(11) _ _ assms(12),
        where Q = "listed es (curdir s1)" and cb = cb])
    fix acc qs and u :: "'a sys"
    assume u: "has_listing acc u" "awaits (busy u) [] u" "0 < busy u" "acc @ concat qs = concat ps" "packets_ok qs"
      "dat_rx u = map Rx qs @ [Rx []]" "data u = data s1" "ctl u = ctl s1" "curdir u = curdir s1"
    show "data_end cb qs (listed es (curdir s1)) u"
      using listing_arrives [OF u(1-3) _ u(5,6) _ _ assms(4), of cb] u(4,7-9) s1'(6,7) assms(3,5) by simp
  qed (auto simp: listed_def shown_listing_def after_reply_def same_data_def)
  then show thesis using that s1(1,5,8,9) s1'(3) by simp
qed

section \<open>A file that is served\<close>

definition has_file :: "nat \<Rightarrow> nat \<Rightarrow> ftp_transfer \<Rightarrow> string \<Rightarrow> 'a sys \<Rightarrow> bool" where
  "has_file i f x acc s \<longleftrightarrow> dproc s = Some Dproc_xfer \<and> dproc_cls s = ClsXfer i \<and> x_op x = FTP_RETR \<and> x_fp x = Some f
     \<and> 0 \<le> x_total x \<and> xfers s i = Some (x\<lparr>x_count := min (x_total x) (int (length acc))\<rparr>) \<and> files s f = acc"

interpretation file_data: receiver cb Dproc_xfer "has_file i f x" "\<lambda>_. True" for cb i f x
proof
  fix acc p :: string and s :: "'a sys"
  assume R: "has_file i f x acc s" and p: "p \<noteq> []"
  have "\<exists>t. run_dproc cb Dproc_xfer p (dproc_cls s) s = Inr t \<and> xfers t = (xfers s)(i \<mapsto> x\<lparr>x_count := min (x_total x) (int (length (acc @ p)))\<rparr>)
    \<and> files t = (files s)(f := acc @ p) \<and> same_ctl s t \<and> dproc t = dproc s \<and> dat_rx t = dat_rx s"
    using R p by (auto simp: has_file_def run_dproc_def dproc_xfer_def deref_xfer_def Let_def same_ctl_def sent_def min_def)
  then obtain t where "run_dproc cb Dproc_xfer p (dproc_cls s) s = Inr t" "same_ctl s t" "dat_rx t = dat_rx s"
    "xfers t = (xfers s)(i \<mapsto> x\<lparr>x_count := min (x_total x) (int (length (acc @ p)))\<rparr>)"
    "files t = (files s)(f := acc @ p)" "dproc t = dproc s" by blast
  then show "\<exists>t. run_dproc cb Dproc_xfer p (dproc_cls s) s = Inr t \<and> has_file i f x (acc @ p) t \<and> same_ctl s t \<and> dat_rx t = dat_rx s"
    using R by (intro exI [of _ t]) (simp add: has_file_def same_ctl_def)
qed (auto simp: has_file_def same_data_def)

text \<open>The announced size.\<close>

lemma size_reply:
  assumes "awaits n ops s" "0 < n" "cproc s = Some Cproc_xfer" "cproc_cls s = ClsXfer i" "xfers s i = Some x"
    and "ctl_rx s = Rx (rline 150 l @ [CR, LF]) # rest" "line_ok l" "rest = [] \<or> hd rest = RxBlock"
    and "strchr (rline 150 l) CHR ''('' = Some q" "scan_total q = Some z"
  obtains t where "handle_step cb h (ctl s) s = Inr t" "awaits n ops t" "xfers t = (xfers s)(i \<mapsto> x\<lparr>x_total := z\<rparr>)"
    "dproc t = dproc s" "dproc_cls t = dproc_cls s" "files t = files s" "dat_rx t = dat_rx s" "ctl t = ctl s" "data t = data s"
    "cproc t = cproc s" "cproc_cls t = cproc_cls s" "ctl_rx t = tl rest" "sel_in t = sel_in s" "sent t = sent s"
proof -
  have s: "num_crecv s = 0" "length (crecv s) = CRECV_SIZE" "busy s = n" using assms(1) by (simp_all add: awaits_def)
  have l: "one_line l" "length l \<le> 250" using assms(7) by (simp_all add: line_ok_def)
  have run: "run_cproc h cb Cproc_xfer 150 (rline 150 l) (cproc_cls s) u = Inr (u\<lparr>xfers := (xfers u)(i \<mapsto> x\<lparr>x_total := z\<rparr>)\<rparr>, 1)"
    if "xfers u = xfers s" for u
    using assms(4,5,9,10) that by (simp add: run_cproc_def cproc_xfer_def deref_xfer_def)
  obtain k where k: "length k = CRECV_SIZE" "handle_step cb h (ctl s) s =
        (let t = s\<lparr>crecv := k, out := out s @ [OLog Info ''recv: %s'' [rline 150 l]], last_resp := 150,
             xfers := (xfers s)(i \<mapsto> x\<lparr>x_total := z\<rparr>), num_crecv := 0, ctl_rx := tl rest\<rparr>
         in if busy t \<le> 0 then if busy t \<noteq> 0 then Inl AssertFail else exec_queued h t else Inr t)"
    using handle_reply [OF s(1,2) assms(6) l assms(8) _ _ assms(3), of h cb] run by auto
  show thesis
    by (rule that [of "s\<lparr>crecv := k, out := out s @ [OLog Info ''recv: %s'' [rline 150 l]], last_resp := 150,
             xfers := (xfers s)(i \<mapsto> x\<lparr>x_total := z\<rparr>), num_crecv := 0, ctl_rx := tl rest\<rparr>"])
      (use k assms(1,2) in \<open>simp_all add: Let_def awaits_def sent_def\<close>)
qed

text \<open>The end of the data closes the file and calls \<open>xfer_done\<close>, which frees the transfer.\<close>

definition stored :: "nat \<Rightarrow> nat \<Rightarrow> string \<Rightarrow> cs \<Rightarrow> bool" where
  "stored i f bs t \<longleftrightarrow> files t f = bs \<and> xfers t i = None \<and> OFclose f \<in> set (out t) \<and> c_cur_xfer (app t) = None"

lemma local_dir_fields:
  "fst (update_localdir s) = t \<Longrightarrow> app t = app s\<lparr>dir_in := dir_in (app t), c_localdir := c_localdir (app t),
      c_local_modified := c_local_modified (app t)\<rparr> \<and> files t = files s \<and> xfers t = xfers s \<and> sent t = sent s \<and> set (out s) \<subseteq> set (out t)
    \<and> same_ctl (s\<lparr>app := app t\<rparr>) t"
  by (auto simp: update_localdir_def emit_def sent_def same_ctl_def split: prod.splits option.splits)

lemma file_ends:
  assumes "has_file i f x bs s" "x_done x = Some Xfer_done"
  shows "\<exists>t. run_dproc client_done Dproc_xfer [] (dproc_cls s) s = Inr t \<and> stored i f bs t
    \<and> same_ctl (s\<lparr>busy := busy s - 1, app := app t\<rparr>) t"
proof -
  let ?x = "x\<lparr>x_count := min (x_total x) (int (length bs)), x_fp := None\<rparr>"
  let ?s = "s\<lparr>out := out s @ [OLog Info ''data connection closed'' [], OFclose f], xfers := (xfers s)(i := None)\<rparr>"
  define u where "u = fst (update_localdir ?s)"
  have fin: "run_dproc client_done Dproc_xfer [] (dproc_cls s) s
    = Inr ((on_app (\<lambda>a. a\<lparr>c_cur_xfer := None\<rparr>) u)\<lparr>busy := busy u - 1\<rparr>)"
    using assms by (simp add: has_file_def run_dproc_def dproc_xfer_def deref_xfer_def Let_def client_done_def xfer_done_def
        emit_def u_def)
  from local_dir_fields [of ?s u] u_def
  have "files u = files s" "xfers u = (xfers s)(i := None)" "OFclose f \<in> set (out u)" "same_ctl (s\<lparr>app := app u\<rparr>) u"
    by (auto simp: same_ctl_def sent_def)
  then show ?thesis
    using fin assms(1) by (auto simp: stored_def has_file_def same_ctl_def sent_def)
qed

lemma file_arrives:
  assumes "has_file i f x acc s" "awaits (busy s) [] s" "0 < busy s" "acc @ concat ps = bs" "packets_ok ps"
    and "dat_rx s = map Rx ps @ [Rx []]" "data s \<noteq> ctl s" "0 \<le> data s" "x_done x = Some Xfer_done"
  shows "data_end client_done ps (\<lambda>t. stored i f bs t \<and> data t = -1) s"
proof -
  obtain t where t: "has_file i f x (acc @ concat ps) t" "same_ctl s t"
    "events client_done (replicate (Suc (length ps div 4)) (data s)) s
      = bindE (run_dproc client_done Dproc_xfer [] (dproc_cls t) t) (\<lambda>u.
          let v = (emit (OClose (data u)) u)\<lparr>data := -1\<rparr>
          in if busy v \<le> 0 then if busy v \<noteq> 0 then Inl AssertFail
             else exec_queued (ftp_handle_n (length (sel_in s)) client_done) v
             else Inr v)"
    using file_data.data_complete [OF assms(1,5) TrueI assms(6,3,7,8), of client_done] by blast
  obtain u where u: "run_dproc client_done Dproc_xfer [] (dproc_cls t) t = Inr u" "stored i f bs u"
    "same_ctl (t\<lparr>busy := busy t - 1, app := app u\<rparr>) u"
    using file_ends [OF t(1) assms(9)] assms(4) by auto
  let ?v = "(emit (OClose (data u)) u)\<lparr>data := -1\<rparr>"
  have v: "awaits (busy s - 1) [] ?v" "ctl ?v = ctl s" "cproc ?v = cproc s" "ctl_rx ?v = ctl_rx s" "sent ?v = sent s"
    "stored i f bs ?v" "data ?v = -1"
    using t(2) u(2,3) assms(2) by (auto simp: same_ctl_def awaits_def emit_def sent_def stored_def)
  have "events client_done (replicate (Suc (length ps div 4)) (data s)) s = Inr ?v"
    using t(3) u(1) v(1) assms(3) exec_queued_none [of ?v] by (auto simp: awaits_def Let_def)
  with v show ?thesis unfolding data_end_def by blast
qed

lemma file_served_at:
  assumes "asked_file i s" "packets_ok ps" "dat_rx s = map Rx ps @ [Rx []]" "data s \<noteq> ctl s" "0 \<le> data s"
    and "xfers s i = Some x" "x_op x = FTP_RETR" "x_fp x = Some f" "x_done x = Some Xfer_done" "x_count x = 0" "files s f = []"
    and "ctl_rx s = [Rx (rline 150 l1 @ [CR, LF]), RxBlock, Rx (rline 226 l2 @ [CR, LF])]" "line_ok l1" "line_ok l2"
    and "strchr (rline 150 l1) CHR ''('' = Some q" "scan_total q = Some z" "0 \<le> z" "m \<le> Suc (length ps div 4)"
  obtains t where
    "events client_done (ctl s # replicate m (data s) @ ctl s # replicate (Suc (length ps div 4) - m) (data s)) s = Inr t"
    "awaits 0 [] t" "stored i f (concat ps) t" "data t = -1" "sent t = sent s"
proof -
  have s: "awaits 2 [] s" "cproc s = Some Cproc_xfer" "cproc_cls s = ClsXfer i" "dproc s = Some Dproc_xfer" "dproc_cls s = ClsXfer i"
    using assms(1) by (simp_all add: asked_file_def)
  let ?x = "x\<lparr>x_total := z\<rparr>"
  obtain s1 where s1: "ftp_handle client_done (ctl s) s = Inr s1" "awaits 2 [] s1" "xfers s1 = (xfers s)(i \<mapsto> ?x)"
    "dproc s1 = dproc s" "dproc_cls s1 = dproc_cls s" "files s1 = files s" "dat_rx s1 = dat_rx s" "ctl s1 = ctl s" "data s1 = data s"
    "cproc s1 = cproc s" "ctl_rx s1 = tl (tl (ctl_rx s))" "sent s1 = sent s"
    unfolding handle_knot
    by (rule size_reply [OF s(1) _ s(2,3) assms(6,12,13) _ assms(15,16), of client_done "ftp_handle_n (length (sel_in s)) client_done"])
      (use assms(12) in auto)
  have s1': "has_file i f ?x [] s1" "dat_rx s1 = map Rx ps @ [Rx []]" "ctl_rx s1 = [Rx (rline 226 l2 @ [CR, LF])]"
    "cproc s1 = Some Cproc_xfer" "data s1 \<noteq> ctl s1" "0 \<le> data s1"
    using s1 s assms(3-12,17) by (simp_all add: has_file_def)
  obtain t where t: "events client_done (replicate m (data s1) @ ctl s1 # replicate (Suc (length ps div 4) - m) (data s1)) s1 = Inr t"
    "awaits 0 [] t" "stored i f (concat ps) t \<and> data t = -1" "sent t = sent s1"
  proof (rule file_data.served_around [OF s1(2) s1'(4) _ s1'(1) assms(2) TrueI s1'(2,5,6,3) assms(14) _ _ assms(18),
        where Q = "\<lambda>t. stored i f (concat ps) t \<and> data t = -1" and cb = client_done])
    fix acc qs and u :: cs
    assume u: "has_file i f ?x acc u" "awaits (busy u) [] u" "0 < busy u" "acc @ concat qs = concat ps" "packets_ok qs"
      "dat_rx u = map Rx qs @ [Rx []]" "data u = data s1" "ctl u = ctl s1"
    show "data_end client_done qs (\<lambda>t. stored i f (concat ps) t \<and> data t = -1) u"
      by (rule file_arrives [OF u(1-6)]) (use u(7,8) s1'(5,6) assms(9) in simp_all)
  qed (auto simp: stored_def after_reply_def same_data_def same_rest_def)
  show thesis using that t s1(1,8,9,12) by simp
qed

lemma scan_total_size:
  assumes "int n < 2 ^ 63"
  shows "scan_total (CHR ''('' # dec_str n @ CHR '' '' # r) = Some (int n)"
proof -
  obtain c ds where d: "dec_str n = c # ds" by (cases "dec_str n") auto
  have c: "isdigit c" using dec_str_digits [of n] d by simp
  then have "\<not> isspace c" "c \<noteq> CHR ''-''" "c \<noteq> CHR ''+''" by (auto simp: isdigit_def isspace_def ccode_def)
  moreover have "dec_val 0 (dec_str n @ CHR '' '' # r) = n"
    using dec_str_digits [of n] dec_val_dec_str [of n] by (simp add: dec_val_append isdigit_def ccode_def)
  ultimately show ?thesis using assms c d by (simp add: scan_total_def)
qed

section \<open>The pointers to the arguments of handlers\<close>

text \<open>The type to which a handler casts its argument.\<close>

fun data_arg :: "dproc \<Rightarrow> cls \<Rightarrow> bool" where
  "data_arg Dproc_list (ClsBuf i) \<longleftrightarrow> True"
| "data_arg Dproc_xfer (ClsXfer i) \<longleftrightarrow> True"
| "data_arg _ _ \<longleftrightarrow> False"

fun reply_arg :: "cproc \<Rightarrow> cls \<Rightarrow> bool" where
  "reply_arg Cproc_xfer (ClsXfer i) \<longleftrightarrow> True"
| "reply_arg Cproc_xfer _ \<longleftrightarrow> False"
| "reply_arg _ _ \<longleftrightarrow> True"

definition well_typed :: "'a sys \<Rightarrow> bool" where
  "well_typed s \<longleftrightarrow> (case dproc s of None \<Rightarrow> True | Some f \<Rightarrow> data_arg f (dproc_cls s))
     \<and> (case cproc s of None \<Rightarrow> True | Some f \<Rightarrow> reply_arg f (cproc_cls s))"

lemma inv_well_typed: "ftp_inv I s \<Longrightarrow> well_typed s"
proof -
  assume "ftp_inv I s"
  moreover have "reply_arg f c" if "f \<noteq> Cproc_xfer" for f c using that by (cases f) auto
  ultimately show "well_typed s"
    by (auto simp: ftp_inv_def well_typed_def split: option.split)
      (metis (full_types) data_arg.simps(1,2) dproc.exhaust reply_arg.simps(1))+
qed

section \<open>Examples\<close>

definition two_queued :: op_queue where
  "two_queued = (case bindE (enq_op (file_op 0) empty_queue) (enq_op (file_op 1)) of Inr q \<Rightarrow> q | Inl _ \<Rightarrow> empty_queue)"

lemma two_queued_ok: "q_ok two_queued \<and> q_list two_queued = [file_op 0, file_op 1]"
proof -
  obtain q where q: "enq_op (file_op 0) empty_queue = Inr q" "q_ok q" "q_list q = [file_op 0]"
    using opq.enqE [OF empty_queue_ok(1), of "file_op 0"] empty_queue_ok by auto
  obtain q' where "enq_op (file_op 1) q = Inr q'" "q_ok q'" "q_list q' = [file_op 0, file_op 1]"
    using opq.enqE [OF q(2), of "file_op 1"] q(3) by auto
  then show ?thesis using q(1) by (simp add: two_queued_def)
qed

definition open_reply :: rx_ans where
  "open_reply = Rx (rline 227 (''Passive '' @ CHR ''('' # port_args 0x7f000001 2021 @ '')'') @ [CR, LF])"

definition mixed_example :: "client sys" where
  "mixed_example = (idle client0)\<lparr>opqueue := two_queued, sock_in := [4], conn_in := [True], sel_in := [Sel True 0],
     ctl_rx := [open_reply], xfers := [0 \<mapsto> xfer_example, 1 \<mapsto> xfer_example\<lparr>x_rname := ''b.txt'', x_fp := Some 1\<rparr>]\<rparr>"

definition download_example :: "client sys" where
  "download_example = (idle client0)\<lparr>sock_in := [4], conn_in := [True], sel_in := [Sel True 0],
     ctl_rx := [open_reply, RxBlock, Rx (rline 150 (''sent '' @ CHR ''('' # dec_str 6 @ '' bytes)'') @ [CR, LF]), RxBlock,
       Rx (rline 226 ''ok'' @ [CR, LF])],
     dat_rx := [Rx ''abc'', Rx ''def'', Rx []], xfers := [0 \<mapsto> xfer_example]\<rparr>"

lemma size_example: "dec_str 6 = ''6''"
  by code_simp

definition session_example :: "client sys" where
  "session_example = (idle client0)\<lparr>ctl := -1, sock_in := [3, 4], host_in := [Some 0x7f000001], conn_in := [True, True],
     sel_in := [Sel True 0],
     ctl_rx := concat (map (\<lambda>(n, l). [Rx (rline n l @ [CR, LF]), RxBlock])
       [(220, ''hello''), (331, ''password''), (230, ''welcome''), (200, ''binary''), (257, DQUOTE # ''/'' @ DQUOTE # []),
        (227, ''Passive '' @ CHR ''('' # port_args 0x7f000001 2021 @ '')''), (150, ''here it comes'')])
       @ [Rx (rline 226 ''done'' @ [CR, LF])],
     dat_rx := [Rx (ls_text ls_example), Rx []]\<rparr>"

end
