(* ===== verification/Ts_Float.thy ===== *)
theory Ts_Float
  imports Prelude Complex_Main
begin

text \<open>
  The numbers of the configuration files: what \<open>src/treestor.c\<close> and \<open>src/ts_text.c\<close> use of \<open>float\<close>,
  \<open>double\<close>, \<open>atof\<close> and the conversions \<open>%g\<close> and \<open>%d\<close> of \<open>printf\<close>, with IEEE 754 arithmetic.

  A floating point number is its sign and its exact magnitude, or an infinity. There is no NaN: the
  tokens that reach \<open>atof\<close> are decimal numbers (\<open>Ts_Text\<close>).
\<close>

section \<open>Rounding\<close>

datatype flt = Flt bool rat | FInf bool

definition fzero :: flt where
  "fzero = Flt False 0"

text \<open>To the nearest integer, halves to the even one.\<close>

definition round_even :: "rat \<Rightarrow> int" where
  "round_even q =
     (let k = \<lfloor>q\<rfloor>; r = q - of_int k
      in if r < 1 / 2 then k else if r > 1 / 2 then k + 1 else if even k then k else k + 1)"

text \<open>The whole part of a logarithm, and powers with a negative exponent.\<close>

fun flog :: "nat \<Rightarrow> nat \<Rightarrow> nat" where
  "flog b n = (if b < 2 \<or> n < b then 0 else Suc (flog b (n div b)))"

declare flog.simps [simp del]

definition clog :: "nat \<Rightarrow> nat \<Rightarrow> nat" where
  "clog b n = (if n \<le> 1 then 0 else Suc (flog b (n - 1)))"

definition rlog :: "nat \<Rightarrow> rat \<Rightarrow> int" where
  "rlog b q = (if q \<ge> 1 then int (flog b (nat \<lfloor>q\<rfloor>)) else - int (clog b (nat \<lceil>1 / q\<rceil>)))"

definition rpow :: "nat \<Rightarrow> int \<Rightarrow> rat" where
  "rpow b e = (if e \<ge> 0 then of_nat b ^ nat e else 1 / of_nat b ^ nat (- e))"

text \<open>
  A magnitude as a binary number of \<open>p\<close> bits with exponents from \<open>emin\<close> on; \<open>None\<close> from \<open>2 ^ emax\<close> on.
\<close>

definition round_bin :: "nat \<Rightarrow> int \<Rightarrow> int \<Rightarrow> rat \<Rightarrow> rat option" where
  "round_bin p emin emax q =
     (if q = 0 then Some 0
      else
        let e = max (rlog 2 q - int p + 1) emin;
            r = of_int (round_even (q / rpow 2 e)) * rpow 2 e
        in if r \<ge> rpow 2 emax then None else Some r)"

definition to_double :: "bool \<Rightarrow> rat \<Rightarrow> flt" where
  "to_double s q = (case round_bin 53 (-1074) 1024 q of None \<Rightarrow> FInf s | Some r \<Rightarrow> Flt s r)"

text \<open>The conversion to \<open>float\<close>.\<close>

definition to_float :: "flt \<Rightarrow> flt" where
  "to_float f =
     (case f of
        FInf s \<Rightarrow> FInf s
      | Flt s q \<Rightarrow> (case round_bin 24 (-149) 128 q of None \<Rightarrow> FInf s | Some r \<Rightarrow> Flt s r))"

definition int_to_float :: "int \<Rightarrow> flt" where
  "int_to_float n = to_float (Flt (n < 0) (of_int \<bar>n\<bar>))"

text \<open>
  \<open>(int)f\<close> cuts off the fraction. C leaves it open what happens when the result does not fit; the
  model gives the smallest \<open>int\<close>, as the processors the program runs on do.
\<close>

definition float_to_int :: "flt \<Rightarrow> int" where
  "float_to_int f =
     (case f of
        FInf s \<Rightarrow> - (2 ^ 31)
      | Flt s q \<Rightarrow>
          (let n = (if s then - \<lfloor>q\<rfloor> else \<lfloor>q\<rfloor>)
           in if - (2 ^ 31) \<le> n \<and> n < 2 ^ 31 then n else - (2 ^ 31)))"

section \<open>Text\<close>

text \<open>\<open>atof\<close> on a decimal number: a sign, digits, and a fraction.\<close>

definition atof :: "string \<Rightarrow> flt" where
  "atof s =
     (let neg = (s \<noteq> [] \<and> hd s = CHR ''-'');
          u = (if s \<noteq> [] \<and> (hd s = CHR ''-'' \<or> hd s = CHR ''+'') then tl s else s);
          whole = takeWhile isdigit u;
          r = dropWhile isdigit u;
          fr = (if r \<noteq> [] \<and> hd r = CHR ''.'' then takeWhile isdigit (tl r) else [])
      in if whole = [] \<and> fr = [] then fzero
         else to_double neg (of_nat (dec_val 0 (whole @ fr)) / 10 ^ length fr))"

definition int_str :: "int \<Rightarrow> string" where
  "int_str n = (if n < 0 then CHR ''-'' # dec_str (nat (- n)) else dec_str (nat n))"

definition strip_zeros :: "string \<Rightarrow> string" where
  "strip_zeros s = rev (dropWhile (\<lambda>c. c = CHR ''0'') (rev s))"

definition pad_zeros :: "nat \<Rightarrow> string \<Rightarrow> string" where
  "pad_zeros n s = replicate (n - length s) CHR ''0'' @ s"

text \<open>
  \<open>%g\<close>: six significant digits \<open>d\<close> with the decimal exponent \<open>x\<close>, without trailing zeros; with an exponent when
  \<open>x\<close> is below -4 or above 5.
\<close>

definition point :: "string \<Rightarrow> string \<Rightarrow> string" where
  "point whole fr = (let f = strip_zeros fr in if f = [] then whole else whole @ CHR ''.'' # f)"

definition fmt_digits :: "nat \<Rightarrow> int \<Rightarrow> string" where
  "fmt_digits d x =
     (let ds = dec_str d
      in if x < -4 \<or> x \<ge> 6
         then point (take 1 ds) (drop 1 ds) @ CHR ''e'' # (if x < 0 then CHR ''-'' else CHR ''+'')
                # pad_zeros 2 (dec_str (nat \<bar>x\<bar>))
         else if x \<ge> 0 then point (take (nat x + 1) ds) (drop (nat x + 1) ds)
         else point ''0'' (replicate (nat (- x) - 1) CHR ''0'' @ ds))"

definition fmt_g :: "flt \<Rightarrow> string" where
  "fmt_g f =
     (case f of
        FInf s \<Rightarrow> (if s then ''-inf'' else ''inf'')
      | Flt s q \<Rightarrow>
          (if s then ''-'' else [])
          @ (if q = 0 then ''0''
             else
               let x = rlog 10 q;
                   d = nat (round_even (q / rpow 10 (x - 5)))
               in if d = 1000000 then fmt_digits 100000 (x + 1) else fmt_digits d x))"

section \<open>Whole numbers\<close>

text \<open>Whole numbers of at most six digits pass through all the conversions unchanged.\<close>

lemma round_even_int [simp]: "round_even (of_int k) = k"
  by (simp add: round_even_def)

lemma round_even_nat [simp]: "round_even (of_nat k) = int k"
  using round_even_int [of "int k"] by simp

lemma pow_flog: "2 \<le> b \<Longrightarrow> 1 \<le> n \<Longrightarrow> b ^ flog b n \<le> n"
proof (induction b n rule: flog.induct)
  case (1 b n)
  show ?case
  proof (cases "n < b")
    case False
    then have "1 \<le> n div b" using 1(2) by (simp add: div_greater_zero_iff Suc_le_eq)
    then have "b ^ flog b (n div b) \<le> n div b" using 1 False by simp
    then have "b * b ^ flog b (n div b) \<le> b * (n div b)" by simp
    also have "\<dots> \<le> n" by simp
    finally show ?thesis using False 1(2) by (simp add: flog.simps [of b n])
  qed (use 1 in \<open>simp add: flog.simps [of b n]\<close>)
qed

lemma flog_less: "2 \<le> b \<Longrightarrow> 1 \<le> n \<Longrightarrow> n < b ^ p \<Longrightarrow> flog b n < p"
  using pow_flog [of b n] by (metis (no_types) le_less_trans one_less_numeral_iff power_less_imp_less_exp
      semiring_norm(76) less_le_trans)

lemma round_bin_nat:
  assumes "1 \<le> n" "n < 2 ^ p" "emin \<le> 0" "0 \<le> emax" "n < 2 ^ nat emax"
  shows "round_bin p emin emax (of_nat n) = Some (of_nat n)"
proof -
  have l: "rlog 2 (of_nat n) = int (flog 2 n)" using assms(1) by (simp add: rlog_def)
  have f: "flog 2 n < p" using assms(1,2) by (intro flog_less) simp_all
  define k where "k = nat (- max (rlog 2 (of_nat n) - int p + 1) emin)"
  have k: "max (rlog 2 (of_nat n) - int p + 1) emin = - int k" using l f assms(3) by (simp add: k_def)
  have r: "rpow 2 (- int k) = 1 / 2 ^ k" by (cases "k = 0") (simp_all add: rpow_def)
  have "round_even (of_nat n / rpow 2 (- int k)) = int (n * 2 ^ k)"
    using round_even_nat [of "n * 2 ^ k"] by (simp add: r)
  moreover have "(of_nat n :: rat) < 2 ^ nat emax"
    using assms(5) by (metis of_nat_less_iff of_nat_numeral of_nat_power)
  ultimately show ?thesis using assms(1,4) by (simp add: round_bin_def Let_def k r rpow_def)
qed

lemma float_of_double: "1 \<le> n \<Longrightarrow> n < 1000000 \<Longrightarrow> to_float (to_double s (of_nat n)) = Flt s (of_nat n)"
proof -
  assume n: "1 \<le> n" "n < 1000000"
  have "n < 2 ^ 53" "n < 2 ^ 24" "n < 2 ^ nat 1024" "n < 2 ^ nat 128" using n
      less_le_trans [OF n(2), of "2 ^ nat 1024"] less_le_trans [OF n(2), of "2 ^ nat 128"] by simp_all
  then show ?thesis using n by (simp add: to_double_def to_float_def round_bin_nat)
qed

lemma char_zero: "char_of (48 :: nat) = CHR ''0''"
  by code_simp

lemma dec_str_0: "dec_str 0 = ''0''"
  by (simp add: dec_str.simps char_zero)

lemma dec_str_zeros: "1 \<le> n \<Longrightarrow> dec_str (n * 10 ^ k) = dec_str n @ replicate k CHR ''0''"
proof (induction k)
  case (Suc k)
  have "\<not> n * 10 ^ Suc k < 10" using Suc.prems by simp
  moreover have "n * 10 ^ Suc k div 10 = n * 10 ^ k" "n * 10 ^ Suc k mod 10 = 0" by simp_all
  ultimately have "dec_str (n * 10 ^ Suc k) = dec_str (n * 10 ^ k) @ [CHR ''0'']"
    by (subst dec_str.simps) (simp add: char_zero)
  then show ?case using Suc by (simp add: replicate_append_same)
qed simp

lemma length_dec_str: "1 \<le> n \<Longrightarrow> length (dec_str n) = Suc (flog 10 n)"
proof (induction n rule: dec_str.induct)
  case (1 n)
  then show ?case by (cases "n < 10") (simp_all add: dec_str.simps [of n] flog.simps [of 10 n])
qed

lemma fmt_g_nat:
  assumes "1 \<le> n" "n < 1000000"
  shows "fmt_g (Flt s (of_nat n)) = (if s then ''-'' else []) @ dec_str n"
proof -
  let ?x = "flog 10 n"
  have x: "?x < 6" using flog_less [of 10 n 6] assms by simp
  have l: "rlog 10 (of_nat n) = int ?x" using assms by (simp add: rlog_def)
  define k where "k = 5 - ?x"
  have r: "rpow 10 (int ?x - 5) = 1 / 10 ^ k"
  proof (cases "k = 0")
    case False
    then have "int ?x - 5 < 0" "nat (5 - int ?x) = k" using x by (simp_all add: k_def)
    then show ?thesis by (simp add: rpow_def)
  qed (use x in \<open>simp add: rpow_def k_def\<close>)
  have d: "nat (round_even (of_nat n / rpow 10 (int ?x - 5))) = n * 10 ^ k"
    using round_even_nat [of "n * 10 ^ k"] by (simp add: r nat_mult_distrib nat_power_eq)
  have len: "length (dec_str n) = Suc ?x" using assms(1) by (rule length_dec_str)
  have ne: "n * 10 ^ k \<noteq> 1000000"
  proof
    assume "n * 10 ^ k = 1000000"
    then have "length (dec_str (n * 10 ^ k)) = 7" by (simp add: dec_str.simps)
    moreover have "length (dec_str (n * 10 ^ k)) = 6" using dec_str_zeros [OF assms(1), of k] len x by (simp add: k_def)
    ultimately show False by simp
  qed
  have "strip_zeros (replicate k CHR ''0'') = []"
    by (simp add: strip_zeros_def dropWhile_eq_Nil_conv)
  then have "fmt_digits (n * 10 ^ k) (int ?x) = dec_str n"
    using x len dec_str_zeros [OF assms(1), of k] by (simp add: fmt_digits_def point_def Let_def)
  then show ?thesis using assms(1) ne by (simp add: fmt_g_def l d)
qed

lemma takeWhile_dec_str: "takeWhile isdigit (dec_str n) = dec_str n" "dropWhile isdigit (dec_str n) = []"
  using dec_str_digits [of n] by (auto simp: list_all_iff)

lemma atof_dec_str: "atof (CHR ''-'' # dec_str n) = to_double True (of_nat n)" "atof (dec_str n) = to_double False (of_nat n)"
proof -
  obtain c cs where c: "dec_str n = c # cs" by (cases "dec_str n") auto
  then have "isdigit c" using dec_str_digits [of n] by simp
  then have h: "c \<noteq> CHR ''-''" "c \<noteq> CHR ''+''" by (auto simp: isdigit_def ccode_def)
  have hd: "hd (dec_str n) = c" using c by simp
  show "atof (CHR ''-'' # dec_str n) = to_double True (of_nat n)"
    by (simp only: atof_def takeWhile_dec_str Let_def list.sel) (simp add: takeWhile_dec_str dec_val_dec_str)
  show "atof (dec_str n) = to_double False (of_nat n)"
    using h takeWhile_dec_str [of n] dec_val_dec_str [of n] hd by (simp add: atof_def Let_def del: takeWhile_eq_all_conv dropWhile_eq_Nil_conv)
qed

lemma number_roundtrip:
  assumes "\<bar>n\<bar> < 1000000"
  shows "fmt_g (to_float (atof (int_str n))) = int_str n"
    and "to_float (atof (int_str n)) = Flt (n < 0) (of_int \<bar>n\<bar>)"
proof -
  have z: "to_float (to_double False 0) = Flt False 0" by (simp add: to_double_def to_float_def round_bin_def)
  have "fmt_g (to_float (atof (int_str n))) = int_str n \<and> to_float (atof (int_str n)) = Flt (n < 0) (of_int \<bar>n\<bar>)"
  proof (cases "n = 0")
    case True
    then show ?thesis using z dec_str_0 atof_dec_str(2) [of 0] by (simp add: int_str_def fmt_g_def)
  next
    case False
    let ?m = "nat \<bar>n\<bar>"
    have m: "1 \<le> ?m" "?m < 1000000" using False assms by linarith+
    have q: "(of_int \<bar>n\<bar> :: rat) = of_nat ?m" by simp
    show ?thesis
    proof (cases "n < 0")
      case True
      then have "int_str n = CHR ''-'' # dec_str ?m" by (simp add: int_str_def)
      then show ?thesis
        using True m q by (simp add: atof_dec_str float_of_double fmt_g_nat del: of_nat_nat)
    next
      case False
      then have "int_str n = dec_str ?m" by (simp add: int_str_def)
      then show ?thesis using False m q by (simp add: atof_dec_str float_of_double fmt_g_nat del: of_nat_nat)
    qed
  qed
  then show "fmt_g (to_float (atof (int_str n))) = int_str n"
    and "to_float (atof (int_str n)) = Flt (n < 0) (of_int \<bar>n\<bar>)" by blast+
qed

end
