(* ===== verification/Ts_Value.thy ===== *)
theory Ts_Value
  imports Ts_Float
begin

text \<open>
  The values of the tree store (\<open>src/treestor.h\<close>, first part of \<open>src/treestor.c\<close>): \<open>struct ts_value\<close> and
  the functions that set, copy and destroy it.

  A value owns its strings, vectors and arrays, so its pointers are the things they point to, \<open>None\<close> for
  the null pointer. \<open>v_freed\<close> is not a field of the C structure: it says that what the pointers of the
  structure point to was freed, and the pointers were left as they are. Memory can run out: \<open>mem\<close> is the
  script of the outcomes of \<open>malloc\<close>, and each call takes one.
\<close>

section \<open>State\<close>

datatype ts_value_type = TS_STRING | TS_NUMBER | TS_VECTOR | TS_ARRAY

datatype ts_value =
  TsValue (v_type: ts_value_type) (v_str: "string option") (v_inum: int) (v_fnum: flt)
    (v_vec: "flt list option") (v_vec_size: nat) (v_array: "ts_value list option") (v_array_size: nat)
    (v_freed: bool)

type_synonym mem = "bool list"

definition malloc :: "mem \<Rightarrow> bool \<times> mem" where
  "malloc m = next_ans True m"

definition ts_init_value :: ts_value where
  "ts_init_value = TsValue TS_STRING None 0 fzero None 0 None 0 False"

section \<open>Destroying and copying\<close>

text \<open>
  \<open>free\<close> twice is a \<open>UseAfterFree\<close>. The loop over the elements trusts \<open>array_size\<close>: without an array it goes
  through a null pointer, with a shorter one it reads behind it.
\<close>

fun ts_destroy_value :: "ts_value \<Rightarrow> unit res"
and destroy_all :: "ts_value list \<Rightarrow> unit res" where
  "ts_destroy_value (TsValue ty str inum fnum vec vsz None asz freed) =
     (if freed \<and> (str \<noteq> None \<or> vec \<noteq> None) then Inl UseAfterFree
      else if asz > 0 then Inl NullDeref else Inr ())"
| "ts_destroy_value (TsValue ty str inum fnum vec vsz (Some arr) asz freed) =
     (if freed then Inl UseAfterFree
      else if length arr < asz then Inl Overread
      else bindE (destroy_all arr) (\<lambda>_. Inr ()))"
| "destroy_all [] = Inr ()"
| "destroy_all (v # vs) = bindE (ts_destroy_value v) (\<lambda>_. destroy_all vs)"

definition set_freed :: "ts_value \<Rightarrow> ts_value" where
  "set_freed v =
     TsValue (v_type v) (v_str v) (v_inum v) (v_fnum v) (v_vec v) (v_vec_size v) (v_array v) (v_array_size v) True"

definition ts_alloc_value :: "mem \<Rightarrow> ts_value option \<times> mem" where
  "ts_alloc_value m = (case malloc m of (True, m') \<Rightarrow> (Some ts_init_value, m') | (False, m') \<Rightarrow> (None, m'))"

definition ts_free_value :: "ts_value \<Rightarrow> unit res" where
  "ts_free_value v = ts_destroy_value v"

text \<open>
  What a copy leaves in \<open>dest\<close> when it fails: after the label \<open>fail\<close> everything is freed, but the pointers stay.
  When it is the copy of an element that fails, its structure is destroyed with the others although the call
  has freed it already.
\<close>

definition malloc_if :: "bool \<Rightarrow> mem \<Rightarrow> bool \<times> mem" where
  "malloc_if c m = (if c then malloc m else (True, m))"

fun ts_copy_value :: "ts_value \<Rightarrow> mem \<Rightarrow> (int \<times> ts_value \<times> mem) res"
and copy_elems :: "ts_value list \<Rightarrow> mem \<Rightarrow> (ts_value list \<times> ts_value option \<times> mem) res" where
  "ts_copy_value (TsValue ty str inum fnum vec vsz arr asz freed) m =
     (let dest = (\<lambda>s v a. TsValue ty s inum fnum v vsz a asz);
          (ok1, m1) = malloc_if (str \<noteq> None) m;
          (ok2, m2) = malloc_if (vec \<noteq> None \<and> vsz > 0) m1;
          vec' = (if vsz > 0 then vec else None)
      in if freed \<and> (str \<noteq> None \<or> vec \<noteq> None \<or> arr \<noteq> None) then Inl UseAfterFree
         else if \<not> ok1 then Inr (-1, dest None None None True, m1)
         else if \<not> ok2 then Inr (-1, dest str None None True, m2)
         else
           (case arr of
              None \<Rightarrow> Inr (0, dest str vec' None False, m2)
            | Some a \<Rightarrow>
                if asz = 0 then Inr (0, dest str vec' None False, m2)
                else
                  let (ok3, m3) = malloc m2
                  in if \<not> ok3 then Inr (-1, dest str vec' None True, m3)
                     else if length a < asz then Inl Overread
                     else
                       bindE (copy_elems a m3) (\<lambda>(els, bad, m4).
                       case bad of
                         None \<Rightarrow> Inr (0, dest str vec' (Some els) False, m4)
                       | Some d \<Rightarrow>
                           bindE (destroy_all (els @ [d])) (\<lambda>_.
                           Inr (-1, dest str vec' (Some (els @ [d])) True, m4)))))"
| "copy_elems [] m = Inr ([], None, m)"
| "copy_elems (v # vs) m =
     bindE (ts_copy_value v m) (\<lambda>(r, d, m1).
     if r = -1 then Inr ([], Some d, m1)
     else bindE (copy_elems vs m1) (\<lambda>(ds, bad, m2). Inr (d # ds, bad, m2)))"

section \<open>Setting values\<close>

text \<open>\<open>make_intstr\<close> and \<open>make_floatstr\<close> print into a block of their own.\<close>

definition make_str :: "string \<Rightarrow> mem \<Rightarrow> string option \<times> mem" where
  "make_str s m = (case malloc m of (True, m') \<Rightarrow> (Some s, m') | (False, m') \<Rightarrow> (None, m'))"

definition make_intstr :: "int \<Rightarrow> mem \<Rightarrow> string option \<times> mem" where
  "make_intstr x = make_str (int_str x)"

definition make_floatstr :: "flt \<Rightarrow> mem \<Rightarrow> string option \<times> mem" where
  "make_floatstr x = make_str (fmt_g x)"

definition ts_set_value_str :: "ts_value \<Rightarrow> string \<Rightarrow> mem \<Rightarrow> (int \<times> ts_value \<times> mem) res" where
  "ts_set_value_str tsv s m =
     bindE (if v_str tsv \<noteq> None then bindE (ts_destroy_value tsv) (\<lambda>_. Inr ts_init_value) else Inr tsv) (\<lambda>v.
     let (str, m) = make_str s m
     in Inr (if str = None then -1 else 0,
             TsValue TS_STRING str (v_inum v) (v_fnum v) (v_vec v) (v_vec_size v) (v_array v) (v_array_size v) (v_freed v),
             m))"

text \<open>The case of a single number, and the loop that makes the elements of a vector from its numbers.\<close>

definition set_number :: "ts_value \<Rightarrow> string option \<Rightarrow> int \<Rightarrow> flt \<Rightarrow> mem \<Rightarrow> int \<times> ts_value \<times> mem" where
  "set_number v str i f m =
     (if str = None
      then (-1, TsValue (v_type v) None (v_inum v) (v_fnum v) (v_vec v) (v_vec_size v) (v_array v) (v_array_size v)
                  (v_freed v), m)
      else (0, TsValue TS_NUMBER str i f (v_vec v) (v_vec_size v) (v_array v) (v_array_size v) (v_freed v), m))"

definition ts_set_valuef :: "ts_value \<Rightarrow> flt \<Rightarrow> mem \<Rightarrow> int \<times> ts_value \<times> mem" where
  "ts_set_valuef tsv fnum m =
     (let (str, m) = make_floatstr fnum m in set_number tsv str (float_to_int fnum) fnum m)"

fun vec_elems :: "flt list \<Rightarrow> mem \<Rightarrow> ts_value list \<times> mem" where
  "vec_elems [] m = ([], m)"
| "vec_elems (f # fs) m =
     (let (r, v, m) = ts_set_valuef ts_init_value f m; (vs, m) = vec_elems fs m in (v # vs, m))"

definition set_vector :: "ts_value \<Rightarrow> flt list \<Rightarrow> mem \<Rightarrow> (int \<times> ts_value \<times> mem) res" where
  "set_vector v fs m =
     (let (ok1, m1) = malloc m; (ok2, m2) = malloc m1
      in if \<not> ok1
         then Inr (-1, TsValue (v_type v) (v_str v) (v_inum v) (v_fnum v) None (v_vec_size v) (v_array v)
                         (v_array_size v) (v_freed v), m1)
         else if \<not> ok2 then Inl NullDeref
         else
           let (els, m3) = vec_elems fs m2
           in Inr (0, TsValue TS_VECTOR (v_str v) (v_inum v) (v_fnum v) (Some fs) (length fs) (Some els) (length fs)
                        (v_freed v), m3))"

text \<open>The lists hold \<open>count\<close> numbers, the numbers an array or an argument list of C has.\<close>

definition ts_set_valuei_arr :: "ts_value \<Rightarrow> int list \<Rightarrow> mem \<Rightarrow> (int \<times> ts_value \<times> mem) res" where
  "ts_set_valuei_arr tsv arr m =
     (if arr = [] then Inr (-1, tsv, m)
      else if length arr = 1
      then (let (str, m) = make_intstr (hd arr) m
            in Inr (set_number tsv str (hd arr) (int_to_float (hd arr)) m))
      else set_vector tsv (map int_to_float arr) m)"

definition ts_set_valuei :: "ts_value \<Rightarrow> int \<Rightarrow> mem \<Rightarrow> (int \<times> ts_value \<times> mem) res" where
  "ts_set_valuei tsv inum m = ts_set_valuei_arr tsv [inum] m"

definition ts_set_valueiv_va :: "ts_value \<Rightarrow> nat \<Rightarrow> int list \<Rightarrow> mem \<Rightarrow> (int \<times> ts_value \<times> mem) res" where
  "ts_set_valueiv_va tsv cnt ap m =
     (if cnt < 1 then Inr (-1, tsv, m)
      else if length ap < cnt then Inl Overread
      else if cnt = 1 then bindE (ts_set_valuei tsv (hd ap) m) (\<lambda>(r, v, m). Inr (0, v, m))
      else ts_set_valuei_arr tsv (take cnt ap) m)"

definition ts_set_valueiv :: "ts_value \<Rightarrow> nat \<Rightarrow> int list \<Rightarrow> mem \<Rightarrow> (int \<times> ts_value \<times> mem) res" where
  "ts_set_valueiv tsv cnt args m = ts_set_valueiv_va tsv cnt args m"

definition ts_set_valuef_arr :: "ts_value \<Rightarrow> flt list \<Rightarrow> mem \<Rightarrow> (int \<times> ts_value \<times> mem) res" where
  "ts_set_valuef_arr tsv arr m =
     (if arr = [] then Inr (-1, tsv, m)
      else if length arr = 1 then Inr (ts_set_valuef tsv (hd arr) m)
      else set_vector tsv arr m)"

text \<open>The variable arguments of the next function are \<open>double\<close>.\<close>

definition ts_set_valuefv_va :: "ts_value \<Rightarrow> nat \<Rightarrow> flt list \<Rightarrow> mem \<Rightarrow> (int \<times> ts_value \<times> mem) res" where
  "ts_set_valuefv_va tsv cnt ap m =
     (if cnt < 1 then Inr (-1, tsv, m)
      else if length ap < cnt then Inl Overread
      else if cnt = 1
      then (let (r, v, m) = ts_set_valuef tsv (to_float (hd ap)) m in Inr (0, v, m))
      else ts_set_valuef_arr tsv (map to_float (take cnt ap)) m)"

definition ts_set_valuefv :: "ts_value \<Rightarrow> nat \<Rightarrow> flt list \<Rightarrow> mem \<Rightarrow> (int \<times> ts_value \<times> mem) res" where
  "ts_set_valuefv tsv cnt args m = ts_set_valuefv_va tsv cnt args m"

text \<open>
  Arrays of values. When a copy fails the copies made before it are destroyed and \<open>array\<close> is null again, but
  \<open>array_size\<close> keeps the count. \<open>vec_size\<close> is never set.
\<close>

definition copy_array :: "ts_value \<Rightarrow> ts_value list \<Rightarrow> mem \<Rightarrow> (int \<times> ts_value \<times> mem) res" where
  "copy_array v arr m =
     (let put = TsValue (v_type v) (v_str v) (v_inum v) (v_fnum v) (v_vec v) (v_vec_size v);
          (ok, m1) = malloc m
      in if \<not> ok then Inr (-1, put None (v_array_size v) (v_freed v), m1)
         else
           bindE (copy_elems arr m1) (\<lambda>(els, bad, m2).
           if bad \<noteq> None
           then bindE (destroy_all els) (\<lambda>_. Inr (-1, put None (length arr) (v_freed v), m2))
           else Inr (0, put (Some els) (length arr) (v_freed v), m2)))"

definition ts_set_value_arr :: "ts_value \<Rightarrow> ts_value list \<Rightarrow> mem \<Rightarrow> (int \<times> ts_value \<times> mem) res" where
  "ts_set_value_arr tsv arr m =
     (if length arr \<le> 1 then Inr (-1, tsv, m)
      else
        bindE (copy_array tsv arr m) (\<lambda>(r, v, m).
        if r = -1 then Inr (-1, v, m)
        else if list_all (\<lambda>a. v_type a = TS_NUMBER) arr
        then
          (let (ok, m) = malloc m;
               put = (\<lambda>ty vec. TsValue ty (v_str v) (v_inum v) (v_fnum v) vec (v_vec_size v) (v_array v)
                                  (v_array_size v))
           in if \<not> ok
              then bindE (ts_destroy_value (put (v_type v) None (v_freed v))) (\<lambda>_.
                   Inr (-1, put (v_type v) None True, m))
              else Inr (0, put TS_VECTOR (Some (map v_fnum (the (v_array v)))) (v_freed v), m))
        else
          Inr (0, TsValue TS_ARRAY (v_str v) (v_inum v) (v_fnum v) (v_vec v) (v_vec_size v) (v_array v)
                    (v_array_size v) (v_freed v), m)))"

definition ts_set_valuev_va :: "ts_value \<Rightarrow> nat \<Rightarrow> ts_value list \<Rightarrow> mem \<Rightarrow> (int \<times> ts_value \<times> mem) res" where
  "ts_set_valuev_va tsv cnt ap m =
     (if cnt \<le> 1 then Inr (-1, tsv, m)
      else if length ap < cnt then Inl Overread
      else copy_array tsv (take cnt ap) m)"

definition ts_set_valuev :: "ts_value \<Rightarrow> nat \<Rightarrow> ts_value list \<Rightarrow> mem \<Rightarrow> (int \<times> ts_value \<times> mem) res" where
  "ts_set_valuev tsv cnt args m = ts_set_valuev_va tsv cnt args m"

section \<open>Well-formed values\<close>

text \<open>Nothing freed, and \<open>array_size\<close> the number of elements, in every part of the value.\<close>

fun wf_value :: "ts_value \<Rightarrow> bool" where
  "wf_value (TsValue ty str inum fnum vec vsz arr asz freed) \<longleftrightarrow>
     \<not> freed \<and> (case arr of None \<Rightarrow> asz = 0 | Some a \<Rightarrow> length a = asz \<and> (\<forall>v \<in> set a. wf_value v))"

lemma wf_init [simp]: "wf_value ts_init_value"
  by (simp add: ts_init_value_def)

lemma destroy_wf:
  shows "wf_value v \<Longrightarrow> ts_destroy_value v = Inr ()"
    and "\<forall>v \<in> set vs. wf_value v \<Longrightarrow> destroy_all vs = Inr ()"
  by (induction v and vs rule: ts_destroy_value_destroy_all.induct) auto

lemma destroy_all_append:
  "destroy_all (vs @ ws) = bindE (destroy_all vs) (\<lambda>_. destroy_all ws)"
  by (induction vs) (simp_all add: bindE_assoc)

text \<open>
  When memory runs out, freed memory may be freed again and a null pointer may be followed; when it
  does not, no fault happens. \<open>mem_faults E m\<close>: the faults \<open>E\<close> are those the script \<open>m\<close> can lead to.
\<close>

definition mem_faults :: "fault set \<Rightarrow> mem \<Rightarrow> bool" where
  "mem_faults E m \<longleftrightarrow> False \<in> set m \<longrightarrow> {UseAfterFree, NullDeref} \<subseteq> E"

lemma mem_faults_Nil [simp]: "mem_faults E []"
  by (simp add: mem_faults_def)

lemma malloc_Nil [simp]: "malloc [] = (True, [])"
  by (simp add: malloc_def)

lemma malloc_mem_faults:
  assumes "mem_faults E m" "malloc m = (ok, m')"
  shows "mem_faults E m'" and "\<not> ok \<Longrightarrow> UseAfterFree \<in> E" and "\<not> ok \<Longrightarrow> NullDeref \<in> E"
  using assms by (cases m; auto simp: mem_faults_def malloc_def)+

lemma malloc_if_mem_faults:
  assumes "mem_faults E m" "malloc_if c m = (ok, m')"
  shows "mem_faults E m'" and "\<not> ok \<Longrightarrow> UseAfterFree \<in> E" and "\<not> ok \<Longrightarrow> NullDeref \<in> E"
  using assms malloc_mem_faults by (auto simp: malloc_if_def split: if_splits)

text \<open>What a function that sets a value leaves: a well-formed value, or one whose destruction may fail.\<close>

definition set_ok :: "fault set \<Rightarrow> int \<times> ts_value \<times> mem \<Rightarrow> bool" where
  "set_ok E = (\<lambda>(r, v, m). mem_faults E m \<and>
     (if r = -1 then safeE E (\<lambda>_. True) (ts_destroy_value v) else r = 0 \<and> wf_value v))"

definition copy_ok :: "fault set \<Rightarrow> int \<times> ts_value \<times> mem \<Rightarrow> bool" where
  "copy_ok E x \<longleftrightarrow> set_ok E x \<and> (fst x = -1 \<longrightarrow> {UseAfterFree, NullDeref} \<subseteq> E)"

lemma destroy_freed_ok:
  "UseAfterFree \<in> E \<Longrightarrow> NullDeref \<in> E \<Longrightarrow> v_freed v \<Longrightarrow> safeE E (\<lambda>_. True) (ts_destroy_value v)"
  by (cases v rule: ts_destroy_value.cases) auto

definition elems_ok :: "fault set \<Rightarrow> nat \<Rightarrow> ts_value list \<times> ts_value option \<times> mem \<Rightarrow> bool" where
  "elems_ok E n = (\<lambda>(ds, bad, m). mem_faults E m \<and> (\<forall>d \<in> set ds. wf_value d) \<and>
     (case bad of
        None \<Rightarrow> length ds = n
      | Some d \<Rightarrow> {UseAfterFree, NullDeref} \<subseteq> E \<and> safeE E (\<lambda>_. True) (ts_destroy_value d)))"

lemma elems_safe:
  assumes "\<And>v m. v \<in> set vs \<Longrightarrow> mem_faults E m \<Longrightarrow> safeE E (copy_ok E) (ts_copy_value v m)"
  shows "mem_faults E m \<Longrightarrow> safeE E (elems_ok E (length vs)) (copy_elems vs m)"
  using assms
proof (induction vs arbitrary: m)
  case (Cons v vs)
  have v: "safeE E (copy_ok E) (ts_copy_value v m)" using Cons.prems by simp
  show ?case
    unfolding copy_elems.simps
  proof (rule safeE_bind [OF v], clarify)
    fix r d m1
    assume "copy_ok E (r, d, m1)"
    moreover have "safeE E (elems_ok E (length vs)) (copy_elems vs m1)" if "mem_faults E m1"
      using Cons that by simp
    ultimately show "safeE E (elems_ok E (length (v # vs)))
      (if r = -1 then Inr ([], Some d, m1) else bindE (copy_elems vs m1) (\<lambda>(ds, bad, m2). Inr (d # ds, bad, m2)))"
      by (cases "copy_elems vs m1") (auto simp: elems_ok_def copy_ok_def set_ok_def split: option.splits if_splits)
  qed
qed (simp add: elems_ok_def)

lemma copy_safe: "wf_value v \<Longrightarrow> mem_faults E m \<Longrightarrow> safeE E (copy_ok E) (ts_copy_value v m)"
proof (induction v arbitrary: m)
  case (TsValue ty str inum fnum vec vsz arr asz freed)
  obtain ok1 m1 where a1: "malloc_if (str \<noteq> None) m = (ok1, m1)" by force
  obtain ok2 m2 where a2: "malloc_if (vec \<noteq> None \<and> vsz > 0) m1 = (ok2, m2)" by force
  obtain ok3 m3 where a3: "malloc m2 = (ok3, m3)" by force
  have f1: "mem_faults E m1" "\<not> ok1 \<Longrightarrow> UseAfterFree \<in> E \<and> NullDeref \<in> E"
    using malloc_if_mem_faults [OF TsValue.prems(2) a1] by auto
  have f2: "mem_faults E m2" "\<not> ok2 \<Longrightarrow> UseAfterFree \<in> E \<and> NullDeref \<in> E"
    using malloc_if_mem_faults [OF f1(1) a2] by auto
  have f3: "mem_faults E m3" "\<not> ok3 \<Longrightarrow> UseAfterFree \<in> E \<and> NullDeref \<in> E"
    using malloc_mem_faults [OF f2(1) a3] by auto
  note facts = a1 a2 a3 f1 f2 f3 destroy_freed_ok copy_ok_def set_ok_def
  have nf: "\<not> freed" using TsValue.prems by simp
  show ?case
  proof (cases arr)
    case None
    then show ?thesis using TsValue.prems facts by (auto simp: Let_def split: option.splits)
  next
    case (Some a)
    have a: "length a = asz" "\<forall>v \<in> set a. wf_value v" using TsValue.prems Some by auto
    have els: "safeE E (elems_ok E (length a)) (copy_elems a m3)"
      using TsValue.IH Some a f3 by (intro elems_safe) auto
    show ?thesis
    proof (cases "ok1 \<and> ok2 \<and> asz \<noteq> 0 \<and> ok3")
      case True
      have "safeE E (copy_ok E)
        (case bad of
           None \<Rightarrow> Inr (0, TsValue ty str inum fnum w vsz (Some ds) asz False, m4)
         | Some d \<Rightarrow> bindE (destroy_all (ds @ [d])) (\<lambda>_.
             Inr (-1, TsValue ty str inum fnum w vsz (Some (ds @ [d])) asz True, m4)))"
        if "elems_ok E (length a) (ds, bad, m4)" for ds bad m4 w
        using that a
        by (cases bad; cases "ts_destroy_value (the bad)")
          (auto simp: elems_ok_def copy_ok_def set_ok_def destroy_all_append destroy_wf)
      then show ?thesis
        using True Some a nf a1 a2 a3 els by (auto simp: Let_def intro!: safeE_bind [OF els])
    next
      case False
      then show ?thesis using Some a nf TsValue.prems facts by (auto simp: Let_def split: option.splits)
    qed
  qed
qed

text \<open>The functions of the parser: a string or a number into a fresh value, an array of values.\<close>

lemma set_str_safe:
  assumes "wf_value v" "mem_faults E m"
  shows "safeE E (\<lambda>(r, v, m). wf_value v \<and> mem_faults E m) (ts_set_value_str v s m)"
proof -
  obtain str m1 where a: "make_str s m = (str, m1)" by force
  have f: "mem_faults E m1"
    using a assms(2) malloc_mem_faults(1) [OF assms(2)] by (auto simp: make_str_def split: bool.splits prod.splits)
  show ?thesis
    using assms(1) f destroy_wf(1) [OF assms(1)]
    by (cases v) (auto simp: ts_set_value_str_def a ts_init_value_def)
qed

lemma set_valuef_safe:
  assumes "wf_value v" "mem_faults E m"
  shows "(\<lambda>(r, v, m). wf_value v \<and> mem_faults E m) (ts_set_valuef v f m)"
proof -
  obtain str m1 where a: "make_str (fmt_g f) m = (str, m1)" by force
  have "mem_faults E m1"
    using a assms(2) malloc_mem_faults(1) [OF assms(2)] by (auto simp: make_str_def split: bool.splits prod.splits)
  then show ?thesis
    using assms(1)
    by (cases v) (auto simp: ts_set_valuef_def make_floatstr_def a set_number_def)
qed

lemma copy_array_safe:
  assumes "\<forall>v \<in> set vs. wf_value v" "mem_faults E m"
  shows "safeE E (\<lambda>(r, v, m). mem_faults E m \<and>
      (if r = -1 then safeE E (\<lambda>_. True) (ts_destroy_value v)
       else r = 0 \<and> wf_value v \<and> v_array v \<noteq> None)) (copy_array ts_init_value vs m)"
proof -
  obtain ok m1 where a: "malloc m = (ok, m1)" by force
  have f: "mem_faults E m1" using malloc_mem_faults [OF assms(2) a] by simp
  have els: "safeE E (elems_ok E (length vs)) (copy_elems vs m1)"
    using assms(1) f by (intro elems_safe copy_safe) auto
  show ?thesis
    using els f
    by (auto simp: copy_array_def a ts_init_value_def Let_def elems_ok_def destroy_wf split: option.splits
        intro!: safeE_bind [OF els])
qed

lemma set_value_arr_safe:
  assumes "\<forall>v \<in> set vs. wf_value v" "mem_faults E m"
  shows "safeE E (set_ok E) (ts_set_value_arr ts_init_value vs m)"
proof (cases "length vs \<le> 1")
  case True
  then show ?thesis using assms(2) by (simp add: ts_set_value_arr_def set_ok_def ts_init_value_def)
next
  case False
  have "safeE E (set_ok E)
    (if list_all (\<lambda>a. v_type a = TS_NUMBER) vs
     then (let (ok, m) = malloc m1;
               put = (\<lambda>ty vec. TsValue ty (v_str v) (v_inum v) (v_fnum v) vec (v_vec_size v) (v_array v)
                                  (v_array_size v))
           in if \<not> ok
              then bindE (ts_destroy_value (put (v_type v) None (v_freed v))) (\<lambda>_.
                   Inr (-1, put (v_type v) None True, m))
              else Inr (0, put TS_VECTOR (Some (map v_fnum (the (v_array v)))) (v_freed v), m))
     else Inr (0, TsValue TS_ARRAY (v_str v) (v_inum v) (v_fnum v) (v_vec v) (v_vec_size v) (v_array v)
                    (v_array_size v) (v_freed v), m1))"
    if v: "wf_value v" "mem_faults E m1" for v m1
  proof -
    obtain ok m2 where a: "malloc m1 = (ok, m2)" by force
    have f: "mem_faults E m2" "\<not> ok \<Longrightarrow> UseAfterFree \<in> E \<and> NullDeref \<in> E"
      using malloc_mem_faults [OF v(2) a] by auto
    have "wf_value (TsValue (v_type v) (v_str v) (v_inum v) (v_fnum v) None (v_vec_size v) (v_array v)
            (v_array_size v) (v_freed v))"
      using v(1) by (cases v) simp
    from destroy_wf(1) [OF this] show ?thesis
      using v f by (cases v) (auto simp: a set_ok_def destroy_freed_ok)
  qed
  then show ?thesis
    using False unfolding ts_set_value_arr_def
    by (auto simp: set_ok_def intro!: safeE_bind [OF copy_array_safe [OF assms]])
qed

text \<open>With enough memory a copy is exact but for a vector without a size.\<close>

fun copy_of :: "ts_value \<Rightarrow> ts_value" where
  "copy_of (TsValue ty str inum fnum vec vsz arr asz freed) =
     TsValue ty str inum fnum (if vsz > 0 then vec else None) vsz
       (case arr of None \<Rightarrow> None | Some a \<Rightarrow> if asz = 0 then None else Some (map copy_of a)) asz False"

lemma copy_exact:
  shows "wf_value v \<Longrightarrow> ts_copy_value v [] = Inr (0, copy_of v, [])"
proof (induction v)
  case (TsValue ty str inum fnum vec vsz arr asz freed)
  have "copy_elems a [] = Inr (map copy_of a, None, [])" if "set a \<subseteq> set b" "arr = Some b" for a b
    using that TsValue by (induction a) auto
  from this [OF order_refl] show ?case using TsValue.prems by (cases arr) (auto simp: malloc_if_def Let_def)
qed

lemma copy_elems_exact: "\<forall>v \<in> set vs. wf_value v \<Longrightarrow> copy_elems vs [] = Inr (map copy_of vs, None, [])"
  by (induction vs) (auto simp: copy_exact)

lemma wf_copy_of: "wf_value v \<Longrightarrow> wf_value (copy_of v)"
  by (induction v) (auto split: option.splits)

lemma copy_of_type [simp]: "v_type (copy_of v) = v_type v" "v_fnum (copy_of v) = v_fnum v"
  "v_str (copy_of v) = v_str v" "v_inum (copy_of v) = v_inum v"
  by (cases v; simp)+

lemma set_value_arr_exact:
  assumes "\<forall>v \<in> set vs. wf_value v" "1 < length vs"
  shows "ts_set_value_arr ts_init_value vs [] =
    Inr (0, TsValue (if list_all (\<lambda>a. v_type a = TS_NUMBER) vs then TS_VECTOR else TS_ARRAY) None 0 fzero
              (if list_all (\<lambda>a. v_type a = TS_NUMBER) vs then Some (map v_fnum vs) else None) 0
              (Some (map copy_of vs)) (length vs) False, [])"
  using assms(2)
  by (simp add: ts_set_value_arr_def copy_array_def copy_elems_exact [OF assms(1)] ts_init_value_def)

end
