(* ===== verification/Ts_Node.thy ===== *)
theory Ts_Node
  imports Ts_Value
begin

text \<open>
  The attributes and nodes of the tree store (second part of \<open>src/treestor.c\<close>). They are linked by
  pointers, nodes also to their parents, so they live in a store that maps addresses to structures; what
  is freed leaves the store. No object has the address 0: it stands for the variable \<open>dummy\<close> of
  \<open>ts_remove_child\<close>, which is gone when the function returns, although \<open>child_tail\<close> may point to it.

  Loops over lists get as fuel the number of addresses in use; a list with a cycle would use it up
  (\<open>NoReturn\<close>). The predicate \<open>holds\<close> says which tree the store holds at a node.
\<close>

section \<open>State\<close>

text \<open>
  As in \<open>ts_value\<close>, \<open>a_freed\<close> and \<open>n_freed\<close> are no fields of the C structures: they say that the name was
  freed and the pointer left as it is.
\<close>

record ts_attr =
  a_name :: "string option"
  a_val :: ts_value
  a_next :: "nat option"
  a_freed :: bool

record ts_node =
  n_name :: "string option"
  n_attr_count :: int
  n_attr_list :: "nat option"
  n_attr_tail :: "nat option"
  n_child_count :: int
  n_child_list :: "nat option"
  n_child_tail :: "nat option"
  n_parent :: "nat option"
  n_next :: "nat option"
  n_freed :: bool

record tstore =
  ts_nodes :: "nat \<Rightarrow> ts_node option"
  ts_attrs :: "nat \<Rightarrow> ts_attr option"
  ts_brk :: nat
  ts_mem :: mem

definition empty_store :: "mem \<Rightarrow> tstore" where
  "empty_store m = \<lparr>ts_nodes = \<lambda>_. None, ts_attrs = \<lambda>_. None, ts_brk = 1, ts_mem = m\<rparr>"

definition the_node :: "tstore \<Rightarrow> nat option \<Rightarrow> ts_node res" where
  "the_node st p =
     (case p of
        None \<Rightarrow> Inl NullDeref
      | Some a \<Rightarrow> (case ts_nodes st a of None \<Rightarrow> Inl UseAfterFree | Some n \<Rightarrow> Inr n))"

definition the_attr :: "tstore \<Rightarrow> nat option \<Rightarrow> ts_attr res" where
  "the_attr st p =
     (case p of
        None \<Rightarrow> Inl NullDeref
      | Some a \<Rightarrow> (case ts_attrs st a of None \<Rightarrow> Inl UseAfterFree | Some n \<Rightarrow> Inr n))"

definition put_node :: "nat \<Rightarrow> ts_node \<Rightarrow> tstore \<Rightarrow> tstore" where
  "put_node a n st = st\<lparr>ts_nodes := (ts_nodes st)(a \<mapsto> n)\<rparr>"

definition put_attr :: "nat \<Rightarrow> ts_attr \<Rightarrow> tstore \<Rightarrow> tstore" where
  "put_attr a x st = st\<lparr>ts_attrs := (ts_attrs st)(a \<mapsto> x)\<rparr>"

text \<open>A write through a pointer: \<open>p->field = value\<close>.\<close>

definition upd_node :: "nat option \<Rightarrow> (ts_node \<Rightarrow> ts_node) \<Rightarrow> tstore \<Rightarrow> tstore res" where
  "upd_node p f st = bindE (the_node st p) (\<lambda>n. Inr (put_node (the p) (f n) st))"

definition upd_attr :: "nat option \<Rightarrow> (ts_attr \<Rightarrow> ts_attr) \<Rightarrow> tstore \<Rightarrow> tstore res" where
  "upd_attr p f st = bindE (the_attr st p) (\<lambda>x. Inr (put_attr (the p) (f x) st))"

definition ts_malloc :: "tstore \<Rightarrow> bool \<times> tstore" where
  "ts_malloc st = (case malloc (ts_mem st) of (ok, m) \<Rightarrow> (ok, st\<lparr>ts_mem := m\<rparr>))"

section \<open>Attributes\<close>

definition ts_init_attr :: ts_attr where
  "ts_init_attr = \<lparr>a_name = None, a_val = ts_init_value, a_next = None, a_freed = False\<rparr>"

definition ts_destroy_attr :: "nat \<Rightarrow> tstore \<Rightarrow> tstore res" where
  "ts_destroy_attr a st =
     bindE (the_attr st (Some a)) (\<lambda>x.
     if a_freed x \<and> a_name x \<noteq> None then Inl UseAfterFree
     else
       bindE (ts_destroy_value (a_val x)) (\<lambda>_.
       Inr (put_attr a (x\<lparr>a_val := set_freed (a_val x), a_freed := True\<rparr>) st)))"

definition ts_alloc_attr :: "tstore \<Rightarrow> nat option \<times> tstore" where
  "ts_alloc_attr st =
     (case ts_malloc st of
        (False, st) \<Rightarrow> (None, st)
      | (True, st) \<Rightarrow> (Some (ts_brk st), put_attr (ts_brk st) ts_init_attr (st\<lparr>ts_brk := ts_brk st + 1\<rparr>)))"

definition ts_free_attr :: "nat \<Rightarrow> tstore \<Rightarrow> tstore res" where
  "ts_free_attr a st =
     bindE (ts_destroy_attr a st) (\<lambda>st. Inr (st\<lparr>ts_attrs := (ts_attrs st)(a := None)\<rparr>))"

definition ts_set_attr_name :: "nat \<Rightarrow> string \<Rightarrow> tstore \<Rightarrow> (int \<times> tstore) res" where
  "ts_set_attr_name a name st =
     bindE (the_attr st (Some a)) (\<lambda>x.
     let (ok, st) = ts_malloc st
     in if \<not> ok then Inr (-1, st)
        else if a_freed x \<and> a_name x \<noteq> None then Inl UseAfterFree
        else Inr (0, put_attr a (x\<lparr>a_name := Some name, a_freed := False\<rparr>) st))"

definition ts_copy_attr :: "nat \<Rightarrow> nat \<Rightarrow> tstore \<Rightarrow> (int \<times> tstore) res" where
  "ts_copy_attr dest src st =
     (if dest = src then Inr (0, st)
      else
        bindE (the_attr st (Some src)) (\<lambda>s.
        case a_name s of
          None \<Rightarrow> Inl NullDeref
        | Some name \<Rightarrow>
            bindE (ts_set_attr_name dest name st) (\<lambda>(r, st).
            if r = -1 then Inr (-1, st)
            else
              bindE (ts_copy_value (a_val s) (ts_mem st)) (\<lambda>(r, v, m).
              bindE (upd_attr (Some dest) (\<lambda>d. d\<lparr>a_val := v\<rparr>) (st\<lparr>ts_mem := m\<rparr>)) (\<lambda>st.
              if r = -1 then bindE (ts_destroy_attr dest st) (\<lambda>st. Inr (-1, st))
              else Inr (0, st))))))"

section \<open>Nodes\<close>

definition ts_init_node :: ts_node where
  "ts_init_node =
     \<lparr>n_name = None, n_attr_count = 0, n_attr_list = None, n_attr_tail = None, n_child_count = 0,
      n_child_list = None, n_child_tail = None, n_parent = None, n_next = None, n_freed = False\<rparr>"

fun free_attrs :: "nat \<Rightarrow> nat \<Rightarrow> tstore \<Rightarrow> tstore res" where
  "free_attrs 0 node st = Inl NoReturn"
| "free_attrs (Suc fuel) node st =
     bindE (the_node st (Some node)) (\<lambda>n.
     case n_attr_list n of
       None \<Rightarrow> Inr st
     | Some attr \<Rightarrow>
         bindE (the_attr st (Some attr)) (\<lambda>x.
         bindE (ts_free_attr attr (put_node node (n\<lparr>n_attr_list := a_next x\<rparr>) st)) (\<lambda>st.
         free_attrs fuel node st)))"

definition ts_destroy_node :: "nat option \<Rightarrow> tstore \<Rightarrow> tstore res" where
  "ts_destroy_node node st =
     (case node of
        None \<Rightarrow> Inr st
      | Some a \<Rightarrow>
          bindE (the_node st (Some a)) (\<lambda>n.
          if n_freed n \<and> n_name n \<noteq> None then Inl UseAfterFree
          else free_attrs (ts_brk st + 1) a (put_node a (n\<lparr>n_freed := True\<rparr>) st)))"

definition ts_alloc_node :: "tstore \<Rightarrow> nat option \<times> tstore" where
  "ts_alloc_node st =
     (case ts_malloc st of
        (False, st) \<Rightarrow> (None, st)
      | (True, st) \<Rightarrow> (Some (ts_brk st), put_node (ts_brk st) ts_init_node (st\<lparr>ts_brk := ts_brk st + 1\<rparr>)))"

definition ts_free_node :: "nat \<Rightarrow> tstore \<Rightarrow> tstore res" where
  "ts_free_node n st =
     bindE (ts_destroy_node (Some n) st) (\<lambda>st. Inr (st\<lparr>ts_nodes := (ts_nodes st)(n := None)\<rparr>))"

fun ts_free_tree :: "nat \<Rightarrow> nat option \<Rightarrow> tstore \<Rightarrow> tstore res"
and free_kids :: "nat \<Rightarrow> nat \<Rightarrow> tstore \<Rightarrow> tstore res" where
  "ts_free_tree 0 tree st = Inl NoReturn"
| "ts_free_tree (Suc fuel) tree st =
     (case tree of
        None \<Rightarrow> Inr st
      | Some a \<Rightarrow> bindE (free_kids fuel a st) (\<lambda>st. ts_free_node a st))"
| "free_kids 0 tree st = Inl NoReturn"
| "free_kids (Suc fuel) tree st =
     bindE (the_node st (Some tree)) (\<lambda>n.
     case n_child_list n of
       None \<Rightarrow> Inr st
     | Some child \<Rightarrow>
         bindE (the_node st (Some child)) (\<lambda>c.
         bindE (ts_free_tree fuel (Some child) (put_node tree (n\<lparr>n_child_list := n_next c\<rparr>) st)) (\<lambda>st.
         free_kids fuel tree st)))"

definition ts_add_attr :: "nat \<Rightarrow> nat \<Rightarrow> tstore \<Rightarrow> tstore res" where
  "ts_add_attr node attr st =
     bindE (upd_attr (Some attr) (\<lambda>x. x\<lparr>a_next := None\<rparr>) st) (\<lambda>st.
     bindE (the_node st (Some node)) (\<lambda>n.
     if n_attr_list n \<noteq> None
     then bindE (upd_attr (n_attr_tail n) (\<lambda>x. x\<lparr>a_next := Some attr\<rparr>) st) (\<lambda>st.
          Inr (put_node node (n\<lparr>n_attr_tail := Some attr\<rparr>) st))
     else Inr (put_node node (n\<lparr>n_attr_list := Some attr, n_attr_tail := Some attr\<rparr>) st)))"

fun find_attr :: "nat \<Rightarrow> tstore \<Rightarrow> nat option \<Rightarrow> string \<Rightarrow> nat option res" where
  "find_attr 0 st attr name = Inl NoReturn"
| "find_attr (Suc fuel) st attr name =
     (if attr = None then Inr None
      else
        bindE (the_attr st attr) (\<lambda>x.
        case a_name x of
          None \<Rightarrow> Inl NullDeref
        | Some nm \<Rightarrow> if strcmp nm name = 0 then Inr attr else find_attr fuel st (a_next x) name))"

definition ts_get_attr :: "tstore \<Rightarrow> nat \<Rightarrow> string \<Rightarrow> nat option res" where
  "ts_get_attr st node name =
     bindE (the_node st (Some node)) (\<lambda>n. find_attr (ts_brk st + 1) st (n_attr_list n) name)"

text \<open>The accessors: the value of an attribute that was found, or the default.\<close>

definition attr_value :: "tstore \<Rightarrow> nat option \<Rightarrow> (ts_value \<Rightarrow> 'a option) \<Rightarrow> 'a \<Rightarrow> 'a res" where
  "attr_value st attr f def_val =
     (if attr = None then Inr def_val
      else bindE (the_attr st attr) (\<lambda>x. Inr (case f (a_val x) of None \<Rightarrow> def_val | Some y \<Rightarrow> y)))"

definition ts_get_attr_str :: "tstore \<Rightarrow> nat \<Rightarrow> string \<Rightarrow> string option \<Rightarrow> string option res" where
  "ts_get_attr_str st node aname def_val =
     bindE (ts_get_attr st node aname) (\<lambda>attr. attr_value st attr (\<lambda>v. map_option Some (v_str v)) def_val)"

definition ts_get_attr_num :: "tstore \<Rightarrow> nat \<Rightarrow> string \<Rightarrow> flt \<Rightarrow> flt res" where
  "ts_get_attr_num st node aname def_val =
     bindE (ts_get_attr st node aname) (\<lambda>attr.
     attr_value st attr (\<lambda>v. if v_type v \<noteq> TS_NUMBER then None else Some (v_fnum v)) def_val)"

definition ts_get_attr_int :: "tstore \<Rightarrow> nat \<Rightarrow> string \<Rightarrow> int \<Rightarrow> int res" where
  "ts_get_attr_int st node aname def_val =
     bindE (ts_get_attr st node aname) (\<lambda>attr.
     attr_value st attr (\<lambda>v. if v_type v \<noteq> TS_NUMBER then None else Some (v_inum v)) def_val)"

definition ts_get_attr_vec :: "tstore \<Rightarrow> nat \<Rightarrow> string \<Rightarrow> flt list option \<Rightarrow> flt list option res" where
  "ts_get_attr_vec st node aname def_val =
     bindE (ts_get_attr st node aname) (\<lambda>attr. attr_value st attr (\<lambda>v. map_option Some (v_vec v)) def_val)"

definition ts_get_attr_array :: "tstore \<Rightarrow> nat \<Rightarrow> string \<Rightarrow> ts_value list option \<Rightarrow> ts_value list option res" where
  "ts_get_attr_array st node aname def_val =
     bindE (ts_get_attr st node aname) (\<lambda>attr. attr_value st attr (\<lambda>v. map_option Some (v_array v)) def_val)"

text \<open>
  \<open>ts_remove_child\<close> walks the list with a pointer \<open>iter\<close> that starts at \<open>dummy\<close>; \<open>nxt\<close> is \<open>iter->next\<close>.
\<close>

fun find_prev :: "nat \<Rightarrow> tstore \<Rightarrow> nat \<Rightarrow> nat option \<Rightarrow> nat \<Rightarrow> (nat \<times> nat option) res" where
  "find_prev 0 st iter nxt child = Inl NoReturn"
| "find_prev (Suc fuel) st iter nxt child =
     (case nxt of
        None \<Rightarrow> Inr (iter, None)
      | Some a \<Rightarrow>
          if a = child then Inr (iter, nxt)
          else bindE (the_node st (Some a)) (\<lambda>n. find_prev fuel st a (n_next n) child))"

definition ts_remove_child :: "nat \<Rightarrow> nat \<Rightarrow> tstore \<Rightarrow> (int \<times> tstore) res" where
  "ts_remove_child node child st =
     bindE (the_node st (Some node)) (\<lambda>n.
     bindE (find_prev (ts_brk st + 1) st 0 (n_child_list n) child) (\<lambda>(iter, nxt).
     if nxt = None then Inr (-1, st)
     else
       bindE (upd_node (Some child) (\<lambda>c. c\<lparr>n_parent := None\<rparr>) st) (\<lambda>st.
       bindE (the_node st (Some child)) (\<lambda>c.
       let next = n_next c in
       bindE (if iter = 0 then Inr st else upd_node (Some iter) (\<lambda>i. i\<lparr>n_next := next\<rparr>) st) (\<lambda>st.
       bindE (if next = None then upd_node (Some node) (\<lambda>n. n\<lparr>n_child_tail := Some iter\<rparr>) st else Inr st) (\<lambda>st.
       bindE (if iter = 0 then upd_node (Some node) (\<lambda>n. n\<lparr>n_child_list := next\<rparr>) st else Inr st) (\<lambda>st.
       Inr (0, st))))))))"

definition ts_add_child :: "nat \<Rightarrow> nat \<Rightarrow> tstore \<Rightarrow> tstore res" where
  "ts_add_child node child st =
     bindE (the_node st (Some child)) (\<lambda>c.
     if n_parent c = Some node then Inr st
     else
       bindE (case n_parent c of
                None \<Rightarrow> Inr st
              | Some p \<Rightarrow> bindE (ts_remove_child p child st) (\<lambda>(_, st). Inr st)) (\<lambda>st.
       bindE (upd_node (Some child) (\<lambda>c. c\<lparr>n_parent := Some node, n_next := None\<rparr>) st) (\<lambda>st.
       bindE (the_node st (Some node)) (\<lambda>n.
       if n_child_list n \<noteq> None
       then bindE (upd_node (n_child_tail n) (\<lambda>t. t\<lparr>n_next := Some child\<rparr>) st) (\<lambda>st.
            upd_node (Some node) (\<lambda>n. n\<lparr>n_child_tail := Some child\<rparr>) st)
       else upd_node (Some node) (\<lambda>n. n\<lparr>n_child_list := Some child, n_child_tail := Some child\<rparr>) st))))"

fun find_child :: "nat \<Rightarrow> tstore \<Rightarrow> nat option \<Rightarrow> string \<Rightarrow> nat option res" where
  "find_child 0 st c name = Inl NoReturn"
| "find_child (Suc fuel) st c name =
     (if c = None then Inr None
      else
        bindE (the_node st c) (\<lambda>x.
        case n_name x of
          None \<Rightarrow> Inl NullDeref
        | Some nm \<Rightarrow> if strcmp nm name = 0 then Inr c else find_child fuel st (n_next x) name))"

definition ts_get_child :: "tstore \<Rightarrow> nat \<Rightarrow> string \<Rightarrow> nat option res" where
  "ts_get_child st node name =
     bindE (the_node st (Some node)) (\<lambda>n. find_child (ts_brk st + 1) st (n_child_list n) name)"

section \<open>Paths\<close>

definition pathtok :: "string \<Rightarrow> string \<times> string option" where
  "pathtok path =
     (case strchr path CHR ''.'' of
        None \<Rightarrow> (path, None)
      | Some dot \<Rightarrow> (take (length path - length dot) path, Some (tl dot)))"

lemma pathtok_shorter: "pathtok path = (tok, Some rest) \<Longrightarrow> length rest < length path"
proof -
  assume "pathtok path = (tok, Some rest)"
  then obtain dot where d: "strchr path CHR ''.'' = Some dot" "rest = tl dot"
    by (auto simp: pathtok_def split: option.splits)
  then have "dot = dropWhile (\<lambda>c. c \<noteq> CHR ''.'') path" "CHR ''.'' \<in> set path"
    by (auto simp: strchr_eq_Some)
  moreover from this have "dot \<noteq> []" by (auto simp: dropWhile_eq_Nil_conv)
  ultimately show ?thesis
    using d(2) length_dropWhile_le [of "\<lambda>c. c \<noteq> CHR ''.''" path] by (metis One_nat_def diff_less length_greater_0_conv length_tl less_le_trans zero_less_one)
qed

text \<open>The loop of \<open>ts_lookup\<close> and the search for the attribute after it.\<close>

function lookup_loop :: "tstore \<Rightarrow> string \<Rightarrow> nat \<Rightarrow> nat option res" where
  "lookup_loop st path node =
     (case pathtok path of
        (name, None) \<Rightarrow> ts_get_attr st node name
      | (name, Some rest) \<Rightarrow>
          bindE (ts_get_child st node name) (\<lambda>c.
          case c of None \<Rightarrow> Inr None | Some n \<Rightarrow> lookup_loop st rest n))"
  by pat_completeness auto
termination
  by (relation "measure (\<lambda>(st, path, node). length path)") (auto dest: sym intro: pathtok_shorter)

declare lookup_loop.simps [simp del]

definition ts_lookup :: "tstore \<Rightarrow> nat option \<Rightarrow> string \<Rightarrow> nat option res" where
  "ts_lookup st node path =
     (case node of
        None \<Rightarrow> Inr None
      | Some a \<Rightarrow>
          (case pathtok path of
             (name, None) \<Rightarrow> Inr None
           | (name, Some rest) \<Rightarrow>
               bindE (the_node st node) (\<lambda>n.
               case n_name n of
                 None \<Rightarrow> Inl NullDeref
               | Some nm \<Rightarrow> if strcmp name nm \<noteq> 0 then Inr None else lookup_loop st rest a)))"

definition ts_lookup_str :: "tstore \<Rightarrow> nat option \<Rightarrow> string \<Rightarrow> string option \<Rightarrow> string option res" where
  "ts_lookup_str st tree path def_val =
     bindE (ts_lookup st tree path) (\<lambda>attr. attr_value st attr (\<lambda>v. map_option Some (v_str v)) def_val)"

definition ts_lookup_num :: "tstore \<Rightarrow> nat option \<Rightarrow> string \<Rightarrow> flt \<Rightarrow> flt res" where
  "ts_lookup_num st tree path def_val =
     bindE (ts_lookup st tree path) (\<lambda>attr.
     attr_value st attr (\<lambda>v. if v_type v \<noteq> TS_NUMBER then None else Some (v_fnum v)) def_val)"

definition ts_lookup_int :: "tstore \<Rightarrow> nat option \<Rightarrow> string \<Rightarrow> int \<Rightarrow> int res" where
  "ts_lookup_int st tree path def_val =
     bindE (ts_lookup st tree path) (\<lambda>attr.
     attr_value st attr (\<lambda>v. if v_type v \<noteq> TS_NUMBER then None else Some (v_inum v)) def_val)"

definition ts_lookup_vec :: "tstore \<Rightarrow> nat option \<Rightarrow> string \<Rightarrow> flt list option \<Rightarrow> flt list option res" where
  "ts_lookup_vec st tree path def_val =
     bindE (ts_lookup st tree path) (\<lambda>attr. attr_value st attr (\<lambda>v. map_option Some (v_vec v)) def_val)"

definition ts_lookup_array :: "tstore \<Rightarrow> nat option \<Rightarrow> string \<Rightarrow> ts_value list option \<Rightarrow> ts_value list option res" where
  "ts_lookup_array st tree path def_val =
     bindE (ts_lookup st tree path) (\<lambda>attr. attr_value st attr (\<lambda>v. map_option Some (v_array v)) def_val)"

end
