(* ===== verification/Ts_Tree.thy ===== *)
theory Ts_Tree
  imports Ts_Node
begin

text \<open>
  What the store of \<open>Ts_Node\<close> holds: trees. \<open>atree\<close> is a tree together with the addresses of its nodes and
  attributes, \<open>holds\<close> says that the store has this tree at its address, with all pointers between
  its nodes as the code keeps them. Each operation on the store is shown to do to the tree what its name
  says: the child and attribute lists grow at their end, a removed child is taken out, a search finds
  the first entry of its name, a path is followed from child to child, freeing a tree frees all of it.
\<close>

section \<open>Trees in the store\<close>

datatype atree =
  ANode (at_addr: nat) (at_name: "string option") (at_attrs: "(nat \<times> string \<times> ts_value) list")
    (at_kids: "atree list")

fun node_addrs :: "atree \<Rightarrow> nat list" where
  "node_addrs (ANode a nm ats ks) = a # concat (map node_addrs ks)"

fun attr_addrs :: "atree \<Rightarrow> nat list" where
  "attr_addrs (ANode a nm ats ks) = map fst ats @ concat (map attr_addrs ks)"

definition first_of :: "('a \<Rightarrow> nat) \<Rightarrow> 'a list \<Rightarrow> nat option \<Rightarrow> nat option" where
  "first_of f l e = (case l of [] \<Rightarrow> e | x # _ \<Rightarrow> Some (f x))"

lemma first_of_simps [simp]: "first_of f [] e = e" "first_of f (x # l) e = Some (f x)"
  "first_of f (l @ x # l') e = first_of f l (Some (f x))"
  by (simp_all add: first_of_def split: list.split)

lemma first_of_None: "first_of f l None = None \<longleftrightarrow> l = []"
  by (cases l) auto

text \<open>The lists are linked from element to element and end in the pointer \<open>e\<close>.\<close>

fun holds_attrs :: "tstore \<Rightarrow> (nat \<times> string \<times> ts_value) list \<Rightarrow> nat option \<Rightarrow> bool" where
  "holds_attrs st [] e = True"
| "holds_attrs st ((a, nm, v) # l) e \<longleftrightarrow>
     ts_attrs st a = Some \<lparr>a_name = Some nm, a_val = v, a_next = first_of fst l e, a_freed = False\<rparr>
     \<and> holds_attrs st l e"

fun holds :: "tstore \<Rightarrow> nat option \<Rightarrow> nat option \<Rightarrow> atree \<Rightarrow> bool"
and holds_kids :: "tstore \<Rightarrow> nat option \<Rightarrow> atree list \<Rightarrow> nat option \<Rightarrow> bool" where
  "holds st par nxt (ANode a nm ats ks) \<longleftrightarrow>
     (\<exists>n. ts_nodes st a = Some n \<and> n_name n = nm \<and> \<not> n_freed n
        \<and> n_attr_list n = first_of fst ats None \<and> (ats \<noteq> [] \<longrightarrow> n_attr_tail n = Some (fst (last ats)))
        \<and> n_child_list n = first_of at_addr ks None \<and> (ks \<noteq> [] \<longrightarrow> n_child_tail n = Some (at_addr (last ks)))
        \<and> n_parent n = par \<and> n_next n = nxt)
     \<and> holds_attrs st ats None \<and> holds_kids st (Some a) ks None"
| "holds_kids st par [] e = True"
| "holds_kids st par (t # ts) e \<longleftrightarrow> holds st par (first_of at_addr ts e) t \<and> holds_kids st par ts e"

definition tree_ok :: "tstore \<Rightarrow> atree \<Rightarrow> bool" where
  "tree_ok st t \<longleftrightarrow> distinct (node_addrs t) \<and> distinct (attr_addrs t)
     \<and> set (node_addrs t) \<subseteq> {0<..<ts_brk st} \<and> set (attr_addrs t) \<subseteq> {0<..<ts_brk st}"

definition tree_at :: "tstore \<Rightarrow> nat option \<Rightarrow> nat option \<Rightarrow> atree \<Rightarrow> bool" where
  "tree_at st par nxt t \<longleftrightarrow> holds st par nxt t \<and> tree_ok st t"

text \<open>The stores agree on these nodes and attributes.\<close>

definition agree :: "nat set \<Rightarrow> nat set \<Rightarrow> tstore \<Rightarrow> tstore \<Rightarrow> bool" where
  "agree N A st st' \<longleftrightarrow>
     (\<forall>a \<in> N. ts_nodes st' a = ts_nodes st a) \<and> (\<forall>a \<in> A. ts_attrs st' a = ts_attrs st a)"

lemma addr_in_addrs [simp]: "at_addr t \<in> set (node_addrs t)"
  by (cases t) simp

lemma store_simps [simp]:
  "ts_nodes (put_node a n st) = (ts_nodes st)(a \<mapsto> n)" "ts_attrs (put_node a n st) = ts_attrs st"
  "ts_brk (put_node a n st) = ts_brk st" "ts_mem (put_node a n st) = ts_mem st"
  "ts_attrs (put_attr a x st) = (ts_attrs st)(a \<mapsto> x)" "ts_nodes (put_attr a x st) = ts_nodes st"
  "ts_brk (put_attr a x st) = ts_brk st" "ts_mem (put_attr a x st) = ts_mem st"
  by (simp_all add: put_node_def put_attr_def)

lemma the_simps [simp]:
  "the_node st (Some a) = (case ts_nodes st a of None \<Rightarrow> Inl UseAfterFree | Some n \<Rightarrow> Inr n)"
  "the_attr st (Some a) = (case ts_attrs st a of None \<Rightarrow> Inl UseAfterFree | Some n \<Rightarrow> Inr n)"
  by (simp_all add: the_node_def the_attr_def)

lemma holds_attrs_frame:
  "\<forall>a \<in> set (map fst l). ts_attrs st' a = ts_attrs st a \<Longrightarrow> holds_attrs st' l e = holds_attrs st l e"
  by (induction st l e rule: holds_attrs.induct) auto

lemma holds_frame:
  shows "agree (set (node_addrs t)) (set (attr_addrs t)) st st' \<Longrightarrow> holds st' par nxt t = holds st par nxt t"
    and "agree (\<Union>t \<in> set ts. set (node_addrs t)) (\<Union>t \<in> set ts. set (attr_addrs t)) st st' \<Longrightarrow>
      holds_kids st' par ts e = holds_kids st par ts e"
proof (induction st par nxt t and st par ts e rule: holds_holds_kids.induct)
  case (1 st par nxt a nm ats ks)
  have "holds_attrs st' ats None = holds_attrs st ats None"
    using 1(2) by (intro holds_attrs_frame) (auto simp: agree_def)
  moreover have "holds_kids st' (Some a) ks None = holds_kids st (Some a) ks None"
    using 1(2) by (intro 1(1)) (auto simp: agree_def)
  moreover have "ts_nodes st' a = ts_nodes st a" using 1(2) by (simp add: agree_def)
  ultimately show ?case by simp
next
  case (3 st par t ts e)
  then show ?case by (auto simp: agree_def)
qed simp

lemma holds_kids_append:
  "holds_kids st par (ts @ us) e \<longleftrightarrow> holds_kids st par ts (first_of at_addr us e) \<and> holds_kids st par us e"
  by (induction ts) (auto simp: first_of_def split: list.splits)

lemma holds_attrs_append:
  "holds_attrs st (l @ l') e \<longleftrightarrow> holds_attrs st l (first_of fst l' e) \<and> holds_attrs st l' e"
  by (induction st l e rule: holds_attrs.induct) (auto simp: first_of_def split: list.splits)

lemma holds_node: "holds st par nxt t \<Longrightarrow> \<exists>n. ts_nodes st (at_addr t) = Some n \<and> n_parent n = par \<and> n_next n = nxt
    \<and> n_name n = at_name t \<and> \<not> n_freed n"
  by (cases t) auto

text \<open>Only the node itself knows its parent and its next sibling.\<close>

lemma holds_relink:
  assumes "holds st par nxt t" "ts_nodes st (at_addr t) = Some n" "distinct (node_addrs t)"
  shows "holds (put_node (at_addr t) (n\<lparr>n_parent := par', n_next := nxt'\<rparr>) st) par' nxt' t"
proof (cases t)
  case (ANode a nm ats ks)
  let ?st = "put_node a (n\<lparr>n_parent := par', n_next := nxt'\<rparr>) st"
  have "holds_attrs ?st ats None = holds_attrs st ats None" by (rule holds_attrs_frame) simp
  moreover have "holds_kids ?st (Some a) ks None = holds_kids st (Some a) ks None"
    using assms(3) ANode by (intro holds_frame) (auto simp: agree_def)
  ultimately show ?thesis using assms ANode by auto
qed

text \<open>The header of a node: its name, and the lists that hang from it.\<close>

lemma holds_head:
  assumes "holds st par nxt (ANode a nm ats ks)" "a \<notin> (\<Union>t \<in> set ks. set (node_addrs t))"
    "n_name n = nm'" "\<not> n_freed n" "n_attr_list n = first_of fst ats None"
    "ats \<noteq> [] \<Longrightarrow> n_attr_tail n = Some (fst (last ats))" "n_child_list n = first_of at_addr ks None"
    "ks \<noteq> [] \<Longrightarrow> n_child_tail n = Some (at_addr (last ks))" "n_parent n = par'" "n_next n = nxt'"
  shows "holds (put_node a n st) par' nxt' (ANode a nm' ats ks)"
proof -
  have "holds_attrs (put_node a n st) ats None = holds_attrs st ats None" by (rule holds_attrs_frame) simp
  moreover have "holds_kids (put_node a n st) (Some a) ks None = holds_kids st (Some a) ks None"
    using assms(2) by (intro holds_frame) (auto simp: agree_def)
  ultimately show ?thesis using assms by simp
qed

text \<open>The end of a list gets its \<open>next\<close> pointer.\<close>

lemma holds_kids_end:
  assumes "holds_kids st par (ks @ [k]) e" "ts_nodes st (at_addr k) = Some n"
    "distinct (concat (map node_addrs (ks @ [k])))"
  shows "holds_kids (put_node (at_addr k) (n\<lparr>n_next := e'\<rparr>) st) par (ks @ [k]) e'"
proof -
  let ?st = "put_node (at_addr k) (n\<lparr>n_next := e'\<rparr>) st"
  have k: "holds st par e k" using assms(1) by (simp add: holds_kids_append)
  have "n_parent n = par" using holds_node [OF k] assms(2) by auto
  then have n: "n\<lparr>n_parent := par, n_next := e'\<rparr> = n\<lparr>n_next := e'\<rparr>" by (cases n) simp
  have "holds ?st par e' k" using holds_relink [OF k assms(2), where par' = par and nxt' = e'] assms(3) n by simp
  moreover have "holds_kids ?st par ks (Some (at_addr k)) = holds_kids st par ks (Some (at_addr k))"
    using assms(3) addr_in_addrs [of k] by (intro holds_frame) (auto simp: agree_def)
  ultimately show ?thesis using assms(1) by (simp add: holds_kids_append)
qed

lemma holds_attrs_end:
  assumes "holds_attrs st (l @ [(a, nm, v)]) e" "a \<notin> fst ` set l"
  shows "holds_attrs (put_attr a \<lparr>a_name = Some nm, a_val = v, a_next = e', a_freed = False\<rparr> st) (l @ [(a, nm, v)]) e'"
proof -
  let ?st = "put_attr a \<lparr>a_name = Some nm, a_val = v, a_next = e', a_freed = False\<rparr> st"
  have "holds_attrs ?st l (Some a) = holds_attrs st l (Some a)"
    using assms(2) by (intro holds_attrs_frame) auto
  then show ?thesis using assms(1) by (simp add: holds_attrs_append)
qed

section \<open>Building\<close>

lemma kids_disjoint:
  assumes "distinct (node_addrs (ANode a nm ats (ks @ [c])))" "ks = us @ [k]"
  shows "at_addr k \<noteq> a" "at_addr k \<notin> set (node_addrs c)" "a \<notin> set (node_addrs c)" "at_addr k \<noteq> at_addr c"
    "a \<notin> (\<Union>t \<in> set (ks @ [c]). set (node_addrs t))"
  using assms addr_in_addrs [of k] addr_in_addrs [of c] by (auto simp del: addr_in_addrs)

text \<open>\<open>ts_add_attr\<close> appends an attribute that is in no list.\<close>

lemma add_attr_holds:
  assumes h: "holds st par nxt (ANode a nm ats ks)" and x: "ts_attrs st x = Some y"
    and y: "a_name y = Some n" "\<not> a_freed y"
    and d: "a \<notin> (\<Union>t \<in> set ks. set (node_addrs t))"
      "distinct (attr_addrs (ANode a nm ats ks))" "x \<notin> set (attr_addrs (ANode a nm ats ks))"
  shows "\<exists>st'. ts_add_attr a x st = Inr st' \<and> holds st' par nxt (ANode a nm (ats @ [(x, n, a_val y)]) ks)
    \<and> ts_brk st' = ts_brk st \<and> ts_mem st' = ts_mem st \<and> (\<forall>z. z \<noteq> a \<longrightarrow> ts_nodes st' z = ts_nodes st z)
    \<and> (\<forall>z. z \<noteq> x \<and> z \<notin> fst ` set ats \<longrightarrow> ts_attrs st' z = ts_attrs st z)"
proof -
  obtain nd where nd: "ts_nodes st a = Some nd" "n_name nd = nm" "\<not> n_freed nd" "n_attr_list nd = first_of fst ats None"
      "ats \<noteq> [] \<longrightarrow> n_attr_tail nd = Some (fst (last ats))" "n_child_list nd = first_of at_addr ks None"
      "ks \<noteq> [] \<longrightarrow> n_child_tail nd = Some (at_addr (last ks))" "n_parent nd = par" "n_next nd = nxt"
    and at: "holds_attrs st ats None" and ks: "holds_kids st (Some a) ks None"
    using h by auto
  let ?x = "\<lparr>a_name = Some n, a_val = a_val y, a_next = None, a_freed = False\<rparr>"
  have xe: "y\<lparr>a_next := None\<rparr> = ?x" using y by (cases y) simp
  let ?st1 = "put_attr x ?x st"
  have at1: "holds_attrs ?st1 ats None" using at d(3) by (subst holds_attrs_frame [of _ _ st]) auto
  have ks1: "agree (\<Union>t \<in> set ks. set (node_addrs t)) (\<Union>t \<in> set ks. set (attr_addrs t)) st ?st1"
    using d(3) by (auto simp: agree_def)
  show ?thesis
  proof (cases ats rule: rev_cases)
    case Nil
    let ?st2 = "put_node a (nd\<lparr>n_attr_list := Some x, n_attr_tail := Some x\<rparr>) ?st1"
    have "holds_kids ?st2 (Some a) ks None"
      using ks d(1,3) by (subst holds_frame(2) [of _ st]) (auto simp: agree_def)
    moreover have "ts_add_attr a x st = Inr ?st2"
      using x nd Nil xe by (simp add: ts_add_attr_def upd_attr_def)
    ultimately show ?thesis using nd Nil by (intro exI [of _ ?st2]) simp
  next
    case (snoc l u)
    obtain w wn wv where u: "u = (w, wn, wv)" by (cases u)
    have wx: "w \<noteq> x" "w \<notin> fst ` set l" using d(2,3) snoc u by auto
    have ww: "ts_attrs st w = Some \<lparr>a_name = Some wn, a_val = wv, a_next = None, a_freed = False\<rparr>"
      using at snoc u by (simp add: holds_attrs_append)
    let ?w = "\<lparr>a_name = Some wn, a_val = wv, a_next = Some x, a_freed = False\<rparr>"
    let ?st2 = "put_node a (nd\<lparr>n_attr_tail := Some x\<rparr>) (put_attr w ?w ?st1)"
    have run: "ts_add_attr a x st = Inr ?st2"
      using x nd snoc u xe ww wx by (simp add: ts_add_attr_def upd_attr_def first_of_def split: list.split)
    have "holds_attrs (put_attr w ?w ?st1) (l @ [(w, wn, wv)]) (Some x)"
      using at1 snoc u wx by (intro holds_attrs_end) auto
    then have "holds_attrs ?st2 ats (Some x)"
      using snoc u by (subst holds_attrs_frame [of _ _ "put_attr w ?w ?st1"]) auto
    then have "holds_attrs ?st2 (ats @ [(x, n, a_val y)]) None"
      using wx by (simp add: holds_attrs_append)
    moreover have "holds_kids ?st2 (Some a) ks None"
      using ks d snoc u by (subst holds_frame(2) [of _ st]) (auto simp: agree_def)
    moreover have "first_of fst ats None = first_of fst (ats @ [(x, n, a_val y)]) None"
      using snoc by (cases l) simp_all
    ultimately show ?thesis
      using run nd snoc u wx by (intro exI [of _ ?st2]) auto
  qed
qed

text \<open>\<open>ts_add_child\<close> appends a tree that has no parent.\<close>

lemma add_child_holds:
  assumes h: "holds st par nxt (ANode a nm ats ks)" and c: "holds st None e c"
    and d: "distinct (node_addrs (ANode a nm ats (ks @ [c])))"
  shows "\<exists>st'. ts_add_child a (at_addr c) st = Inr st' \<and> holds st' par nxt (ANode a nm ats (ks @ [c]))
    \<and> ts_brk st' = ts_brk st \<and> ts_mem st' = ts_mem st \<and> ts_attrs st' = ts_attrs st
    \<and> (\<forall>z. z \<notin> set (node_addrs (ANode a nm ats (ks @ [c]))) \<longrightarrow> ts_nodes st' z = ts_nodes st z)"
proof -
  obtain nd where nd: "ts_nodes st a = Some nd" "n_name nd = nm" "\<not> n_freed nd" "n_attr_list nd = first_of fst ats None"
      "ats \<noteq> [] \<longrightarrow> n_attr_tail nd = Some (fst (last ats))" "n_child_list nd = first_of at_addr ks None"
      "ks \<noteq> [] \<longrightarrow> n_child_tail nd = Some (at_addr (last ks))" "n_parent nd = par" "n_next nd = nxt"
    and at: "holds_attrs st ats None" and ks: "holds_kids st (Some a) ks None"
    using h by auto
  obtain cn where cn: "ts_nodes st (at_addr c) = Some cn" "n_parent cn = None" using holds_node [OF c] by auto
  have ac: "a \<noteq> at_addr c" using d addr_in_addrs [of c] by auto
  let ?st1 = "put_node (at_addr c) (cn\<lparr>n_parent := Some a, n_next := None\<rparr>) st"
  have c1: "holds ?st1 (Some a) None c" using c cn d by (intro holds_relink) auto
  have ks1: "holds_kids ?st1 (Some a) ks None"
    using ks d addr_in_addrs [of c] by (subst holds_frame(2) [of _ st]) (auto simp: agree_def simp del: addr_in_addrs)
  have nd1: "ts_nodes ?st1 a = Some nd" using nd(1) ac by simp
  show ?thesis
  proof (cases ks rule: rev_cases)
    case Nil
    let ?st2 = "put_node a (nd\<lparr>n_child_list := Some (at_addr c), n_child_tail := Some (at_addr c)\<rparr>) ?st1"
    have "holds_attrs ?st2 ats None" using at by (subst holds_attrs_frame [of _ _ st]) auto
    moreover have "holds ?st2 (Some a) None c"
      using c1 d by (subst holds_frame(1) [of _ ?st1]) (auto simp: agree_def)
    moreover have "ts_add_child a (at_addr c) st = Inr ?st2"
      using cn nd1 Nil nd ac by (simp add: ts_add_child_def upd_node_def)
    ultimately show ?thesis using nd Nil ac by (intro exI [of _ ?st2]) auto
  next
    case (snoc us k)
    note dj = kids_disjoint [OF d snoc]
    have k: "holds st (Some a) None k" using ks snoc by (simp add: holds_kids_append)
    obtain kn where kn: "ts_nodes st (at_addr k) = Some kn" using holds_node [OF k] by auto
    have kn1: "ts_nodes ?st1 (at_addr k) = Some kn" using kn dj(4) by simp
    let ?st2 = "put_node (at_addr k) (kn\<lparr>n_next := Some (at_addr c)\<rparr>) ?st1"
    let ?st3 = "put_node a (nd\<lparr>n_child_tail := Some (at_addr c)\<rparr>) ?st2"
    have run: "ts_add_child a (at_addr c) st = Inr ?st3"
      using cn nd1 nd ac snoc kn1 dj by (simp add: ts_add_child_def upd_node_def first_of_def split: list.split)
    have "holds_kids ?st2 (Some a) ks (Some (at_addr c))"
      unfolding snoc using ks1 kn1 d snoc by (intro holds_kids_end) auto
    moreover have "holds ?st2 (Some a) None c"
      using c1 dj by (subst holds_frame(1) [of _ ?st1]) (auto simp: agree_def)
    ultimately have "holds_kids ?st2 (Some a) (ks @ [c]) None" by (simp add: holds_kids_append)
    then have "holds_kids ?st3 (Some a) (ks @ [c]) None"
      using dj(5) by (subst holds_frame(2) [of _ ?st2]) (auto simp: agree_def)
    moreover have "holds_attrs ?st3 ats None" using at by (subst holds_attrs_frame [of _ _ st]) auto
    moreover have "first_of at_addr ks None = first_of at_addr (ks @ [c]) None"
      using snoc by (cases us) simp_all
    ultimately show ?thesis
      using run nd dj snoc by (intro exI [of _ ?st3]) auto
  qed
qed

section \<open>Searching\<close>

text \<open>
  The two searches by name share a contract: walk along the \<open>next\<close> pointers, compare names. \<open>cell\<close> reads
  the name and the \<open>next\<close> pointer at an address, and \<open>chain\<close> lists what is linked from a pointer on.
\<close>

fun chain :: "(nat \<Rightarrow> (string \<times> nat option) option) \<Rightarrow> nat option \<Rightarrow> (nat \<times> string) list \<Rightarrow> bool" where
  "chain c p [] \<longleftrightarrow> p = None"
| "chain c p ((a, nm) # l) \<longleftrightarrow> p = Some a \<and> (\<exists>nxt. c a = Some (nm, nxt) \<and> chain c nxt l)"

locale named_chain =
  fixes cell :: "'s \<Rightarrow> nat \<Rightarrow> (string \<times> nat option) option"
    and walk :: "nat \<Rightarrow> 's \<Rightarrow> nat option \<Rightarrow> string \<Rightarrow> nat option res"
  assumes walk_null: "walk (Suc n) st None name = Inr None"
    and walk_cell: "cell st a = Some (nm, nxt) \<Longrightarrow>
      walk (Suc n) st (Some a) name = (if nm = name then Inr (Some a) else walk n st nxt name)"
begin

lemma find_chain:
  "chain (cell st) p l \<Longrightarrow> length l < n \<Longrightarrow>
    walk n st p name = Inr (map_option fst (find (\<lambda>(a, nm). nm = name) l))"
proof (induction l arbitrary: p n)
  case Nil
  then show ?case using walk_null by (cases n) auto
next
  case (Cons x l)
  then show ?case using walk_cell by (cases x; cases n) auto
qed

end

definition attr_cell :: "tstore \<Rightarrow> nat \<Rightarrow> (string \<times> nat option) option" where
  "attr_cell st a = (case ts_attrs st a of None \<Rightarrow> None | Some x \<Rightarrow> map_option (\<lambda>nm. (nm, a_next x)) (a_name x))"

definition node_cell :: "tstore \<Rightarrow> nat \<Rightarrow> (string \<times> nat option) option" where
  "node_cell st a = (case ts_nodes st a of None \<Rightarrow> None | Some x \<Rightarrow> map_option (\<lambda>nm. (nm, n_next x)) (n_name x))"

interpretation attr_list: named_chain attr_cell find_attr
  by unfold_locales (auto simp: attr_cell_def split: option.splits)

interpretation child_list: named_chain node_cell find_child
  by unfold_locales (auto simp: node_cell_def split: option.splits)

lemma attrs_chain: "holds_attrs st l None \<Longrightarrow> chain (attr_cell st) (first_of fst l None) (map (\<lambda>(a, nm, v). (a, nm)) l)"
  by (induction st l "None :: nat option" rule: holds_attrs.induct) (auto simp: attr_cell_def)

lemma kids_chain:
  "holds_kids st par ks None \<Longrightarrow> \<forall>k \<in> set ks. at_name k \<noteq> None \<Longrightarrow>
    chain (node_cell st) (first_of at_addr ks None) (map (\<lambda>k. (at_addr k, the (at_name k))) ks)"
proof (induction ks)
  case (Cons k ks)
  then obtain n where "ts_nodes st (at_addr k) = Some n" "n_next n = first_of at_addr ks None" "n_name n = at_name k"
    using holds_node [of st par "first_of at_addr ks None" k] by auto
  then show ?case using Cons by (auto simp: node_cell_def)
qed simp

text \<open>There are fewer elements in a list than addresses in use.\<close>

lemma length_addrs: "distinct l \<Longrightarrow> set l \<subseteq> {0<..<n} \<Longrightarrow> length l < n + 1"
proof -
  assume "distinct l" "set l \<subseteq> {0<..<n}"
  then have "length l \<le> card {0<..<n}" by (metis card_mono distinct_card finite_greaterThanLessThan)
  then show ?thesis by simp
qed

lemma length_map_addrs: "length l = length (map at_addr l)" "length l' = length (map fst l')"
  by simp_all

lemma distinct_kid_addrs: "distinct (concat (map node_addrs ks)) \<Longrightarrow> distinct (map at_addr ks)"
proof (induction ks)
  case (Cons k ks)
  have "at_addr k \<notin> at_addr ` set ks"
  proof
    assume "at_addr k \<in> at_addr ` set ks"
    then obtain k' where "k' \<in> set ks" "at_addr k = at_addr k'" by auto
    then have "at_addr k \<in> (\<Union>k \<in> set ks. set (node_addrs k))" by (metis UN_I addr_in_addrs)
    moreover have "at_addr k \<in> set (node_addrs k)" by simp
    ultimately show False using Cons.prems by (auto simp del: addr_in_addrs)
  qed
  then show ?case using Cons by simp
qed simp

lemma kids_count:
  assumes "tree_at st par nxt (ANode a nm ats ks)"
  shows "length ks < ts_brk st + 1"
  unfolding length_map_addrs(1) [of ks]
proof (rule length_addrs)
  show "distinct (map at_addr ks)"
    using assms by (intro distinct_kid_addrs) (simp add: tree_at_def tree_ok_def)
  have "set (map at_addr ks) \<subseteq> set (node_addrs (ANode a nm ats ks))"
    using addr_in_addrs by (auto simp del: addr_in_addrs)
  then show "set (map at_addr ks) \<subseteq> {0<..<ts_brk st}" using assms unfolding tree_at_def tree_ok_def by blast
qed

definition attr_named :: "string \<Rightarrow> atree \<Rightarrow> (nat \<times> string \<times> ts_value) option" where
  "attr_named name t = find (\<lambda>(a, nm, v). nm = name) (at_attrs t)"

definition child_named :: "string \<Rightarrow> atree \<Rightarrow> atree option" where
  "child_named name t = find (\<lambda>k. at_name k = Some name) (at_kids t)"

lemma find_map: "find P (map f l) = map_option f (find (\<lambda>x. P (f x)) l)"
  by (induction l) auto

lemma get_attr_holds:
  assumes "tree_at st par nxt t"
  shows "ts_get_attr st (at_addr t) name = Inr (map_option fst (attr_named name t))"
proof (cases t)
  case (ANode a nm ats ks)
  have len: "length ats < ts_brk st + 1"
    unfolding length_map_addrs(2) [of ats]
    by (rule length_addrs) (use assms ANode in \<open>auto simp: tree_at_def tree_ok_def\<close>)
  have "chain (attr_cell st) (first_of fst ats None) (map (\<lambda>(a, nm, v). (a, nm)) ats)"
    using assms ANode by (intro attrs_chain) (simp add: tree_at_def)
  from attr_list.find_chain [OF this, of "ts_brk st + 1" name]
  have "find_attr (ts_brk st + 1) st (first_of fst ats None) name
      = Inr (map_option fst (attr_named name t))"
    using len ANode by (simp add: find_map attr_named_def option.map_comp comp_def case_prod_beta case_prod_beta' del: find_attr.simps)
  then show ?thesis using assms ANode by (auto simp: ts_get_attr_def tree_at_def simp del: find_attr.simps)
qed

definition named :: "atree \<Rightarrow> bool" where
  "named t \<longleftrightarrow> (\<forall>k \<in> set (at_kids t). at_name k \<noteq> None)"

lemma get_child_holds:
  assumes "tree_at st par nxt t" "named t"
  shows "ts_get_child st (at_addr t) name = Inr (map_option at_addr (child_named name t))"
proof (cases t)
  case (ANode a nm ats ks)
  have len: "length ks < ts_brk st + 1" using assms(1) unfolding ANode by (rule kids_count)
  have "chain (node_cell st) (first_of at_addr ks None) (map (\<lambda>k. (at_addr k, the (at_name k))) ks)"
    using assms ANode by (intro kids_chain) (auto simp: tree_at_def named_def)
  from child_list.find_chain [OF this, of "ts_brk st + 1" name]
  have "find_child (ts_brk st + 1) st (first_of at_addr ks None) name
      = Inr (map_option at_addr (find (\<lambda>k. the (at_name k) = name) ks))"
    using len by (simp add: find_map option.map_comp comp_def del: find_child.simps)
  moreover have "find (\<lambda>k. the (at_name k) = name) ks = find (\<lambda>k. at_name k = Some name) ks"
    using assms(2) ANode by (intro find_cong) (auto simp: named_def)
  ultimately show ?thesis
    using assms ANode by (auto simp: ts_get_child_def tree_at_def child_named_def simp del: find_child.simps)
qed

text \<open>A path: the names from the root to the attribute, with dots between them.\<close>

fun join_dots :: "string list \<Rightarrow> string" where
  "join_dots [] = []"
| "join_dots [x] = x"
| "join_dots (x # y # l) = x @ CHR ''.'' # join_dots (y # l)"

fun follow :: "string list \<Rightarrow> atree \<Rightarrow> (nat \<times> string \<times> ts_value) option" where
  "follow [] t = None"
| "follow [x] t = attr_named x t"
| "follow (x # y # l) t = (case child_named x t of None \<Rightarrow> None | Some k \<Rightarrow> follow (y # l) k)"

fun all_named :: "atree \<Rightarrow> bool" where
  "all_named (ANode a nm ats ks) \<longleftrightarrow> (\<forall>k \<in> set ks. at_name k \<noteq> None \<and> all_named k)"

lemma pathtok_join:
  assumes "CHR ''.'' \<notin> set x"
  shows "pathtok x = (x, None)" and "pathtok (x @ CHR ''.'' # p) = (x, Some p)"
  using assms by (simp_all add: pathtok_def strchr_append strchr_None [THEN iffD2])

lemma holds_child:
  assumes "tree_at st par nxt t" "k \<in> set (at_kids t)"
  shows "\<exists>nxt'. tree_at st (Some (at_addr t)) nxt' k"
proof (cases t)
  case (ANode a nm ats ks)
  then obtain us vs where ks: "ks = us @ k # vs" using assms(2) by (auto simp: in_set_conv_decomp)
  then have "holds_kids st (Some a) (us @ k # vs) None" using assms(1) ANode by (simp add: tree_at_def)
  then show ?thesis
    using assms(1) ANode ks by (auto simp: tree_at_def tree_ok_def holds_kids_append)
qed

lemma child_named_Some: "child_named name t = Some k \<Longrightarrow> k \<in> set (at_kids t) \<and> at_name k = Some name"
  by (auto simp: child_named_def find_Some_iff)

lemma lookup_loop_holds:
  assumes "tree_at st par nxt t" "all_named t" "l \<noteq> []" "\<forall>x \<in> set l. CHR ''.'' \<notin> set x"
  shows "lookup_loop st (join_dots l) (at_addr t) = Inr (map_option fst (follow l t))"
  using assms
proof (induction l t arbitrary: par nxt rule: follow.induct)
  case (2 x t)
  then show ?case by (subst lookup_loop.simps) (simp add: pathtok_join get_attr_holds)
next
  case (3 x y l t)
  have c: "ts_get_child st (at_addr t) x = Inr (map_option at_addr (child_named x t))"
    using 3(2,3) by (intro get_child_holds) (cases t; auto simp: named_def)+
  show ?case
  proof (cases "child_named x t")
    case None
    then show ?thesis using c 3(5) by (subst lookup_loop.simps) (simp add: pathtok_join)
  next
    case (Some k)
    then have k: "k \<in> set (at_kids t)" using child_named_Some by blast
    then obtain nxt' where "tree_at st (Some (at_addr t)) nxt' k" using holds_child [OF 3(2)] by blast
    moreover have "all_named k" using 3(3) k by (cases t) auto
    ultimately have "lookup_loop st (join_dots (y # l)) (at_addr k) = Inr (map_option fst (follow (y # l) k))"
      using 3(1) [OF Some] 3(5) by simp
    then show ?thesis using c Some 3(5) by (subst lookup_loop.simps) (simp add: pathtok_join)
  qed
qed simp

lemma lookup_holds:
  assumes "tree_at st par nxt t" "all_named t" "at_name t = Some nm" "l \<noteq> []" "\<forall>x \<in> set (r # l). CHR ''.'' \<notin> set x"
  shows "ts_lookup st (Some (at_addr t)) (join_dots (r # l))
    = Inr (if r = nm then map_option fst (follow l t) else None)"
proof -
  obtain n where n: "ts_nodes st (at_addr t) = Some n" "n_name n = Some nm"
    using assms(1,3) holds_node [of st par nxt t] by (auto simp: tree_at_def)
  obtain y l' where l: "l = y # l'" using assms(4) by (cases l) auto
  show ?thesis
    using lookup_loop_holds [OF assms(1,2,4)] assms(5) n l by (simp add: ts_lookup_def pathtok_join)
qed

text \<open>The value an attribute that was found has.\<close>

lemma attr_value_holds:
  assumes "tree_at st par nxt t" "attr_named name t = Some (a, nm, v)"
  shows "attr_value st (Some a) f d = Inr (case f v of None \<Rightarrow> d | Some y \<Rightarrow> y)"
proof (cases t)
  case (ANode b tn ats ks)
  then have "(a, nm, v) \<in> set ats" using assms(2) by (auto simp: attr_named_def find_Some_iff) (metis nth_mem)
  then obtain us vs where "ats = us @ (a, nm, v) # vs" by (auto simp: in_set_conv_decomp)
  then show ?thesis using assms(1) ANode by (auto simp: attr_value_def tree_at_def holds_attrs_append)
qed

section \<open>Removing a child\<close>

lemma put_node_twice [simp]: "put_node a n (put_node a n' st) = put_node a n st"
  by (simp add: put_node_def)

lemma put_node_same: "ts_nodes st a = Some n \<Longrightarrow> put_node a n st = st"
  by (cases st) (simp add: put_node_def fun_upd_idem)

lemma upd_node_eq: "ts_nodes st a = Some n \<Longrightarrow> upd_node (Some a) f st = Inr (put_node a (f n) st)"
  by (simp add: upd_node_def)

lemma find_prev_holds:
  assumes "holds_kids st par (us @ c # vs) None" "at_addr c \<notin> at_addr ` set us" "length us < fuel"
  shows "find_prev fuel st it (first_of at_addr (us @ c # vs) None) (at_addr c)
    = Inr (if us = [] then it else at_addr (last us), Some (at_addr c))"
  using assms
proof (induction us arbitrary: fuel it)
  case Nil
  then show ?case by (cases fuel) auto
next
  case (Cons u us)
  from Cons.prems(1) have u: "holds st par (first_of at_addr (us @ c # vs) None) u" by simp
  obtain f where f: "fuel = Suc f" using Cons.prems(3) by (cases fuel) auto
  show ?case
    using Cons.IH [of f "at_addr u"] Cons.prems holds_node [OF u] f by auto
qed

lemma remove_child_holds:
  assumes t: "tree_at st par nxt (ANode a nm ats (us @ c # vs))"
  shows "\<exists>st' e. ts_remove_child a (at_addr c) st = Inr (0, st') \<and> holds st' par nxt (ANode a nm ats (us @ vs))
    \<and> holds st' None e c \<and> ts_brk st' = ts_brk st \<and> ts_mem st' = ts_mem st \<and> ts_attrs st' = ts_attrs st
    \<and> (\<forall>z. z \<notin> set (node_addrs (ANode a nm ats (us @ c # vs))) \<longrightarrow> ts_nodes st' z = ts_nodes st z)"
proof -
  let ?ks = "us @ c # vs"
  have h: "holds st par nxt (ANode a nm ats ?ks)" and d: "distinct (node_addrs (ANode a nm ats ?ks))"
    using t by (auto simp: tree_at_def tree_ok_def)
  obtain nd where nd: "ts_nodes st a = Some nd" "n_name nd = nm" "\<not> n_freed nd" "n_attr_list nd = first_of fst ats None"
      "ats \<noteq> [] \<longrightarrow> n_attr_tail nd = Some (fst (last ats))" "n_child_list nd = first_of at_addr ?ks None"
      "n_child_tail nd = Some (at_addr (last ?ks))" "n_parent nd = par" "n_next nd = nxt"
    and at: "holds_attrs st ats None" and ks: "holds_kids st (Some a) ?ks None"
    using h by auto
  let ?e = "first_of at_addr vs None"
  have us: "holds_kids st (Some a) us (Some (at_addr c))" and c: "holds st (Some a) ?e c"
    and vs: "holds_kids st (Some a) vs None" using ks by (simp_all add: holds_kids_append)
  obtain cn where cn: "ts_nodes st (at_addr c) = Some cn" "n_next cn = ?e" using holds_node [OF c] by auto
  have len: "length us < ts_brk st + 1" using kids_count [OF t] by simp
  have "at_addr c \<notin> at_addr ` set us"
    using d distinct_kid_addrs [of ?ks] by auto
  from find_prev_holds [OF ks this len]
  have find: "find_prev (ts_brk st + 1) st 0 (n_child_list nd) (at_addr c)
      = Inr (if us = [] then 0 else at_addr (last us), Some (at_addr c))" by (simp add: nd(6))
  have ac: "a \<noteq> at_addr c" "a \<notin> set (node_addrs c)" using d addr_in_addrs [of c] by auto
  let ?st1 = "put_node (at_addr c) (cn\<lparr>n_parent := None\<rparr>) st"
  have ce: "cn\<lparr>n_parent := None, n_next := ?e\<rparr> = cn\<lparr>n_parent := None\<rparr>" using cn(2) by (cases cn) simp
  have c1: "holds ?st1 None ?e c"
    using holds_relink [OF c cn(1), where par' = None and nxt' = ?e] d ce by simp
  have us1: "holds_kids ?st1 (Some a) us (Some (at_addr c))" and vs1: "holds_kids ?st1 (Some a) vs None"
    using us vs d addr_in_addrs [of c]
    by (subst holds_frame(2) [of _ st]; auto simp: agree_def simp del: addr_in_addrs)+
  define nd' where "nd' = nd\<lparr>n_child_tail := (if vs = [] then Some (if us = [] then 0 else at_addr (last us))
      else n_child_tail nd), n_child_list := (if us = [] then ?e else n_child_list nd)\<rparr>"
  show ?thesis
  proof (cases us rule: rev_cases)
    case Nil
    let ?st2 = "put_node a nd' ?st1"
    have run: "ts_remove_child a (at_addr c) st = Inr (0, ?st2)"
      using nd(1) ac cn find Nil
      by (cases vs) (simp_all add: ts_remove_child_def upd_node_eq nd'_def del: find_prev.simps)
    have "holds_kids ?st2 (Some a) vs None"
      using vs1 d by (subst holds_frame(2) [of _ ?st1]) (auto simp: agree_def)
    moreover have "holds ?st2 None ?e c"
      using c1 ac by (subst holds_frame(1) [of _ ?st1]) (auto simp: agree_def)
    moreover have "holds_attrs ?st2 ats None" using at by (subst holds_attrs_frame [of _ _ st]) auto
    ultimately show ?thesis
      using run nd ac Nil by (intro exI [of _ ?st2] exI [of _ ?e]) (auto simp: nd'_def)
  next
    case (snoc ws k)
    have dk: "at_addr k \<noteq> a" "at_addr k \<noteq> at_addr c" "at_addr k \<notin> set (node_addrs c)" "at_addr k \<noteq> 0"
      "at_addr k \<notin> (\<Union>t \<in> set vs. set (node_addrs t))"
    proof -
      have D: "a \<notin> set (node_addrs k)" "set (node_addrs k) \<inter> set (node_addrs c) = {}"
        "set (node_addrs k) \<inter> (\<Union>t \<in> set vs. set (node_addrs t)) = {}"
        using d unfolding snoc by auto
      have "set (node_addrs k) \<subseteq> {0<..<ts_brk st}" using t unfolding snoc by (simp add: tree_at_def tree_ok_def)
      moreover have "at_addr k \<in> set (node_addrs k)" "at_addr c \<in> set (node_addrs c)" by simp_all
      ultimately show "at_addr k \<noteq> a" "at_addr k \<noteq> at_addr c" "at_addr k \<notin> set (node_addrs c)" "at_addr k \<noteq> 0"
        "at_addr k \<notin> (\<Union>t \<in> set vs. set (node_addrs t))"
        using D by (blast, metis IntI empty_iff, blast, fastforce simp del: addr_in_addrs, blast)
    qed
    obtain kn where kn: "ts_nodes st (at_addr k) = Some kn"
      using us snoc holds_node [of st "Some a" _ k] by (auto simp: holds_kids_append)
    let ?st2 = "put_node (at_addr k) (kn\<lparr>n_next := ?e\<rparr>) ?st1"
    let ?st3 = "put_node a nd' ?st2"
    have nd2: "ts_nodes ?st2 a = Some nd"
      using kn nd(1) dk ac by simp_all
    have run: "ts_remove_child a (at_addr c) st = Inr (0, ?st3)"
    proof (cases vs)
      case Nil
      then show ?thesis
        using nd(1) cn kn find snoc dk(1,2,4) ac
        by (simp add: ts_remove_child_def upd_node_eq nd'_def del: find_prev.simps)
    next
      case (Cons v vs')
      then have "nd' = nd" using snoc by (simp add: nd'_def)
      then show ?thesis
        using nd(1) cn kn find snoc dk(1,2,4) ac put_node_same [OF nd2] Cons
        by (simp add: ts_remove_child_def upd_node_eq del: find_prev.simps)
    qed
    have "holds_kids ?st2 (Some a) us ?e"
      unfolding snoc using us1 kn d snoc dk by (intro holds_kids_end) auto
    moreover have "holds_kids ?st2 (Some a) vs None"
      using vs1 dk by (subst holds_frame(2) [of _ ?st1]) (auto simp: agree_def)
    ultimately have "holds_kids ?st2 (Some a) (us @ vs) None" by (simp add: holds_kids_append)
    then have "holds_kids ?st3 (Some a) (us @ vs) None"
      using d by (subst holds_frame(2) [of _ ?st2]) (auto simp: agree_def)
    moreover have "holds ?st3 None ?e c"
      using c1 ac dk by (subst holds_frame(1) [of _ ?st1]) (auto simp: agree_def)
    moreover have "holds_attrs ?st3 ats None" using at by (subst holds_attrs_frame [of _ _ st]) auto
    moreover have "first_of at_addr (us @ vs) None = first_of at_addr ?ks None"
      using snoc by (cases ws) simp_all
    ultimately show ?thesis
      using run nd ac dk snoc by (intro exI [of _ ?st3] exI [of _ ?e]) (auto simp: nd'_def)
  qed
qed

section \<open>Freeing\<close>

text \<open>The store without these nodes and attributes.\<close>

definition wipe :: "nat set \<Rightarrow> nat set \<Rightarrow> tstore \<Rightarrow> tstore" where
  "wipe N A st = st\<lparr>ts_nodes := (\<lambda>a. if a \<in> N then None else ts_nodes st a),
                   ts_attrs := (\<lambda>a. if a \<in> A then None else ts_attrs st a)\<rparr>"

lemma wipe_simps [simp]:
  "ts_nodes (wipe N A st) a = (if a \<in> N then None else ts_nodes st a)"
  "ts_attrs (wipe N A st) a = (if a \<in> A then None else ts_attrs st a)"
  "ts_brk (wipe N A st) = ts_brk st" "ts_mem (wipe N A st) = ts_mem st"
  "wipe N A (wipe N' A' st) = wipe (N \<union> N') (A \<union> A') st"
  by (auto simp: wipe_def fun_eq_iff)

lemma wipe_put: "a \<notin> N \<Longrightarrow> wipe N A (put_node a n st) = put_node a n (wipe N A st)"
  "a \<in> N \<Longrightarrow> wipe N A (put_node a n st) = wipe N A st"
  by (auto simp: wipe_def put_node_def fun_eq_iff)

lemma wipe_agree: "N \<inter> M = {} \<Longrightarrow> A \<inter> B = {} \<Longrightarrow> agree M B st (wipe N A st)"
  by (auto simp: agree_def)

lemma free_attr_wipe:
  assumes "ts_attrs st a = Some x" "\<not> a_freed x" "wf_value (a_val x)"
  shows "ts_free_attr a st = Inr (wipe {} {a} st)"
proof -
  have "ts_destroy_value (a_val x) = Inr ()" using assms(3) by (rule destroy_wf)
  then show ?thesis
    using assms(1,2) by (auto simp: ts_free_attr_def ts_destroy_attr_def put_attr_def wipe_def fun_eq_iff)
qed

lemma free_attrs_wipe:
  assumes "holds_attrs st l None" "distinct (map fst l)" "\<forall>(x, nm, v) \<in> set l. wf_value v"
    "ts_nodes st a = Some n" "n_attr_list n = first_of fst l None" "length l < fuel"
  shows "free_attrs fuel a st = Inr (wipe {} (fst ` set l) (put_node a (n\<lparr>n_attr_list := None\<rparr>) st))"
  using assms
proof (induction l arbitrary: st n fuel)
  case Nil
  then obtain f where f: "fuel = Suc f" by (cases fuel) auto
  have "n\<lparr>n_attr_list := None\<rparr> = n" using Nil.prems(5) by (cases n) simp
  then have "put_node a (n\<lparr>n_attr_list := None\<rparr>) st = st" using put_node_same Nil.prems(4) by simp
  moreover have "wipe {} {} st = st" by (simp add: wipe_def)
  ultimately show ?case using Nil.prems f by simp
next
  case (Cons y l)
  obtain x nm v where y: "y = (x, nm, v)" by (cases y)
  obtain f where f: "fuel = Suc f" using Cons.prems(6) by (cases fuel) auto
  let ?e = "first_of fst l None"
  let ?st1 = "put_node a (n\<lparr>n_attr_list := ?e\<rparr>) st"
  have x: "ts_attrs ?st1 x = Some \<lparr>a_name = Some nm, a_val = v, a_next = ?e, a_freed = False\<rparr>"
    using Cons.prems(1) y by simp
  have free: "ts_free_attr x ?st1 = Inr (wipe {} {x} ?st1)"
    by (rule free_attr_wipe [OF x]) (use Cons.prems(3) y in auto)
  have "holds_attrs (wipe {} {x} ?st1) l None"
    using Cons.prems(1,2) y by (subst holds_attrs_frame [of _ _ st]) auto
  from Cons.IH [OF this, of "n\<lparr>n_attr_list := ?e\<rparr>" f]
  have "free_attrs f a (wipe {} {x} ?st1)
      = Inr (wipe {} (fst ` set l) (put_node a (n\<lparr>n_attr_list := None\<rparr>) (wipe {} {x} ?st1)))"
    using Cons.prems f by simp
  then show ?case
    using Cons.prems(4,5) f y x free by (simp add: wipe_put [symmetric])
qed

lemma free_node_wipe:
  assumes "ts_nodes st a = Some n" "\<not> n_freed n" "n_attr_list n = first_of fst l None" "holds_attrs st l None"
    "distinct (map fst l)" "\<forall>(x, nm, v) \<in> set l. wf_value v" "length l < ts_brk st + 1"
  shows "ts_free_node a st = Inr (wipe {a} (fst ` set l) st)"
proof -
  let ?st = "put_node a (n\<lparr>n_freed := True\<rparr>) st"
  have "holds_attrs ?st l None" using assms(4) by (subst holds_attrs_frame [of _ _ st]) auto
  from free_attrs_wipe [OF this assms(5,6), of a "n\<lparr>n_freed := True\<rparr>" "ts_brk st + 1"]
  have "free_attrs (ts_brk st + 1) a ?st
      = Inr (wipe {} (fst ` set l) (put_node a (n\<lparr>n_freed := True, n_attr_list := None\<rparr>) ?st))"
    using assms(3,7) by simp
  then show ?thesis
    using assms(1,2) by (simp add: ts_free_node_def ts_destroy_node_def del: free_attrs.simps)
      (auto simp: wipe_def put_node_def fun_eq_iff)
qed

fun values_wf :: "atree \<Rightarrow> bool" where
  "values_wf (ANode a nm ats ks) \<longleftrightarrow> (\<forall>(x, nm, v) \<in> set ats. wf_value v) \<and> (\<forall>k \<in> set ks. values_wf k)"

text \<open>Freeing a tree removes its nodes and attributes and nothing else; the fuel pays two calls for each node.\<close>

lemma free_kids_wipe:
  assumes "\<And>k st nxt fuel. k \<in> set ks \<Longrightarrow> tree_at st (Some a) nxt k \<Longrightarrow> values_wf k \<Longrightarrow>
      2 * length (node_addrs k) \<le> fuel \<Longrightarrow>
      ts_free_tree fuel (Some (at_addr k)) st = Inr (wipe (set (node_addrs k)) (set (attr_addrs k)) st)"
    and "holds_kids st (Some a) ks None" "ts_nodes st a = Some n" "n_child_list n = first_of at_addr ks None"
    and "tree_ok st (ANode a None [] ks)" "\<forall>k \<in> set ks. values_wf k"
    and "1 + 2 * length (concat (map node_addrs ks)) \<le> fuel"
  shows "free_kids fuel a st = Inr (wipe (set (concat (map node_addrs ks))) (set (concat (map attr_addrs ks)))
      (put_node a (n\<lparr>n_child_list := None\<rparr>) st))"
  using assms
proof (induction ks arbitrary: st n fuel)
  case Nil
  then obtain f where f: "fuel = Suc f" by (cases fuel) auto
  have "n\<lparr>n_child_list := None\<rparr> = n" using Nil.prems(4) by (cases n) simp
  then have "put_node a (n\<lparr>n_child_list := None\<rparr>) st = st" using put_node_same Nil.prems(3) by simp
  moreover have "wipe {} {} st = st" by (simp add: wipe_def)
  ultimately show ?case using Nil.prems f by simp
next
  case (Cons k ks)
  obtain f where f: "fuel = Suc f" using Cons.prems(7) by (cases fuel) auto
  let ?N = "set (node_addrs k)" let ?A = "set (attr_addrs k)" let ?e = "first_of at_addr ks None"
  let ?st1 = "put_node a (n\<lparr>n_child_list := ?e\<rparr>) st" let ?st2 = "wipe ?N ?A ?st1"
  have ok: "a \<notin> ?N" "distinct (node_addrs k)" "distinct (attr_addrs k)" "?N \<subseteq> {0<..<ts_brk st}"
      "?A \<subseteq> {0<..<ts_brk st}" "tree_ok st (ANode a None [] ks)"
      "?N \<inter> (\<Union>k \<in> set ks. set (node_addrs k)) = {}" "?A \<inter> (\<Union>k \<in> set ks. set (attr_addrs k)) = {}"
      "a \<notin> (\<Union>k \<in> set ks. set (node_addrs k))"
    using Cons.prems(5) by (auto simp: tree_ok_def)
  obtain c where c: "ts_nodes st (at_addr k) = Some c" "n_next c = ?e"
    using Cons.prems(2) holds_node [of st "Some a" ?e k] by auto
  have ak: "at_addr k \<noteq> a" using ok(1) addr_in_addrs [of k] by auto
  have "holds ?st1 (Some a) ?e k"
    using Cons.prems(2) ok(1) by (subst holds_frame(1) [of _ st]) (auto simp: agree_def)
  then have "tree_at ?st1 (Some a) ?e k" using ok by (simp add: tree_at_def tree_ok_def)
  then have free: "ts_free_tree f (Some (at_addr k)) ?st1 = Inr ?st2"
    using Cons.prems(1) [of k ?st1 ?e f] Cons.prems(6,7) f by simp
  have "0 < length (node_addrs k)" using addr_in_addrs [of k] by (cases "node_addrs k") auto
  then have fuel: "1 + 2 * length (concat (map node_addrs ks)) \<le> f"
    using Cons.prems(7) f by (simp del: length_greater_0_conv)
  have "holds_kids ?st2 (Some a) ks None"
    using Cons.prems(2) ok by (subst holds_frame(2) [of _ st]) (auto simp: agree_def)
  then have "free_kids f a ?st2 = Inr (wipe (set (concat (map node_addrs ks))) (set (concat (map attr_addrs ks)))
      (put_node a (n\<lparr>n_child_list := None\<rparr>) ?st2))"
    using Cons.IH [of ?st2 "n\<lparr>n_child_list := ?e\<rparr>" f] Cons.prems(1,6) ok fuel by (simp add: tree_ok_def)
  also have "put_node a (n\<lparr>n_child_list := None\<rparr>) ?st2 = wipe ?N ?A (put_node a (n\<lparr>n_child_list := None\<rparr>) st)"
    using ok(1) by (simp add: wipe_put)
  finally show ?case
    using Cons.prems(3,4) f c ak free by (simp add: Un_commute)
qed

lemma free_tree_wipe:
  assumes "tree_at st par nxt t" "values_wf t" "2 * length (node_addrs t) \<le> fuel"
  shows "ts_free_tree fuel (Some (at_addr t)) st = Inr (wipe (set (node_addrs t)) (set (attr_addrs t)) st)"
  using assms
proof (induction t arbitrary: st par nxt fuel)
  case (ANode a nm ats ks)
  obtain f where f: "fuel = Suc f" using ANode.prems(3) by (cases fuel) auto
  obtain n where n: "ts_nodes st a = Some n" "\<not> n_freed n" "n_attr_list n = first_of fst ats None"
      "n_child_list n = first_of at_addr ks None"
    and at: "holds_attrs st ats None" and ks: "holds_kids st (Some a) ks None"
    using ANode.prems(1) by (auto simp: tree_at_def)
  have ok: "tree_ok st (ANode a None [] ks)" "distinct (map fst ats)" "set (map fst ats) \<subseteq> {0<..<ts_brk st}"
      "a \<notin> (\<Union>k \<in> set ks. set (node_addrs k))" "fst ` set ats \<inter> (\<Union>k \<in> set ks. set (attr_addrs k)) = {}"
    using ANode.prems(1) by (auto simp: tree_at_def tree_ok_def)
  let ?st = "wipe (set (concat (map node_addrs ks))) (set (concat (map attr_addrs ks)))
      (put_node a (n\<lparr>n_child_list := None\<rparr>) st)"
  have kids: "free_kids f a st = Inr ?st"
  proof (rule free_kids_wipe [OF _ ks n(1,4) ok(1)])
    show "\<And>k st nxt fuel. k \<in> set ks \<Longrightarrow> tree_at st (Some a) nxt k \<Longrightarrow> values_wf k \<Longrightarrow>
      2 * length (node_addrs k) \<le> fuel \<Longrightarrow>
      ts_free_tree fuel (Some (at_addr k)) st = Inr (wipe (set (node_addrs k)) (set (attr_addrs k)) st)"
      using ANode.IH by blast
  qed (use ANode.prems f in auto)
  have "length ats < ts_brk st + 1" using length_addrs [OF ok(2,3)] by simp
  moreover have "holds_attrs ?st ats None"
    using at ok(5) by (subst holds_attrs_frame [of _ _ st]) auto
  ultimately have "ts_free_node a ?st = Inr (wipe {a} (fst ` set ats) ?st)"
    using n ok(2,4) ANode.prems(2) by (intro free_node_wipe [where n = "n\<lparr>n_child_list := None\<rparr>"]) auto
  then show ?case using f kids by (simp add: wipe_put Un_commute)
qed

end
