(* ===== verification/Ts_Text.thy ===== *)
theory Ts_Text
  imports Ts_Tree Darray
begin

text \<open>
  The text format of the tree store (\<open>src/ts_text.c\<close>), and loading and saving files (end of
  \<open>src/treestor.c\<close>). The state of the parser is its record \<open>parser\<close>, with the rest of the file for the
  \<open>FILE\<close> pointer, and the store the tree is built in. Messages to \<open>stderr\<close> are left out. The recursion
  of the parser gets fuel; each token takes a character off the file, so three times its length and
  three is enough (\<open>Ts_Parser\<close>).
\<close>

section \<open>Tokens\<close>

datatype toktype = TOK_SYM | TOK_ID | TOK_NUM | TOK_STR

record parser =
  p_in :: string
  p_nline :: int
  p_token :: "char darr"

text \<open>
  Blanks and comments; the flag says that the loop inside a comment runs. The result is the first other
  character, the rest of the file behind it and the number of the line.
\<close>

fun skip_ws :: "bool \<Rightarrow> string \<Rightarrow> int \<Rightarrow> char option \<times> string \<times> int" where
  "skip_ws cmt [] n = (None, [], n)"
| "skip_ws cmt (c # cs) n =
     (if cmt then (if c = LF then skip_ws False cs (n + 1) else skip_ws True cs n)
      else if c = CHR ''#'' then skip_ws True cs n
      else if \<not> isspace c then (Some c, cs, n)
      else skip_ws False cs (if c = LF then n + 1 else n))"

fun num_loop :: "bool \<Rightarrow> string \<Rightarrow> char darr \<Rightarrow> string \<times> char darr" where
  "num_loop found_dot [] tok = ([], tok)"
| "num_loop found_dot (c # cs) tok =
     (if isdigit c \<or> (c = CHR ''.'' \<and> \<not> found_dot)
      then num_loop (found_dot \<or> c = CHR ''.'') cs (darr_strpush tok c)
      else (c # cs, tok))"

fun id_loop :: "string \<Rightarrow> char darr \<Rightarrow> string \<times> char darr" where
  "id_loop [] tok = ([], tok)"
| "id_loop (c # cs) tok =
     (if isalnum c \<or> c = CHR ''_'' then id_loop cs (darr_strpush tok c) else (c # cs, tok))"

text \<open>The first result says that the closing quote was found.\<close>

fun str_loop :: "string \<Rightarrow> char darr \<Rightarrow> int \<Rightarrow> bool \<times> string \<times> char darr \<times> int" where
  "str_loop [] tok n = (False, [], tok, n)"
| "str_loop (c # cs) tok n =
     (if c \<noteq> DQUOTE then str_loop cs (darr_strpush tok c) (if c = LF then n + 1 else n)
      else (True, cs, tok, n))"

definition next_token :: "parser \<Rightarrow> toktype option \<times> parser" where
  "next_token pst =
     (let tok = darr_clear (p_token pst)
      in case skip_ws False (p_in pst) (p_nline pst) of
           (None, r, n) \<Rightarrow> (None, \<lparr>p_in = r, p_nline = n, p_token = tok\<rparr>)
         | (Some c, r, n) \<Rightarrow>
             let tok = darr_strpush tok c in
             if isdigit c \<or> c = CHR ''-'' \<or> c = CHR ''+''
             then (let (r, tok) = num_loop False r tok
                   in (Some TOK_NUM, \<lparr>p_in = r, p_nline = n, p_token = tok\<rparr>))
             else if isalpha c
             then (let (r, tok) = id_loop r tok
                   in (Some TOK_ID, \<lparr>p_in = r, p_nline = n, p_token = tok\<rparr>))
             else if c = DQUOTE
             then (let (found, r, tok, n) = str_loop r (darr_strpop tok) n
                   in (if found then Some TOK_STR else None, \<lparr>p_in = r, p_nline = n, p_token = tok\<rparr>))
             else (Some TOK_SYM, \<lparr>p_in = r, p_nline = n, p_token = tok\<rparr>))"

text \<open>\<open>pst->token\<close> as a string, and its first character.\<close>

definition token_str :: "parser \<Rightarrow> string res" where
  "token_str pst =
     (if NUL \<in> set (darr_list (p_token pst)) then Inr (cstr (darr_list (p_token pst))) else Inl Overread)"

definition token_char :: "parser \<Rightarrow> char res" where
  "token_char pst = darr_get (p_token pst) 0"

section \<open>Reading\<close>

text \<open>
  \<open>read_array\<close> keeps at most 31 of the values it reads; \<open>array_loop\<close> is its loop, whose first result says
  that no error was found. The values are read into fresh structures.
\<close>

fun read_value :: "nat \<Rightarrow> toktype \<Rightarrow> parser \<Rightarrow> mem \<Rightarrow> ts_value \<Rightarrow> (int \<times> ts_value \<times> parser \<times> mem) res"
and read_array :: "nat \<Rightarrow> char \<Rightarrow> parser \<Rightarrow> mem \<Rightarrow> ts_value \<Rightarrow> (int \<times> ts_value \<times> parser \<times> mem) res"
and array_loop :: "nat \<Rightarrow> char \<Rightarrow> parser \<Rightarrow> mem \<Rightarrow> ts_value list \<Rightarrow>
    (bool \<times> ts_value list \<times> parser \<times> mem) res" where
  "read_value 0 ty pst m val = Inl NoReturn"
| "read_value (Suc fuel) ty pst m val =
     (case ty of
        TOK_NUM \<Rightarrow>
          bindE (token_str pst) (\<lambda>s.
          let (_, v, m) = ts_set_valuef val (to_float (atof s)) m in Inr (0, v, pst, m))
      | TOK_SYM \<Rightarrow>
          bindE (token_char pst) (\<lambda>c.
          if c = CHR ''['' \<or> c = CHR 0x7B
          then bindE (read_array fuel (char_of (ccode c + 2)) pst m val) (\<lambda>(r, v, pst, m).
               Inr (if r = -1 then -1 else 0, v, pst, m))
          else Inr (0, val, pst, m))
      | _ \<Rightarrow>
          bindE (token_str pst) (\<lambda>s.
          bindE (ts_set_value_str val s m) (\<lambda>(_, v, m). Inr (0, v, pst, m))))"
| "read_array 0 endsym pst m tsv = Inl NoReturn"
| "read_array (Suc fuel) endsym pst m tsv =
     bindE (array_loop fuel endsym pst m []) (\<lambda>(ok, values, pst, m).
     if \<not> ok then Inr (-1, tsv, pst, m)
     else if values = [] then Inr (-1, tsv, pst, m)
     else
       bindE (ts_set_value_arr tsv values m) (\<lambda>(r, v, m).
       bindE (destroy_all values) (\<lambda>_.
       Inr (r, v, pst, m))))"
| "array_loop 0 endsym pst m values = Inl NoReturn"
| "array_loop (Suc fuel) endsym pst m values =
     (case next_token pst of
        (None, pst) \<Rightarrow> Inr (True, values, pst, m)
      | (Some ty, pst) \<Rightarrow>
          bindE (read_value fuel ty pst m ts_init_value) (\<lambda>(r, v, pst, m).
          if r = -1 then Inr (False, values, pst, m)
          else
            bindE (if length values < 31 then Inr (values @ [v])
                   else bindE (ts_destroy_value v) (\<lambda>_. Inr values)) (\<lambda>values.
            let (ty, pst) = next_token pst in
            if ty \<noteq> Some TOK_SYM then Inr (False, values, pst, m)
            else
              bindE (token_char pst) (\<lambda>c.
              if c \<noteq> CHR '','' \<and> c \<noteq> endsym then Inr (False, values, pst, m)
              else if c = endsym then Inr (True, values, pst, m)
              else array_loop fuel endsym pst m values))))"

text \<open>
  \<open>read_node\<close>: the loop over the lines of a node, \<open>node_err\<close> what its label \<open>err\<close> does, \<open>read_attr\<close> the
  lines of an attribute after the equals sign; the flag says that no error was found.
\<close>

definition node_err :: "nat \<Rightarrow> parser \<Rightarrow> tstore \<Rightarrow> (nat option \<times> parser \<times> tstore) res" where
  "node_err node pst st = bindE (ts_free_node node st) (\<lambda>st. Inr (None, pst, st))"

definition read_attr :: "nat \<Rightarrow> nat \<Rightarrow> string \<Rightarrow> parser \<Rightarrow> tstore \<Rightarrow> (bool \<times> parser \<times> tstore) res" where
  "read_attr fuel node ident pst st =
     (case ts_alloc_attr st of
        (None, st) \<Rightarrow> Inr (False, pst, st)
      | (Some attr, st) \<Rightarrow>
          (case next_token pst of
             (None, pst) \<Rightarrow> bindE (ts_free_attr attr st) (\<lambda>st. Inr (False, pst, st))
           | (Some ty, pst) \<Rightarrow>
               bindE (the_attr st (Some attr)) (\<lambda>x.
               bindE (read_value fuel ty pst (ts_mem st) (a_val x)) (\<lambda>(r, v, pst, m).
               bindE (upd_attr (Some attr) (\<lambda>x. x\<lparr>a_val := v\<rparr>) (st\<lparr>ts_mem := m\<rparr>)) (\<lambda>st.
               if r = -1 then bindE (ts_free_attr attr st) (\<lambda>st. Inr (False, pst, st))
               else
                 bindE (upd_attr (Some attr) (\<lambda>x. x\<lparr>a_name := Some ident\<rparr>) st) (\<lambda>st.
                 bindE (ts_add_attr node attr st) (\<lambda>st.
                 Inr (True, pst, st))))))))"

fun read_node :: "nat \<Rightarrow> parser \<Rightarrow> tstore \<Rightarrow> (nat option \<times> parser \<times> tstore) res"
and node_loop :: "nat \<Rightarrow> nat \<Rightarrow> parser \<Rightarrow> tstore \<Rightarrow> (nat option \<times> parser \<times> tstore) res" where
  "read_node 0 pst st = Inl NoReturn"
| "read_node (Suc fuel) pst st =
     (case ts_alloc_node st of
        (None, st) \<Rightarrow> Inr (None, pst, st)
      | (Some node, st) \<Rightarrow> node_loop fuel node pst st)"
| "node_loop 0 node pst st = Inl NoReturn"
| "node_loop (Suc fuel) node pst st =
     (let (ty, pst) = next_token pst in
      if ty = Some TOK_ID
      then
        bindE (token_str pst) (\<lambda>ident.
        let (ok, st) = ts_malloc st; (ty, pst') = next_token pst in
        if \<not> ok then node_err node pst st
        else if ty \<noteq> Some TOK_SYM then node_err node pst' st
        else
          bindE (token_char pst') (\<lambda>c.
          if c = CHR ''=''
          then
            bindE (read_attr fuel node ident pst' st) (\<lambda>(ok, pst, st).
            if ok then node_loop fuel node pst st else node_err node pst st)
          else if c = CHR 0x7B
          then
            bindE (read_node fuel pst' st) (\<lambda>(child, pst, st).
            case child of
              None \<Rightarrow> node_err node pst st
            | Some child \<Rightarrow>
                bindE (upd_node (Some child) (\<lambda>n. n\<lparr>n_name := Some ident\<rparr>) st) (\<lambda>st.
                bindE (ts_add_child node child st) (\<lambda>st.
                node_loop fuel node pst st)))
          else node_err node pst' st))
      else if ty \<noteq> Some TOK_SYM then node_err node pst st
      else
        bindE (token_char pst) (\<lambda>c.
        if c \<noteq> CHR 0x7D then node_err node pst st else Inr (Some node, pst, st)))"

definition load_fuel :: "string \<Rightarrow> nat" where
  "load_fuel s = 3 * length s + 3"

definition ts_text_load :: "string \<Rightarrow> tstore \<Rightarrow> (nat option \<times> tstore) res" where
  "ts_text_load fp st =
     (let pst = \<lparr>p_in = fp, p_nline = 0, p_token = darr_alloc 0 1\<rparr>; (ty, pst) = next_token pst in
      if ty \<noteq> Some TOK_ID then Inr (None, st)
      else
        bindE (token_str pst) (\<lambda>root_name.
        let (ok, st) = ts_malloc st; (ty, pst) = next_token pst in
        if \<not> ok then Inr (None, st)
        else if ty \<noteq> Some TOK_SYM then Inr (None, st)
        else
          bindE (token_char pst) (\<lambda>c.
          if c \<noteq> CHR 0x7B then Inr (None, st)
          else
            bindE (read_node (load_fuel fp) pst st) (\<lambda>(node, pst, st).
            case node of
              None \<Rightarrow> Inr (None, st)
            | Some a \<Rightarrow> bindE (upd_node (Some a) (\<lambda>n. n\<lparr>n_name := Some root_name\<rparr>) st) (\<lambda>st. Inr (Some a, st))))))"

section \<open>Writing\<close>

text \<open>The functions return what they write. A null pointer for \<open>%s\<close> is a \<open>NullDeref\<close>.\<close>

fun sep_list :: "string list \<Rightarrow> string" where
  "sep_list [] = []"
| "sep_list [x] = x"
| "sep_list (x # y # l) = x @ '', '' @ sep_list (y # l)"

fun print_value :: "ts_value \<Rightarrow> string res"
and print_all :: "nat \<Rightarrow> ts_value list \<Rightarrow> string list res" where
  "print_value (TsValue ty str inum fnum vec vsz arr asz freed) =
     (if freed then Inl UseAfterFree
      else
        (case ty of
           TS_NUMBER \<Rightarrow> Inr (fmt_g fnum)
         | TS_VECTOR \<Rightarrow>
             if vsz = 0 then Inr ''[]''
             else
               (case vec of
                  None \<Rightarrow> Inl NullDeref
                | Some fs \<Rightarrow>
                    if length fs < vsz then Inl Overread
                    else Inr (''['' @ sep_list (map fmt_g (take vsz fs)) @ '']''))
         | TS_ARRAY \<Rightarrow>
             if asz = 0 then Inr ''[]''
             else
               (case arr of
                  None \<Rightarrow> Inl NullDeref
                | Some a \<Rightarrow> bindE (print_all asz a) (\<lambda>l. Inr (''['' @ sep_list l @ '']'')))
         | TS_STRING \<Rightarrow>
             (case str of None \<Rightarrow> Inl NullDeref | Some s \<Rightarrow> Inr (DQUOTE # s @ [DQUOTE]))))"
| "print_all 0 vs = Inr []"
| "print_all (Suc n) [] = Inl Overread"
| "print_all (Suc n) (v # vs) = bindE (print_value v) (\<lambda>s. bindE (print_all n vs) (\<lambda>l. Inr (s # l)))"

definition indent :: "nat \<Rightarrow> string" where
  "indent x = replicate (if x > 16 then 16 else x) TAB"

fun tree_level :: "nat \<Rightarrow> tstore \<Rightarrow> nat \<Rightarrow> nat res" where
  "tree_level 0 st n = Inl NoReturn"
| "tree_level (Suc fuel) st n =
     bindE (the_node st (Some n)) (\<lambda>x.
     case n_parent x of None \<Rightarrow> Inr 0 | Some p \<Rightarrow> bindE (tree_level fuel st p) (\<lambda>l. Inr (l + 1)))"

text \<open>A string of the structures for \<open>%s\<close>.\<close>

definition need :: "string option \<Rightarrow> string res" where
  "need s = (case s of None \<Rightarrow> Inl NullDeref | Some x \<Rightarrow> Inr x)"

definition print_attr :: "ts_attr \<Rightarrow> nat \<Rightarrow> string res" where
  "print_attr attr level =
     bindE (need (a_name attr)) (\<lambda>nm.
     bindE (print_value (a_val attr)) (\<lambda>v.
     Inr (indent (level + 1) @ nm @ '' = '' @ v @ [LF])))"

fun save_attrs :: "nat \<Rightarrow> tstore \<Rightarrow> nat option \<Rightarrow> nat \<Rightarrow> string res" where
  "save_attrs 0 st attr lvl = Inl NoReturn"
| "save_attrs (Suc fuel) st attr lvl =
     (if attr = None then Inr []
      else
        bindE (the_attr st attr) (\<lambda>x.
        bindE (print_attr x lvl) (\<lambda>s.
        bindE (save_attrs fuel st (a_next x) lvl) (\<lambda>r.
        Inr (s @ r)))))"

fun ts_text_save :: "nat \<Rightarrow> tstore \<Rightarrow> nat \<Rightarrow> string res"
and save_kids :: "nat \<Rightarrow> tstore \<Rightarrow> nat option \<Rightarrow> string res" where
  "ts_text_save 0 st tree = Inl NoReturn"
| "ts_text_save (Suc fuel) st tree =
     bindE (tree_level (ts_brk st + 1) st tree) (\<lambda>lvl.
     bindE (the_node st (Some tree)) (\<lambda>n.
     bindE (need (n_name n)) (\<lambda>nm.
     bindE (save_attrs (ts_brk st + 1) st (n_attr_list n) lvl) (\<lambda>ats.
     bindE (save_kids fuel st (n_child_list n)) (\<lambda>ks.
     Inr (indent lvl @ nm @ '' {'' @ [LF] @ ats @ ks @ indent lvl @ ''}'' @ [LF]))))))"
| "save_kids 0 st c = Inl NoReturn"
| "save_kids (Suc fuel) st c =
     (case c of
        None \<Rightarrow> Inr []
      | Some a \<Rightarrow>
          bindE (ts_text_save fuel st a) (\<lambda>s.
          bindE (the_node st c) (\<lambda>n.
          bindE (save_kids fuel st (n_next n)) (\<lambda>r.
          Inr (s @ r)))))"

definition toktypestr :: "toktype option \<Rightarrow> string" where
  "toktypestr type =
     (case type of
        Some TOK_ID \<Rightarrow> ''identifier'' | Some TOK_NUM \<Rightarrow> ''number'' | Some TOK_STR \<Rightarrow> ''string''
      | Some TOK_SYM \<Rightarrow> ''symbol'' | None \<Rightarrow> ''unknown'')"

section \<open>Files\<close>

text \<open>The files that can be opened, with their contents.\<close>

type_synonym files = "string \<Rightarrow> string option"

definition ts_load :: "files \<Rightarrow> string \<Rightarrow> tstore \<Rightarrow> (nat option \<times> tstore) res" where
  "ts_load fs fname st = (case fs fname of None \<Rightarrow> Inr (None, st) | Some fp \<Rightarrow> ts_text_load fp st)"

definition ts_save :: "files \<Rightarrow> (string \<Rightarrow> bool) \<Rightarrow> tstore \<Rightarrow> nat \<Rightarrow> string \<Rightarrow> (int \<times> files) res" where
  "ts_save fs writable st tree fname =
     (if \<not> writable fname then Inr (0, fs)
      else bindE (ts_text_save (2 * ts_brk st) st tree) (\<lambda>s. Inr (0, fs(fname \<mapsto> s))))"

end
