(* ===== verification/Ts_Parser.thy ===== *)
theory Ts_Parser
  imports Ts_Text
begin

text \<open>
  The parser of \<open>Ts_Text\<close> on every input: it returns within its fuel, it keeps the tree it builds
  well formed, and only a failing \<open>malloc\<close> can make it touch freed memory or a null pointer.
\<close>

section \<open>Tokens\<close>

text \<open>The token is the string \<open>s\<close> with its zero byte.\<close>

definition tk :: "char darr \<Rightarrow> string \<Rightarrow> bool" where
  "tk d s \<longleftrightarrow> darr_ok d \<and> darr_list d = s @ [NUL]"

lemma strpush_ok: "darr_ok d \<Longrightarrow> darr_ok (darr_strpush d c)" "darr_ok d \<Longrightarrow> darr_ok (darr_strpop d)"
  by (simp_all add: darr_strpush_def darr_strpop_def da.push_inv da.pop_inv)

lemma tk_first: "tk (darr_strpush (darr_clear d) c) [c]"
proof -
  have "darr_list (darr_strpush (darr_clear d) c) = [c, NUL]"
    unfolding darr_strpush_def Let_def by (rule da.strpush_empty_list) (simp_all add: darr_simps)
  then show ?thesis by (simp add: tk_def strpush_ok)
qed

lemma tk_push: "tk d s \<Longrightarrow> tk (darr_strpush d c) (s @ [c])"
  using da.strpush_list [of d s NUL c] by (simp add: tk_def strpush_ok) (simp add: darr_strpush_def)

lemma tk_pop: "tk d (s @ [c]) \<Longrightarrow> tk (darr_strpop d) s"
  using da.strpop_list [of d s c NUL] by (simp add: tk_def strpush_ok) (simp add: darr_strpop_def)

lemma token_str_tk: "tk (p_token p) s \<Longrightarrow> token_str p = Inr (cstr s)"
  by (auto simp: token_str_def tk_def cstr_def takeWhile_tail)

lemma token_char_tk: "tk (p_token p) s \<Longrightarrow> token_char p = Inr (hd (s @ [NUL]))"
  by (auto simp: token_char_def tk_def darr_get_list hd_conv_nth)

lemma num_loop_tk: "num_loop dot s d = (r, d') \<Longrightarrow> tk d w \<Longrightarrow> \<exists>u. s = u @ r \<and> tk d' (w @ u)"
proof (induction dot s d arbitrary: w rule: num_loop.induct)
  case (2 dot c cs d)
  show ?case
  proof (cases "isdigit c \<or> (c = CHR ''.'' \<and> \<not> dot)")
    case True
    then obtain u where "cs = u @ r" "tk d' ((w @ [c]) @ u)"
      using 2(1) [OF True _ tk_push [OF 2(3)]] 2(2) by auto
    then show ?thesis by (intro exI [of _ "c # u"]) simp
  qed (use 2 in auto)
qed simp

lemma id_loop_tk: "id_loop s d = (r, d') \<Longrightarrow> tk d w \<Longrightarrow> \<exists>u. s = u @ r \<and> tk d' (w @ u)"
proof (induction s d arbitrary: w rule: id_loop.induct)
  case (2 c cs d)
  show ?case
  proof (cases "isalnum c \<or> c = CHR ''_''")
    case True
    then obtain u where "cs = u @ r" "tk d' ((w @ [c]) @ u)"
      using 2(1) [OF True _ tk_push [OF 2(3)]] 2(2) by auto
    then show ?thesis by (intro exI [of _ "c # u"]) simp
  qed (use 2 in auto)
qed simp

lemma str_loop_tk: "str_loop s d n = (f, r, d', n') \<Longrightarrow> tk d w \<Longrightarrow> length r \<le> length s \<and> (\<exists>u. tk d' u)"
proof (induction s d n arbitrary: w rule: str_loop.induct)
  case (2 c cs d n)
  show ?case
  proof (cases "c \<noteq> DQUOTE")
    case True
    then show ?thesis using 2(1) [OF True _ tk_push [OF 2(3)]] 2(2) by auto
  qed (use 2 in auto)
qed auto

lemma skip_ws_less: "skip_ws b s n = (Some c, r, n') \<Longrightarrow> length r < length s"
  "skip_ws b s n = (None, r, n') \<Longrightarrow> r = []"
  by (induction b s n rule: skip_ws.induct) (auto split: if_splits)

text \<open>What every call of \<open>next_token\<close> gives.\<close>

lemma next_token_tk:
  assumes "next_token p = (ty, p')"
  shows "length (p_in p') \<le> length (p_in p)"
    and "ty = Some t \<Longrightarrow> length (p_in p') < length (p_in p) \<and> (\<exists>s. tk (p_token p') s)"
proof -
  obtain co r n where w: "skip_ws False (p_in p) (p_nline p) = (co, r, n)" by (metis prod_cases3)
  have "length (p_in p') \<le> length (p_in p) \<and>
    (ty = Some t \<longrightarrow> length (p_in p') < length (p_in p) \<and> (\<exists>s. tk (p_token p') s))"
  proof (cases co)
    case None
    then show ?thesis using assms w skip_ws_less(2) [of False "p_in p" "p_nline p" r n]
      by (auto simp: next_token_def Let_def)
  next
    case (Some c)
    have less: "length r < length (p_in p)" using w Some skip_ws_less(1) by simp
    let ?d = "darr_strpush (darr_clear (p_token p)) c"
    note first = tk_first [of "p_token p" c]
    obtain r1 d1 where nl: "num_loop False r ?d = (r1, d1)" by force
    obtain r2 d2 where il: "id_loop r ?d = (r2, d2)" by force
    obtain f3 r3 d3 n3 where sl: "str_loop r (darr_strpop ?d) n = (f3, r3, d3, n3)" by (metis prod_cases4)
    have nt: "length r1 \<le> length r" "\<exists>s. tk d1 s" using num_loop_tk [OF nl first] by auto
    have it: "length r2 \<le> length r" "\<exists>s. tk d2 s" using id_loop_tk [OF il first] by auto
    have "tk (darr_strpop ?d) []" using tk_pop [of ?d "[]" c] first by simp
    from str_loop_tk [OF sl this] have st: "length r3 \<le> length r" "\<exists>s. tk d3 s" by auto
    show ?thesis
      using assms w Some nl il sl nt it st less first
      by (auto simp: next_token_def Let_def split: if_splits)
  qed
  then show "length (p_in p') \<le> length (p_in p)"
    and "ty = Some t \<Longrightarrow> length (p_in p') < length (p_in p) \<and> (\<exists>s. tk (p_token p') s)" by auto
qed

section \<open>Values\<close>

definition value_post :: "fault set \<Rightarrow> nat \<Rightarrow> int \<times> ts_value \<times> parser \<times> mem \<Rightarrow> bool" where
  "value_post E n = (\<lambda>(r, v, p, m). length (p_in p) \<le> n \<and> set_ok E (r, v, m))"

definition loop_post :: "fault set \<Rightarrow> nat \<Rightarrow> bool \<times> ts_value list \<times> parser \<times> mem \<Rightarrow> bool" where
  "loop_post E n = (\<lambda>(ok, vs, p, m). length (p_in p) \<le> n \<and> mem_faults E m \<and> (\<forall>v \<in> set vs. wf_value v))"

lemma set_ok_init [simp]: "set_ok E (-1, ts_init_value, m) \<longleftrightarrow> mem_faults E m"
  "set_ok E (0, v, m) \<longleftrightarrow> mem_faults E m \<and> wf_value v"
  by (auto simp: set_ok_def destroy_wf)

lemma array_step:
  assumes IH: "\<And>ty p m s. tk (p_token p) s \<Longrightarrow> mem_faults E m \<Longrightarrow> 3 * length (p_in p) + 3 \<le> fuel \<Longrightarrow>
      safeE E (value_post E (length (p_in p))) (read_value fuel ty p m ts_init_value)"
    and IH2: "\<And>p m vs. \<forall>v \<in> set vs. wf_value v \<Longrightarrow> mem_faults E m \<Longrightarrow> 3 * length (p_in p) + 1 \<le> fuel \<Longrightarrow>
      safeE E (loop_post E (length (p_in p))) (array_loop fuel endsym p m vs)"
    and vs: "\<forall>v \<in> set vs. wf_value v" "mem_faults E m" "3 * length (p_in p) + 1 \<le> Suc fuel"
  shows "safeE E (loop_post E (length (p_in p))) (array_loop (Suc fuel) endsym p m vs)"
proof -
  obtain to1 p1 where n1: "next_token p = (to1, p1)" by force
  show ?thesis
  proof (cases to1)
    case None
    then show ?thesis using n1 vs next_token_tk(1) [OF n1] by (simp add: loop_post_def)
  next
    case (Some ty)
    obtain s where t1: "length (p_in p1) < length (p_in p)" "tk (p_token p1) s"
      using next_token_tk(2) [OF n1 Some] by auto
    have rv: "safeE E (value_post E (length (p_in p1))) (read_value fuel ty p1 m ts_init_value)"
      using t1 vs by (intro IH) auto
    have step: "safeE E (loop_post E (length (p_in p)))
      (bindE (if length vs < 31 then Inr (vs @ [v]) else bindE (ts_destroy_value v) (\<lambda>_. Inr vs)) (\<lambda>vs.
        let (ty, p3) = next_token p2 in
        if ty \<noteq> Some TOK_SYM then Inr (False, vs, p3, m2)
        else bindE (token_char p3) (\<lambda>c.
          if c \<noteq> CHR '','' \<and> c \<noteq> endsym then Inr (False, vs, p3, m2)
          else if c = endsym then Inr (True, vs, p3, m2)
          else array_loop fuel endsym p3 m2 vs)))"
      if "value_post E (length (p_in p1)) (r, v, p2, m2)" "r \<noteq> -1" for r v p2 m2
    proof -
      have v: "wf_value v" "mem_faults E m2" "length (p_in p2) \<le> length (p_in p1)"
        using that by (auto simp: value_post_def set_ok_def)
      define ws where "ws = (if length vs < 31 then vs @ [v] else vs)"
      have ws: "\<forall>v \<in> set ws. wf_value v" using vs v by (simp add: ws_def)
      obtain to3 p3 where n3: "next_token p2 = (to3, p3)" by force
      have l3: "length (p_in p3) \<le> length (p_in p2)" using next_token_tk(1) [OF n3] .
      show ?thesis
      proof (cases "to3 = Some TOK_SYM")
        case True
        then obtain s' where "length (p_in p3) < length (p_in p2)" "tk (p_token p3) s'"
          using next_token_tk(2) [OF n3] by auto
        moreover from this have "safeE E (loop_post E (length (p_in p3))) (array_loop fuel endsym p3 m2 ws)"
          using ws v t1 vs by (intro IH2) auto
        then have "safeE E (loop_post E (length (p_in p))) (array_loop fuel endsym p3 m2 ws)"
          by (rule safeE_mono) (use l3 v t1 in \<open>auto simp: loop_post_def\<close>)
        ultimately show ?thesis
          using True n3 l3 v t1 vs ws
          by (auto simp: token_char_tk loop_post_def destroy_wf ws_def split: if_splits)
      next
        case False
        then show ?thesis using n3 l3 v t1 vs by (auto simp: loop_post_def destroy_wf)
      qed
    qed
    have fail: "loop_post E (length (p_in p)) (False, vs, p2, m2)"
      if "value_post E (length (p_in p1)) (r, v, p2, m2)" for r v p2 m2
      using that vs t1 by (auto simp: value_post_def loop_post_def set_ok_def)
    show ?thesis
      unfolding array_loop.simps n1 Some prod.case option.case
      apply (rule safeE_bind [OF rv])
      subgoal for x
        by (cases x) (use step fail in \<open>simp split del: if_split add: if_split [of "safeE _ _"]\<close>)
      done
  qed
qed

lemma read_value_safe:
  shows "tk (p_token p) s \<Longrightarrow> mem_faults E m \<Longrightarrow> 3 * length (p_in p) + 3 \<le> fuel \<Longrightarrow>
      safeE E (value_post E (length (p_in p))) (read_value fuel ty p m ts_init_value)"
    and "mem_faults E m \<Longrightarrow> 3 * length (p_in p) + 2 \<le> fuel \<Longrightarrow>
      safeE E (value_post E (length (p_in p))) (read_array fuel endsym p m ts_init_value)"
    and "\<forall>v \<in> set vs. wf_value v \<Longrightarrow> mem_faults E m \<Longrightarrow> 3 * length (p_in p) + 1 \<le> fuel \<Longrightarrow>
      safeE E (loop_post E (length (p_in p))) (array_loop fuel endsym p m vs)"
proof (induction fuel arbitrary: p s m ty endsym vs)
  case (Suc fuel)
  {
    case 1
    have arr: "safeE E (value_post E (length (p_in p)))
        (read_array fuel (char_of (ccode c + 2)) p m ts_init_value)" for c
      using 1 by (intro Suc.IH(2)) auto
    have str: "safeE E (\<lambda>(r, v, m). wf_value v \<and> mem_faults E m) (ts_set_value_str ts_init_value x m)" for x
      using 1 by (intro set_str_safe) auto
    have num: "(\<lambda>(r, v, m). wf_value v \<and> mem_faults E m) (ts_set_valuef ts_init_value x m)" for x
      using 1 by (intro set_valuef_safe) auto
    show ?case
    proof (cases ty)
      case TOK_NUM
      obtain r v m' where "ts_set_valuef ts_init_value (to_float (atof (cstr s))) m = (r, v, m')" by (metis prod_cases3)
      then show ?thesis using TOK_NUM num [of "to_float (atof (cstr s))"] by (simp add: token_str_tk [OF 1(1)] value_post_def)
    next
      case TOK_SYM
      have "safeE E (value_post E (length (p_in p))) (bindE (read_array fuel (char_of (ccode c + 2)) p m ts_init_value)
          (\<lambda>(r, v, pst, m). Inr (if r = -1 then -1 else 0, v, pst, m)))" for c
        by (rule safeE_bind [OF arr]) (auto simp: value_post_def set_ok_def)
      then show ?thesis using TOK_SYM 1 by (simp add: token_char_tk [OF 1(1)] value_post_def)
    qed (use 1 num str in \<open>auto simp: token_str_tk [OF 1(1)] value_post_def split: prod.splits
        intro!: safeE_bind [OF str]\<close>)
  next
    case 2
    have loop: "safeE E (loop_post E (length (p_in p))) (array_loop fuel endsym p m [])"
      using 2 by (intro Suc.IH(3)) auto
    have "safeE E (value_post E n) (bindE (ts_set_value_arr ts_init_value vs m1) (\<lambda>(r, v, m).
        bindE (destroy_all vs) (\<lambda>_. Inr (r, v, p1, m))))"
      if "loop_post E n (True, vs, p1, m1)" for vs p1 m1 n
    proof (rule safeE_bind [OF set_value_arr_safe])
      show "\<forall>v \<in> set vs. wf_value v" "mem_faults E m1" using that by (auto simp: loop_post_def)
    qed (use that in \<open>auto simp: loop_post_def value_post_def destroy_wf\<close>)
    then show ?case
      by (auto simp: value_post_def loop_post_def intro!: safeE_bind [OF loop])
  next
    case 3
    show ?case using 3 Suc.IH(1,3) by (intro array_step) auto
  }
qed auto

section \<open>The tree under construction\<close>

text \<open>\<open>good\<close>: the store holds this tree, its children have names and its values are well formed.\<close>

definition good :: "tstore \<Rightarrow> atree \<Rightarrow> bool" where
  "good st t \<longleftrightarrow> tree_at st None None t \<and> all_named t \<and> values_wf t"

text \<open>Below the old break only the nodes \<open>N\<close> and the attributes \<open>A\<close> may have changed.\<close>

definition keeps :: "nat set \<Rightarrow> nat set \<Rightarrow> tstore \<Rightarrow> tstore \<Rightarrow> bool" where
  "keeps N A st st' \<longleftrightarrow> ts_brk st \<le> ts_brk st'
     \<and> (\<forall>x. x < ts_brk st \<longrightarrow> x \<notin> N \<longrightarrow> ts_nodes st' x = ts_nodes st x)
     \<and> (\<forall>x. x < ts_brk st \<longrightarrow> x \<notin> A \<longrightarrow> ts_attrs st' x = ts_attrs st x)"

lemma keeps_refl [simp]: "keeps N A st st"
  by (simp add: keeps_def)

lemma keeps_trans:
  "keeps N A st st1 \<Longrightarrow> keeps N' A' st1 st2 \<Longrightarrow> N' \<subseteq> N \<union> {ts_brk st..} \<Longrightarrow> A' \<subseteq> A \<union> {ts_brk st..} \<Longrightarrow>
    keeps N A st st2"
proof -
  assume k: "keeps N A st st1" "keeps N' A' st1 st2" and n: "N' \<subseteq> N \<union> {ts_brk st..}" "A' \<subseteq> A \<union> {ts_brk st..}"
  have "\<And>x. x < ts_brk st \<Longrightarrow> x \<notin> N \<Longrightarrow> x \<notin> N'" "\<And>x. x < ts_brk st \<Longrightarrow> x \<notin> A \<Longrightarrow> x \<notin> A'"
    using n by force+
  then show "keeps N A st st2" using k by (simp add: keeps_def)
qed

lemma keeps_mono: "keeps N A st st' \<Longrightarrow> N \<subseteq> N' \<Longrightarrow> A \<subseteq> A' \<Longrightarrow> keeps N' A' st st'"
  by (auto simp: keeps_def)

lemma malloc_keeps:
  assumes "ts_malloc st = (ok, st')"
  shows "keeps N A st st'" "ts_nodes st' = ts_nodes st" "ts_attrs st' = ts_attrs st" "ts_brk st' = ts_brk st"
  using assms by (auto simp: ts_malloc_def keeps_def split: prod.splits)

lemma malloc_faults:
  assumes "ts_malloc st = (ok, st')" "mem_faults E (ts_mem st)"
  shows "mem_faults E (ts_mem st')"
  using assms malloc_mem_faults(1) [OF assms(2)] by (auto simp: ts_malloc_def split: prod.splits)

lemma good_frame:
  assumes "good st t" "agree (set (node_addrs t)) (set (attr_addrs t)) st st'" "ts_brk st \<le> ts_brk st'"
  shows "good st' t"
proof -
  have "holds st' None None t" using assms holds_frame(1) [OF assms(2)] by (simp add: good_def tree_at_def)
  moreover have "{0<..<ts_brk st} \<subseteq> {0<..<ts_brk st'}" using assms(3) by auto
  then have "tree_ok st' t" using assms(1) unfolding good_def tree_at_def tree_ok_def by blast
  ultimately show ?thesis using assms(1) by (simp add: good_def tree_at_def)
qed

lemma good_bounds: "good st t \<Longrightarrow> set (node_addrs t) \<subseteq> {0<..<ts_brk st} \<and> set (attr_addrs t) \<subseteq> {0<..<ts_brk st}"
  by (simp add: good_def tree_at_def tree_ok_def)

lemma good_keeps:
  assumes "good st t" "keeps N A st st'" "set (node_addrs t) \<inter> N = {}" "set (attr_addrs t) \<inter> A = {}"
  shows "good st' t"
proof (rule good_frame [OF assms(1)])
  have "\<And>x. x \<in> set (node_addrs t) \<Longrightarrow> x < ts_brk st \<and> x \<notin> N" "\<And>x. x \<in> set (attr_addrs t) \<Longrightarrow> x < ts_brk st \<and> x \<notin> A"
    using good_bounds [OF assms(1)] assms(3,4) by auto
  then show "agree (set (node_addrs t)) (set (attr_addrs t)) st st'"
    using assms(2) by (simp add: agree_def keeps_def)
  show "ts_brk st \<le> ts_brk st'" using assms(2) by (simp add: keeps_def)
qed

text \<open>The label \<open>err\<close>: the node goes, with its attributes.\<close>

lemma node_err_good:
  assumes "good st (ANode a None ats ks)"
  shows "node_err a p st = Inr (None, p, wipe {a} (fst ` set ats) st)"
proof -
  obtain n where n: "ts_nodes st a = Some n" "\<not> n_freed n" "n_attr_list n = first_of fst ats None"
    and at: "holds_attrs st ats None"
    using assms by (auto simp: good_def tree_at_def)
  have d: "distinct (map fst ats)" "set (map fst ats) \<subseteq> {0<..<ts_brk st}"
    using assms by (auto simp: good_def tree_at_def tree_ok_def)
  have "length ats < ts_brk st + 1" using length_addrs [OF d] by simp
  then show ?thesis
    using free_node_wipe [OF n at d(1)] assms by (simp add: node_err_def good_def)
qed

lemma wipe_keeps: "keeps N A st (wipe N A st)"
  by (simp add: keeps_def)

text \<open>A fresh attribute is appended.\<close>

lemma attach_attr:
  assumes g: "good st (ANode a None ats ks)" and v: "wf_value v"
    and st1: "ts_nodes st1 = ts_nodes st" "ts_brk st1 = ts_brk st + 1"
      "ts_attrs st1 = (ts_attrs st)(ts_brk st \<mapsto> \<lparr>a_name = None, a_val = v, a_next = None, a_freed = False\<rparr>)"
  shows "\<exists>st'. bindE (upd_attr (Some (ts_brk st)) (\<lambda>x. x\<lparr>a_name := Some ident\<rparr>) st1) (ts_add_attr a (ts_brk st)) = Inr st'
    \<and> good st' (ANode a None (ats @ [(ts_brk st, ident, v)]) ks) \<and> ts_brk st' = ts_brk st + 1
    \<and> ts_mem st' = ts_mem st1 \<and> keeps {a} (fst ` set ats) st st'"
proof -
  let ?x = "ts_brk st" let ?y = "\<lparr>a_name = Some ident, a_val = v, a_next = None, a_freed = False\<rparr>"
  let ?st2 = "put_attr ?x ?y st1" let ?t = "ANode a None ats ks"
  have b: "set (node_addrs ?t) \<subseteq> {0<..<?x}" "set (attr_addrs ?t) \<subseteq> {0<..<?x}" using good_bounds [OF g] by auto
  have "good ?st2 ?t"
    by (rule good_frame [OF g]) (use b st1 in \<open>auto simp: agree_def\<close>)
  then have h: "holds ?st2 None None ?t" by (simp add: good_def tree_at_def)
  have upd: "upd_attr (Some ?x) (\<lambda>x. x\<lparr>a_name := Some ident\<rparr>) st1 = Inr ?st2"
    by (simp add: upd_attr_def st1(3))
  have d: "a \<notin> (\<Union>t \<in> set ks. set (node_addrs t))" "distinct (attr_addrs ?t)" "?x \<notin> set (attr_addrs ?t)"
    "distinct (node_addrs ?t)" "0 < ?x"
    using g b by (auto simp: good_def tree_at_def tree_ok_def)
  have "ts_attrs ?st2 ?x = Some ?y" by simp
  from add_attr_holds [OF h this _ _ d(1-3)]
  obtain st' where st': "ts_add_attr a ?x ?st2 = Inr st'" "holds st' None None (ANode a None (ats @ [(?x, ident, v)]) ks)"
    "ts_brk st' = ts_brk ?st2" "ts_mem st' = ts_mem ?st2" "\<forall>z. z \<noteq> a \<longrightarrow> ts_nodes st' z = ts_nodes ?st2 z"
    "\<forall>z. z \<noteq> ?x \<and> z \<notin> fst ` set ats \<longrightarrow> ts_attrs st' z = ts_attrs ?st2 z" by auto
  have "tree_ok st' (ANode a None (ats @ [(?x, ident, v)]) ks)"
    using d b st'(3) st1(2) by (auto simp: tree_ok_def less_Suc_eq)
  then have "good st' (ANode a None (ats @ [(?x, ident, v)]) ks)"
    using st'(2) g v by (simp add: good_def tree_at_def)
  moreover have "keeps {a} (fst ` set ats) st st'"
    using st' st1 by (auto simp: keeps_def)
  ultimately show ?thesis using upd st' st1 by auto
qed

text \<open>A tree that was built later is named and appended.\<close>

fun with_name :: "string \<Rightarrow> atree \<Rightarrow> atree" where
  "with_name nm (ANode a _ ats ks) = ANode a (Some nm) ats ks"

lemma with_name_simps [simp]: "node_addrs (with_name nm t) = node_addrs t" "attr_addrs (with_name nm t) = attr_addrs t"
  "at_addr (with_name nm t) = at_addr t" "at_name (with_name nm t) = Some nm" "all_named (with_name nm t) = all_named t"
  "values_wf (with_name nm t) = values_wf t" "at_kids (with_name nm t) = at_kids t" "at_attrs (with_name nm t) = at_attrs t"
  by (cases t; simp)+

lemma name_node:
  assumes "good st c"
  shows "\<exists>st'. upd_node (Some (at_addr c)) (\<lambda>n. n\<lparr>n_name := Some nm\<rparr>) st = Inr st' \<and> good st' (with_name nm c)
    \<and> ts_brk st' = ts_brk st \<and> ts_mem st' = ts_mem st \<and> ts_attrs st' = ts_attrs st
    \<and> (\<forall>z. z \<noteq> at_addr c \<longrightarrow> ts_nodes st' z = ts_nodes st z)"
proof (cases c)
  case (ANode a cn ats ks)
  obtain n where n: "ts_nodes st a = Some n" and h: "holds st None None (ANode a cn ats ks)"
    using assms ANode by (auto simp: good_def tree_at_def)
  let ?st = "put_node a (n\<lparr>n_name := Some nm\<rparr>) st"
  have "a \<notin> (\<Union>t \<in> set ks. set (node_addrs t))"
    using assms ANode by (auto simp: good_def tree_at_def tree_ok_def)
  then have "holds ?st None None (ANode a (Some nm) ats ks)"
    by (rule holds_head [OF h]) (use h n in auto)
  then have "good ?st (with_name nm c)"
    using assms ANode by (auto simp: good_def tree_at_def tree_ok_def)
  then show ?thesis using upd_node_eq [OF n] ANode by (intro exI [of _ ?st]) auto
qed

lemma attach_child:
  assumes g: "good st (ANode a None ats ks)" and c: "good st c"
    and d: "set (node_addrs (ANode a None ats ks)) \<inter> set (node_addrs c) = {}"
      "set (attr_addrs (ANode a None ats ks)) \<inter> set (attr_addrs c) = {}"
  shows "\<exists>st'. bindE (upd_node (Some (at_addr c)) (\<lambda>n. n\<lparr>n_name := Some nm\<rparr>) st) (ts_add_child a (at_addr c)) = Inr st'
    \<and> good st' (ANode a None ats (ks @ [with_name nm c])) \<and> ts_brk st' = ts_brk st \<and> ts_mem st' = ts_mem st
    \<and> keeps (set (node_addrs (ANode a None ats ks)) \<union> set (node_addrs c)) {} st st'"
proof -
  let ?c = "with_name nm c"
  obtain st1 where st1: "upd_node (Some (at_addr c)) (\<lambda>n. n\<lparr>n_name := Some nm\<rparr>) st = Inr st1" "good st1 ?c"
    "ts_brk st1 = ts_brk st" "ts_mem st1 = ts_mem st" "ts_attrs st1 = ts_attrs st"
    "\<forall>z. z \<noteq> at_addr c \<longrightarrow> ts_nodes st1 z = ts_nodes st z" using name_node [OF c] by blast
  have ac: "at_addr c \<in> set (node_addrs c)" by simp
  have "good st1 (ANode a None ats ks)"
  proof (rule good_frame [OF g])
    have "at_addr c \<notin> set (node_addrs (ANode a None ats ks))" using d(1) ac by blast
    then show "agree (set (node_addrs (ANode a None ats ks))) (set (attr_addrs (ANode a None ats ks))) st st1"
      using st1(5,6) unfolding agree_def by metis
  qed (simp add: st1)
  then have h: "holds st1 None None (ANode a None ats ks)" and hc: "holds st1 None None ?c"
    using st1(2) by (auto simp: good_def tree_at_def)
  have dn: "distinct (node_addrs (ANode a None ats (ks @ [?c])))"
    using g c d by (auto simp: good_def tree_at_def tree_ok_def)
  from add_child_holds [OF h hc dn]
  obtain st' where st': "ts_add_child a (at_addr ?c) st1 = Inr st'" "holds st' None None (ANode a None ats (ks @ [?c]))"
    "ts_brk st' = ts_brk st1" "ts_mem st' = ts_mem st1" "ts_attrs st' = ts_attrs st1"
    "\<forall>z. z \<notin> set (node_addrs (ANode a None ats (ks @ [?c]))) \<longrightarrow> ts_nodes st' z = ts_nodes st1 z" by blast
  have "tree_ok st' (ANode a None ats (ks @ [?c]))"
    using g c d st' st1 dn by (auto simp: good_def tree_at_def tree_ok_def)
  then have "good st' (ANode a None ats (ks @ [?c]))"
    using st' g c by (simp add: good_def tree_at_def)
  moreover have "keeps (set (node_addrs (ANode a None ats ks)) \<union> set (node_addrs c)) {} st st'"
    using st' st1 ac by (auto simp: keeps_def simp del: addr_in_addrs)
  ultimately show ?thesis using st' st1 by auto
qed

text \<open>A fresh attribute that is in no list yet can be freed again.\<close>

lemma free_fresh_attr:
  assumes "ts_attrs st (ts_brk st0) = Some \<lparr>a_name = None, a_val = v, a_next = None, a_freed = False\<rparr>"
    "safeE E (\<lambda>_. True) (ts_destroy_value v)" "keeps {} {} st0 st"
  shows "safeE E (\<lambda>st'. keeps {} {} st0 st' \<and> ts_mem st' = ts_mem st) (ts_free_attr (ts_brk st0) st)"
  using assms by (cases "ts_destroy_value v") (auto simp: ts_free_attr_def ts_destroy_attr_def keeps_def put_attr_def)

definition attr_post :: "fault set \<Rightarrow> nat \<Rightarrow> tstore \<Rightarrow> nat \<Rightarrow> (nat \<times> string \<times> ts_value) list \<Rightarrow> atree list \<Rightarrow>
    bool \<times> parser \<times> tstore \<Rightarrow> bool" where
  "attr_post E n st a ats ks = (\<lambda>(ok, p, st'). length (p_in p) \<le> n \<and> mem_faults E (ts_mem st')
     \<and> (if ok then keeps {a} (fst ` set ats) st st'
               \<and> (\<exists>ident v. good st' (ANode a None (ats @ [(ts_brk st, ident, v)]) ks))
        else keeps {} {} st st'))"

lemma read_attr_safe:
  assumes g: "good st (ANode a None ats ks)" and m: "mem_faults E (ts_mem st)" and f: "3 * length (p_in p) \<le> fuel"
  shows "safeE E (attr_post E (length (p_in p)) st a ats ks) (read_attr fuel a ident p st)"
proof -
  obtain ok m1 where al: "malloc (ts_mem st) = (ok, m1)" by force
  have m1: "mem_faults E m1" using malloc_mem_faults(1) [OF m al] .
  let ?x = "ts_brk st"
  define st1 where "st1 = put_attr ?x ts_init_attr (st\<lparr>ts_mem := m1, ts_brk := ?x + 1\<rparr>)"
  have x1: "ts_attrs st1 ?x = Some \<lparr>a_name = None, a_val = ts_init_value, a_next = None, a_freed = False\<rparr>"
    and k1: "keeps {} {} st st1" and ms1: "ts_mem st1 = m1"
    by (auto simp: st1_def keeps_def ts_init_attr_def)
  obtain to1 p1 where n1: "next_token p = (to1, p1)" by force
  have le: "length (p_in p1) \<le> length (p_in p)" using next_token_tk(1) [OF n1] .
  show ?thesis
  proof (cases ok)
    case False
    then show ?thesis using al m1
      by (simp add: read_attr_def ts_alloc_attr_def ts_malloc_def attr_post_def keeps_def)
  next
    case True
    then have alloc: "ts_alloc_attr st = (Some ?x, st1)"
      using al by (simp add: ts_alloc_attr_def ts_malloc_def st1_def)
    show ?thesis
    proof (cases to1)
      case None
      have "safeE E (\<lambda>st'. keeps {} {} st st' \<and> ts_mem st' = ts_mem st1) (ts_free_attr ?x st1)"
        using free_fresh_attr [OF x1 _ k1, of E] by (simp add: destroy_wf)
      then show ?thesis
        using alloc n1 None le m1 ms1
        by (cases "ts_free_attr ?x st1") (auto simp: read_attr_def attr_post_def)
    next
      case (Some ty)
      obtain s where s: "tk (p_token p1) s" "length (p_in p1) < length (p_in p)" using next_token_tk(2) [OF n1 Some] by auto
      have rv: "safeE E (value_post E (length (p_in p1))) (read_value fuel ty p1 (ts_mem st1) ts_init_value)"
        using s f m1 ms1 by (intro read_value_safe(1)) auto
      have "safeE E (attr_post E (length (p_in p)) st a ats ks)
        (bindE (upd_attr (Some ?x) (\<lambda>x. x\<lparr>a_val := v\<rparr>) (st1\<lparr>ts_mem := m2\<rparr>)) (\<lambda>st.
               if r = -1 then bindE (ts_free_attr ?x st) (\<lambda>st. Inr (False, p2, st))
               else
                 bindE (upd_attr (Some ?x) (\<lambda>x. x\<lparr>a_name := Some ident\<rparr>) st) (\<lambda>st.
                 bindE (ts_add_attr a ?x st) (\<lambda>st.
                 Inr (True, p2, st)))))"
        if p: "value_post E (length (p_in p1)) (r, v, p2, m2)" for r v p2 m2
      proof -
        define st2 where "st2 = put_attr ?x \<lparr>a_name = None, a_val = v, a_next = None, a_freed = False\<rparr> (st1\<lparr>ts_mem := m2\<rparr>)"
        have u: "upd_attr (Some ?x) (\<lambda>x. x\<lparr>a_val := v\<rparr>) (st1\<lparr>ts_mem := m2\<rparr>) = Inr st2"
          using x1 by (simp add: upd_attr_def st2_def)
        have k2: "keeps {} {} st st2" by (auto simp: st2_def st1_def keeps_def)
        have m2: "mem_faults E m2" "length (p_in p2) \<le> length (p_in p)" "ts_mem st2 = m2"
          using p s by (auto simp: value_post_def set_ok_def st2_def)
        show ?thesis
        proof (cases "r = -1")
          case True
          have "safeE E (\<lambda>st'. keeps {} {} st st' \<and> ts_mem st' = ts_mem st2) (ts_free_attr ?x st2)"
            using p True by (intro free_fresh_attr [OF _ _ k2]) (auto simp: st2_def value_post_def set_ok_def)
          then show ?thesis
            using u True m2 by (cases "ts_free_attr ?x st2") (auto simp: attr_post_def)
        next
          case False
          then have v: "wf_value v" using p by (auto simp: value_post_def set_ok_def)
          have "\<exists>st'. bindE (upd_attr (Some ?x) (\<lambda>x. x\<lparr>a_name := Some ident\<rparr>) st2) (ts_add_attr a ?x) = Inr st'
            \<and> good st' (ANode a None (ats @ [(?x, ident, v)]) ks) \<and> ts_brk st' = ?x + 1
            \<and> ts_mem st' = ts_mem st2 \<and> keeps {a} (fst ` set ats) st st'"
            by (rule attach_attr [OF g v]) (auto simp: st2_def st1_def)
          then obtain st' where run: "bindE (upd_attr (Some ?x) (\<lambda>x. x\<lparr>a_name := Some ident\<rparr>) st2) (ts_add_attr a ?x) = Inr st'"
            and "good st' (ANode a None (ats @ [(?x, ident, v)]) ks)" "ts_mem st' = m2" "keeps {a} (fst ` set ats) st st'"
            using m2 by auto
          moreover from this have "\<exists>ident v. good st' (ANode a None (ats @ [(?x, ident, v)]) ks)" by blast
          ultimately have "attr_post E (length (p_in p)) st a ats ks (True, p2, st')"
            using m2 by (simp add: attr_post_def)
          then show ?thesis using u False m2 run by (auto simp: bindE_assoc [symmetric])
        qed
      qed
      then show ?thesis
        using alloc n1 Some x1 by (auto simp: read_attr_def intro!: safeE_bind [OF rv])
    qed
  qed
qed

section \<open>Nodes\<close>

definition node_post :: "fault set \<Rightarrow> nat \<Rightarrow> tstore \<Rightarrow> nat \<Rightarrow> nat set \<Rightarrow> nat set \<Rightarrow>
    nat option \<times> parser \<times> tstore \<Rightarrow> bool" where
  "node_post E n st a N A = (\<lambda>(r, p, st'). length (p_in p) \<le> n \<and> mem_faults E (ts_mem st') \<and> keeps N A st st'
     \<and> (r = None \<or> r = Some a \<and> (\<exists>ats ks. good st' (ANode a None ats ks)
          \<and> set (node_addrs (ANode a None ats ks)) \<subseteq> N \<union> {ts_brk st..}
          \<and> set (attr_addrs (ANode a None ats ks)) \<subseteq> A \<union> {ts_brk st..})))"

lemma sub_Un: "X \<subseteq> N' \<union> B' \<Longrightarrow> N' \<subseteq> N \<union> B \<Longrightarrow> B' \<subseteq> B \<Longrightarrow> X \<subseteq> N \<union> B"
  by blast

lemma node_post_mono:
  assumes "safeE E (node_post E n st1 a N' A') m" "keeps N A st st1" "N' \<subseteq> N \<union> {ts_brk st..}"
    "A' \<subseteq> A \<union> {ts_brk st..}" "n \<le> k"
  shows "safeE E (node_post E k st a N A) m"
proof (rule safeE_mono [OF assms(1) _ order_refl])
  fix x assume x: "node_post E n st1 a N' A' x"
  obtain r p st' where xe: "x = (r, p, st')" by (cases x)
  have k: "keeps N A st st'" using x xe keeps_trans [OF assms(2) _ assms(3,4)] by (auto simp: node_post_def)
  have b: "{ts_brk st1..} \<subseteq> {ts_brk st..}" using assms(2) by (auto simp: keeps_def)
  have sub: "\<And>X. X \<subseteq> N' \<union> {ts_brk st1..} \<Longrightarrow> X \<subseteq> N \<union> {ts_brk st..}" "\<And>X. X \<subseteq> A' \<union> {ts_brk st1..} \<Longrightarrow> X \<subseteq> A \<union> {ts_brk st..}"
    using sub_Un [OF _ assms(3) b] sub_Un [OF _ assms(4) b] by simp_all
  have "length (p_in p) \<le> k" using x xe assms(5) by (simp add: node_post_def)
  then show "node_post E k st a N A x"
    using x k sub unfolding xe node_post_def prod.case by blast
qed

lemma node_err_safe:
  assumes "good st1 (ANode a None ats ks)" "mem_faults E (ts_mem st1)" "length (p_in p) \<le> n"
    "keeps N A st st1" "a \<in> N \<or> ts_brk st \<le> a" "fst ` set ats \<subseteq> A \<union> {ts_brk st..}"
  shows "safeE E (node_post E n st b N A) (node_err a p st1)"
proof -
  have "keeps N A st (wipe {a} (fst ` set ats) st1)"
    using assms(5,6) by (intro keeps_trans [OF assms(4) wipe_keeps]) auto
  then show ?thesis using assms by (simp add: node_err_good node_post_def)
qed

text \<open>The loop keeps the tree it has, and the tree it returns is made of this tree and of fresh addresses.\<close>

abbreviation node_of :: "nat \<Rightarrow> (nat \<times> string \<times> ts_value) list \<Rightarrow> atree list \<Rightarrow> nat set" where
  "node_of a ats ks \<equiv> set (node_addrs (ANode a None ats ks))"

abbreviation attr_of :: "nat \<Rightarrow> (nat \<times> string \<times> ts_value) list \<Rightarrow> atree list \<Rightarrow> nat set" where
  "attr_of a ats ks \<equiv> set (attr_addrs (ANode a None ats ks))"

lemma read_node_safe:
  shows "0 < ts_brk st \<Longrightarrow> mem_faults E (ts_mem st) \<Longrightarrow> 3 * length (p_in p) + 2 \<le> fuel \<Longrightarrow>
      safeE E (node_post E (length (p_in p)) st (ts_brk st) {} {}) (read_node fuel p st)"
    and "good st (ANode a None ats ks) \<Longrightarrow> mem_faults E (ts_mem st) \<Longrightarrow> 3 * length (p_in p) + 1 \<le> fuel \<Longrightarrow>
      safeE E (node_post E (length (p_in p)) st a (node_of a ats ks) (attr_of a ats ks)) (node_loop fuel a p st)"
proof (induction fuel arbitrary: p st a ats ks)
  case (Suc fuel)
  {
    case 1
    obtain ok m1 where al: "malloc (ts_mem st) = (ok, m1)" by force
    have m1: "mem_faults E m1" using malloc_mem_faults(1) [OF 1(2) al] .
    let ?a = "ts_brk st"
    define st1 where "st1 = put_node ?a ts_init_node (st\<lparr>ts_mem := m1, ts_brk := ?a + 1\<rparr>)"
    show ?case
    proof (cases ok)
      case False
      then show ?thesis using al m1
        by (simp add: ts_alloc_node_def ts_malloc_def node_post_def keeps_def)
    next
      case True
      then have alloc: "ts_alloc_node st = (Some ?a, st1)"
        using al by (simp add: ts_alloc_node_def ts_malloc_def st1_def)
      have g: "good st1 (ANode ?a None [] [])"
        using 1(1) by (simp add: good_def tree_at_def tree_ok_def st1_def ts_init_node_def)
      have "safeE E (node_post E (length (p_in p)) st1 ?a (node_of ?a [] []) (attr_of ?a [] [])) (node_loop fuel ?a p st1)"
        using 1(3) m1 by (intro Suc.IH(2) [OF g]) (auto simp: st1_def)
      then have "safeE E (node_post E (length (p_in p)) st ?a {} {}) (node_loop fuel ?a p st1)"
        by (rule node_post_mono) (auto simp: st1_def keeps_def)
      then show ?thesis using alloc by simp
    qed
  next
    case 2
    let ?t = "ANode a None ats ks" let ?L = "length (p_in p)"
    let ?post = "safeE E (node_post E ?L st a (node_of a ats ks) (attr_of a ats ks))"
    obtain to1 p1 where n1: "next_token p = (to1, p1)" by force
    have l1: "length (p_in p1) \<le> ?L" using next_token_tk(1) [OF n1] .
    have err: "?post (node_err a q st1)" if "good st1 ?t" "mem_faults E (ts_mem st1)" "length (p_in q) \<le> ?L"
        "keeps (node_of a ats ks) (attr_of a ats ks) st st1" for q st1
      using that by (intro node_err_safe) auto
    show ?case
    proof (cases "to1 = Some TOK_ID")
      case True
      obtain s where s: "tk (p_token p1) s" "length (p_in p1) < ?L" using next_token_tk(2) [OF n1 True] by auto
      obtain ok st1 where al: "ts_malloc st = (ok, st1)" by force
      note mk = malloc_keeps [OF al]
      have m1: "mem_faults E (ts_mem st1)" using malloc_faults [OF al 2(2)] .
      have g1: "good st1 ?t" by (rule good_frame [OF 2(1)]) (simp_all add: agree_def mk)
      obtain to2 p2 where n2: "next_token p1 = (to2, p2)" by force
      have l2: "length (p_in p2) \<le> length (p_in p1)" using next_token_tk(1) [OF n2] .
      show ?thesis
      proof (cases "ok \<and> to2 = Some TOK_SYM")
        case False
        then show ?thesis
          using n1 True al n2 s l2 err [OF g1 m1 _ mk(1)] by (auto simp: token_str_tk)
      next
        case ok: True
        then obtain s2 where s2: "tk (p_token p2) s2" "length (p_in p2) < length (p_in p1)" using next_token_tk(2) [OF n2] by auto
        let ?c = "hd (s2 @ [NUL])"
        have attr: "?post (bindE (read_attr fuel a (cstr s) p2 st1) (\<lambda>(ok, pst, st).
            if ok then node_loop fuel a pst st else node_err a pst st))"
        proof (rule safeE_bind [OF read_attr_safe [OF g1 m1]])
          show "3 * length (p_in p2) \<le> fuel" using 2(3) s s2 by simp
          fix x assume x: "attr_post E (length (p_in p2)) st1 a ats ks x"
          obtain ok3 p3 st3 where xe: "x = (ok3, p3, st3)" by (cases x)
          have l3: "length (p_in p3) \<le> length (p_in p2)" "mem_faults E (ts_mem st3)" using x xe by (auto simp: attr_post_def)
          show "?post (case x of (ok, pst, st) \<Rightarrow> if ok then node_loop fuel a pst st else node_err a pst st)"
          proof (cases ok3)
            case True
            then obtain ident v where g3: "good st3 (ANode a None (ats @ [(ts_brk st1, ident, v)]) ks)"
              and k3: "keeps {a} (fst ` set ats) st1 st3" using x xe by (auto simp: attr_post_def)
            have "safeE E (node_post E (length (p_in p3)) st3 a (node_of a (ats @ [(ts_brk st1, ident, v)]) ks)
                (attr_of a (ats @ [(ts_brk st1, ident, v)]) ks)) (node_loop fuel a p3 st3)"
              using l3 s s2 2(3) by (intro Suc.IH(2) [OF g3]) auto
            moreover have "keeps (node_of a ats ks) (attr_of a ats ks) st st3"
              by (rule keeps_trans [OF mk(1) k3]) auto
            ultimately have "?post (node_loop fuel a p3 st3)"
              by (rule node_post_mono) (use l3 s s2 mk(4) in auto)
            then show ?thesis using xe True by simp
          next
            case False
            then have k3: "keeps {} {} st1 st3" using x xe by (auto simp: attr_post_def)
            have "?post (node_err a p3 st3)"
              by (rule err [OF good_keeps [OF g1 k3]]) (use l3 s s2 keeps_trans [OF mk(1) k3] in auto)
            then show ?thesis using xe False by simp
          qed
        qed
        have child: "?post (bindE (read_node fuel p2 st1) (\<lambda>(child, pst, st).
            case child of
              None \<Rightarrow> node_err a pst st
            | Some child \<Rightarrow>
                bindE (upd_node (Some child) (\<lambda>n. n\<lparr>n_name := Some (cstr s)\<rparr>) st) (\<lambda>st.
                bindE (ts_add_child a child st) (\<lambda>st.
                node_loop fuel a pst st))))"
        proof (rule safeE_bind)
          show "safeE E (node_post E (length (p_in p2)) st1 (ts_brk st1) {} {}) (read_node fuel p2 st1)"
            using 2(3) s s2 good_bounds [OF g1] m1 by (intro Suc.IH(1)) auto
          fix x assume x: "node_post E (length (p_in p2)) st1 (ts_brk st1) {} {} x"
          obtain r p3 st3 where xe: "x = (r, p3, st3)" by (cases x)
          have l3: "length (p_in p3) \<le> length (p_in p2)" "mem_faults E (ts_mem st3)" and k3: "keeps {} {} st1 st3"
            using x xe by (auto simp: node_post_def)
          have g3: "good st3 ?t" by (rule good_keeps [OF g1 k3]) auto
          have kk: "keeps (node_of a ats ks) (attr_of a ats ks) st st3" by (rule keeps_trans [OF mk(1) k3]) auto
          have "?post (case r of
              None \<Rightarrow> node_err a p3 st3
            | Some child \<Rightarrow>
                bindE (upd_node (Some child) (\<lambda>n. n\<lparr>n_name := Some (cstr s)\<rparr>) st3) (\<lambda>st.
                bindE (ts_add_child a child st) (\<lambda>st.
                node_loop fuel a p3 st)))"
          proof (cases r)
            case None
            then show ?thesis using err [OF g3 l3(2) _ kk] l3 s s2 by simp
          next
            case (Some b)
            then obtain cats cks where c: "good st3 (ANode b None cats cks)" "node_of b cats cks \<subseteq> {ts_brk st1..}"
              "attr_of b cats cks \<subseteq> {ts_brk st1..}" using x xe by (auto simp: node_post_def)
            let ?c = "ANode b None cats cks"
            have disj: "node_of a ats ks \<inter> node_of b cats cks = {}" "attr_of a ats ks \<inter> attr_of b cats cks = {}"
              using good_bounds [OF g1] c(2,3) by fastforce+
            obtain st4 where st4: "bindE (upd_node (Some b) (\<lambda>n. n\<lparr>n_name := Some (cstr s)\<rparr>) st3) (ts_add_child a b) = Inr st4"
              "good st4 (ANode a None ats (ks @ [with_name (cstr s) ?c]))" "ts_brk st4 = ts_brk st3" "ts_mem st4 = ts_mem st3"
              "keeps (node_of a ats ks \<union> node_of b cats cks) {} st3 st4"
              using attach_child [OF g3 c(1) disj, of "cstr s"] by auto
            have "safeE E (node_post E (length (p_in p3)) st4 a (node_of a ats (ks @ [with_name (cstr s) ?c]))
                (attr_of a ats (ks @ [with_name (cstr s) ?c]))) (node_loop fuel a p3 st4)"
              using l3 s s2 2(3) st4(4) by (intro Suc.IH(2) [OF st4(2)]) auto
            moreover have "keeps (node_of a ats ks) (attr_of a ats ks) st st4"
              by (rule keeps_trans [OF kk st4(5)]) (use c mk(4) in auto)
            ultimately have "?post (node_loop fuel a p3 st4)"
              by (rule node_post_mono) (use l3 s s2 mk(4) c in auto)
            then show ?thesis using Some st4(1) by (auto simp: bindE_assoc [symmetric])
          qed
          then show "?post (case x of (child, pst, st) \<Rightarrow>
            case child of
              None \<Rightarrow> node_err a pst st
            | Some child \<Rightarrow>
                bindE (upd_node (Some child) (\<lambda>n. n\<lparr>n_name := Some (cstr s)\<rparr>) st) (\<lambda>st.
                bindE (ts_add_child a child st) (\<lambda>st.
                node_loop fuel a pst st)))" using xe by simp
        qed
        show ?thesis
          using n1 True al n2 ok s s2 attr child err [OF g1 m1 _ mk(1), of p2]
          by (simp add: token_str_tk token_char_tk)
      qed
    next
      case False
      have g0: "?post (Inr (Some a, p1, st))"
        using 2 l1 by (auto simp: node_post_def)
      show ?thesis
      proof (cases "to1 = Some TOK_SYM")
        case True
        then obtain s where s: "tk (p_token p1) s" using next_token_tk(2) [OF n1] by auto
        show ?thesis using n1 True g0 err [OF 2(1,2) l1 keeps_refl] by (simp add: token_char_tk [OF s])
      next
        case no: False
        then show ?thesis using n1 False err [OF 2(1,2) l1 keeps_refl] by simp
      qed
    qed
  }
qed auto

section \<open>Files\<close>

definition load_post :: "fault set \<Rightarrow> tstore \<Rightarrow> nat option \<times> tstore \<Rightarrow> bool" where
  "load_post E st = (\<lambda>(r, st'). mem_faults E (ts_mem st') \<and> keeps {} {} st st'
     \<and> (\<forall>a. r = Some a \<longrightarrow> (\<exists>t. good st' t \<and> at_addr t = a \<and> at_name t \<noteq> None
          \<and> set (node_addrs t) \<union> set (attr_addrs t) \<subseteq> {ts_brk st..})))"

lemma text_load_safe:
  assumes "0 < ts_brk st" "mem_faults E (ts_mem st)"
  shows "safeE E (load_post E st) (ts_text_load fp st)"
proof -
  let ?p = "\<lparr>p_in = fp, p_nline = 0, p_token = darr_alloc 0 1\<rparr>"
  obtain to1 p1 where n1: "next_token ?p = (to1, p1)" by force
  obtain ok st1 where al: "ts_malloc st = (ok, st1)" by force
  obtain to2 p2 where n2: "next_token p1 = (to2, p2)" by force
  note mk = malloc_keeps [OF al]
  have m1: "mem_faults E (ts_mem st1)" using malloc_faults [OF al assms(2)] .
  have none: "load_post E st (None, st)" "load_post E st (None, st1)"
    using assms m1 mk(1) by (simp_all add: load_post_def)
  show ?thesis
  proof (cases "to1 = Some TOK_ID \<and> ok \<and> to2 = Some TOK_SYM")
    case True
    obtain s where s: "tk (p_token p1) s" "length (p_in p1) < length fp" using next_token_tk(2) [OF n1] True by auto
    obtain s2 where s2: "tk (p_token p2) s2" "length (p_in p2) < length (p_in p1)" using next_token_tk(2) [OF n2] True by auto
    have "safeE E (load_post E st) (bindE (read_node (load_fuel fp) p2 st1) (\<lambda>(node, pst, st).
            case node of
              None \<Rightarrow> Inr (None, st)
            | Some a \<Rightarrow> bindE (upd_node (Some a) (\<lambda>n. n\<lparr>n_name := Some (cstr s)\<rparr>) st) (\<lambda>st. Inr (Some a, st))))"
    proof (rule safeE_bind)
      show "safeE E (node_post E (length (p_in p2)) st1 (ts_brk st1) {} {}) (read_node (load_fuel fp) p2 st1)"
        using s s2 m1 mk(4) assms(1) by (intro read_node_safe(1)) (simp_all add: load_fuel_def)
      fix x assume x: "node_post E (length (p_in p2)) st1 (ts_brk st1) {} {} x"
      obtain r p3 st3 where xe: "x = (r, p3, st3)" by (cases x)
      have m3: "mem_faults E (ts_mem st3)" and k3: "keeps {} {} st st3"
        using x xe keeps_trans [OF mk(1), of "{}" "{}" st3] by (auto simp: node_post_def)
      show "safeE E (load_post E st) (case x of (node, pst, st) \<Rightarrow>
            case node of
              None \<Rightarrow> Inr (None, st)
            | Some a \<Rightarrow> bindE (upd_node (Some a) (\<lambda>n. n\<lparr>n_name := Some (cstr s)\<rparr>) st) (\<lambda>st. Inr (Some a, st)))"
      proof (cases r)
        case None
        then show ?thesis using xe m3 k3 by (simp add: load_post_def)
      next
        case (Some b)
        then obtain ats ks where c: "good st3 (ANode b None ats ks)" "node_of b ats ks \<subseteq> {ts_brk st..}"
          "attr_of b ats ks \<subseteq> {ts_brk st..}" using x xe mk(4) by (auto simp: node_post_def)
        obtain st4 where st4: "upd_node (Some b) (\<lambda>n. n\<lparr>n_name := Some (cstr s)\<rparr>) st3 = Inr st4"
          "good st4 (with_name (cstr s) (ANode b None ats ks))" "ts_brk st4 = ts_brk st3" "ts_mem st4 = ts_mem st3"
          "ts_attrs st4 = ts_attrs st3" "\<forall>z. z \<noteq> b \<longrightarrow> ts_nodes st4 z = ts_nodes st3 z"
          using name_node [OF c(1), of "cstr s"] by auto
        have "keeps {} {} st st4" using k3 st4 c(2) by (auto simp: keeps_def)
        moreover have "\<exists>t. good st4 t \<and> at_addr t = b \<and> at_name t \<noteq> None
            \<and> set (node_addrs t) \<union> set (attr_addrs t) \<subseteq> {ts_brk st..}"
          using st4(2) c(2,3) by (intro exI [of _ "with_name (cstr s) (ANode b None ats ks)"]) simp
        ultimately show ?thesis using xe Some st4 m3 by (simp add: load_post_def)
      qed
    qed
    then show ?thesis
      using n1 n2 al True none by (simp add: ts_text_load_def token_str_tk [OF s(1)] token_char_tk [OF s2(1)])
  next
    case False
    then show ?thesis
    proof (cases "to1 = Some TOK_ID")
      case True
      then obtain s where "tk (p_token p1) s" using next_token_tk(2) [OF n1] by auto
      then show ?thesis using n1 n2 al False True none by (auto simp: ts_text_load_def token_str_tk)
    qed (use n1 none in \<open>simp add: ts_text_load_def\<close>)
  qed
qed

end
