(* ===== verification/Ts_Print.thy ===== *)
theory Ts_Print
  imports Ts_Parser
begin

text \<open>
  Loading what was saved. A tree that can be printed (\<open>ttree\<close>: identifiers for names, strings without
  quotes, whole numbers of at most six digits, arrays of 2 to 31 elements that are not all numbers) is
  written by \<open>ts_text_save\<close> as its text \<open>text_of\<close>, and \<open>ts_text_load\<close> builds the same tree from this
  text.
\<close>

section \<open>Texts\<close>

datatype aval = VStr string | VNum int | VArr "aval list"

datatype ttree = TNode string "(string \<times> aval) list" "ttree list"

text \<open>The structure the parser makes of a value, and its text.\<close>

fun value_of :: "aval \<Rightarrow> ts_value" where
  "value_of (VStr s) = TsValue TS_STRING (Some s) 0 fzero None 0 None 0 False"
| "value_of (VNum n) = TsValue TS_NUMBER (Some (int_str n)) n (Flt (n < 0) (of_int \<bar>n\<bar>)) None 0 None 0 False"
| "value_of (VArr l) = TsValue TS_ARRAY None 0 fzero None 0 (Some (map copy_of (map value_of l))) (length l) False"

fun show_val :: "aval \<Rightarrow> string" where
  "show_val (VStr s) = DQUOTE # s @ [DQUOTE]"
| "show_val (VNum n) = int_str n"
| "show_val (VArr l) = ''['' @ sep_list (map show_val l) @ '']''"

definition is_num :: "aval \<Rightarrow> bool" where
  "is_num w \<longleftrightarrow> (case w of VNum n \<Rightarrow> True | _ \<Rightarrow> False)"

fun printable_val :: "aval \<Rightarrow> bool" where
  "printable_val (VStr s) \<longleftrightarrow> DQUOTE \<notin> set s \<and> NUL \<notin> set s"
| "printable_val (VNum n) \<longleftrightarrow> \<bar>n\<bar> < 1000000"
| "printable_val (VArr l) \<longleftrightarrow> 2 \<le> length l \<and> length l \<le> 31 \<and> \<not> list_all is_num l \<and> (\<forall>w \<in> set l. printable_val w)"

definition idchar :: "char \<Rightarrow> bool" where
  "idchar c \<longleftrightarrow> isalnum c \<or> c = CHR ''_''"

definition ident_ok :: "string \<Rightarrow> bool" where
  "ident_ok s \<longleftrightarrow> s \<noteq> [] \<and> isalpha (hd s) \<and> list_all idchar s"

definition attr_text :: "nat \<Rightarrow> string \<times> aval \<Rightarrow> string" where
  "attr_text lvl = (\<lambda>(nm, w). indent (lvl + 1) @ nm @ '' = '' @ show_val w @ [LF])"

fun text_of :: "nat \<Rightarrow> ttree \<Rightarrow> string" where
  "text_of lvl (TNode nm ats ks) =
     indent lvl @ nm @ '' {'' @ [LF] @ concat (map (attr_text lvl) ats) @ concat (map (text_of (lvl + 1)) ks)
     @ indent lvl @ ''}'' @ [LF]"

fun printable :: "ttree \<Rightarrow> bool" where
  "printable (TNode nm ats ks) \<longleftrightarrow>
     ident_ok nm \<and> (\<forall>(n, w) \<in> set ats. ident_ok n \<and> printable_val w) \<and> (\<forall>k \<in> set ks. printable k)"

text \<open>A tree without its addresses.\<close>

datatype vtree = VNode "string option" "(string \<times> ts_value) list" "vtree list"

fun erase :: "atree \<Rightarrow> vtree" where
  "erase (ANode a nm ats ks) = VNode nm (map snd ats) (map erase ks)"

fun tree_of :: "ttree \<Rightarrow> vtree" where
  "tree_of (TNode nm ats ks) = VNode (Some nm) (map (\<lambda>(n, w). (n, value_of w)) ats) (map tree_of ks)"

section \<open>Values\<close>

lemma value_of_type: "v_type (value_of w) = TS_NUMBER \<longleftrightarrow> is_num w"
  by (cases w) (auto simp: is_num_def)

lemma wf_value_of: "wf_value (value_of w)"
  by (induction w) (auto intro!: wf_copy_of)

lemma copy_of_idem [simp]: "copy_of (copy_of v) = copy_of v"
proof (induction v)
  case (TsValue ty str inum fnum vec vsz arr asz freed)
  then show ?case by (cases arr) auto
qed

lemma copy_of_value_of: "printable_val w \<Longrightarrow> copy_of (value_of w) = value_of w"
  by (cases w) auto

lemma value_of_VArr:
  assumes "printable_val (VArr l)"
  shows "value_of (VArr l) = TsValue TS_ARRAY None 0 fzero None 0 (Some (map value_of l)) (length l) False"
  using assms by (simp add: copy_of_value_of)

lemma set_number_exact:
  assumes "\<bar>n\<bar> < 1000000"
  shows "ts_set_valuef ts_init_value (to_float (atof (int_str n))) [] = (0, value_of (VNum n), [])"
proof -
  have "float_to_int (Flt (n < 0) (of_int \<bar>n\<bar>)) = n"
    using assms by (auto simp: float_to_int_def Let_def)
  then show ?thesis
    using number_roundtrip [OF assms]
    by (simp add: ts_set_valuef_def make_floatstr_def make_str_def set_number_def ts_init_value_def)
qed

lemma set_str_exact: "ts_set_value_str ts_init_value s [] = Inr (0, value_of (VStr s), [])"
  by (simp add: ts_set_value_str_def make_str_def ts_init_value_def)

lemma set_array_exact:
  assumes "printable_val (VArr l)"
  shows "ts_set_value_arr ts_init_value (map value_of l) [] = Inr (0, value_of (VArr l), [])"
proof -
  have "\<not> list_all (\<lambda>a. v_type a = TS_NUMBER) (map value_of l)"
    using assms by (auto simp: list_all_iff value_of_type)
  then show ?thesis
    using set_value_arr_exact [of "map value_of l"] assms by (simp add: wf_value_of)
qed

lemma destroy_values: "destroy_all (map value_of l) = Inr ()"
  by (rule destroy_wf) (simp add: wf_value_of)

lemma print_value_of: "printable_val w \<Longrightarrow> print_value (value_of w) = Inr (show_val w)"
proof (induction w)
  case (VNum n)
  then have "fmt_g (Flt (n < 0) (of_int \<bar>n\<bar>)) = int_str n"
    using number_roundtrip [of n] by simp
  then show ?case by simp
next
  case (VArr l)
  have "print_all (length k) (map value_of k) = Inr (map show_val k)" if "set k \<subseteq> set l" for k
    using that VArr by (induction k) auto
  from this [OF order_refl] show ?case
    unfolding value_of_VArr [OF VArr.prems] using VArr.prems by auto
qed simp

section \<open>Tokens\<close>

text \<open>\<open>reads p ty s r\<close>: the next token is \<open>s\<close>, of this type, and \<open>r\<close> is left of the file.\<close>

definition reads :: "parser \<Rightarrow> toktype \<Rightarrow> string \<Rightarrow> string \<Rightarrow> bool" where
  "reads p ty s r \<longleftrightarrow> (\<exists>p'. next_token p = (Some ty, p') \<and> p_in p' = r \<and> tk (p_token p') s)"

abbreviation white :: "string \<Rightarrow> bool" where
  "white \<equiv> list_all isspace"

lemma isspace_blank [simp]: "isspace LF" "isspace CHR '' ''"
  by (simp_all add: isspace_def ccode_def)

lemma white_indent [simp]: "white (indent n)"
  by (simp add: indent_def list_all_iff isspace_def ccode_def)

lemma skip_ws_white: "white w \<Longrightarrow> \<exists>n'. skip_ws False (w @ s) n = skip_ws False s n'"
proof (induction w arbitrary: n)
  case (Cons c w)
  have "c \<noteq> CHR ''#''" using Cons.prems by (auto simp: isspace_def ccode_def)
  then show ?case using Cons by auto
qed auto

lemma skip_ws_first:
  assumes "p_in p = w @ c # r" "white w" "\<not> isspace c" "c \<noteq> CHR ''#''"
  shows "\<exists>n. skip_ws False (p_in p) (p_nline p) = (Some c, r, n)"
  using skip_ws_white [OF assms(2), of "c # r" "p_nline p"] assms by auto

lemma num_loop_exact:
  "list_all isdigit u \<Longrightarrow> r = [] \<or> \<not> isdigit (hd r) \<and> hd r \<noteq> CHR ''.'' \<Longrightarrow> tk d w \<Longrightarrow>
    \<exists>d'. num_loop f (u @ r) d = (r, d') \<and> tk d' (w @ u)"
proof (induction u arbitrary: d w f)
  case Nil
  then show ?case by (cases r) auto
next
  case (Cons c u)
  then show ?case using Cons.IH [of "darr_strpush d c" "w @ [c]"] tk_push [of d w c] by auto
qed

lemma id_loop_exact:
  "list_all idchar u \<Longrightarrow> r = [] \<or> \<not> idchar (hd r) \<Longrightarrow> tk d w \<Longrightarrow>
    \<exists>d'. id_loop (u @ r) d = (r, d') \<and> tk d' (w @ u)"
proof (induction u arbitrary: d w)
  case Nil
  then show ?case by (cases r) (auto simp: idchar_def)
next
  case (Cons c u)
  then show ?case using Cons.IH [of "darr_strpush d c" "w @ [c]"] tk_push [of d w c] by (auto simp: idchar_def)
qed

lemma str_loop_exact:
  "DQUOTE \<notin> set u \<Longrightarrow> tk d w \<Longrightarrow> \<exists>d' n'. str_loop (u @ DQUOTE # r) d n = (True, r, d', n') \<and> tk d' (w @ u)"
proof (induction u arbitrary: d w n)
  case (Cons c u)
  then show ?case using Cons.IH [of "darr_strpush d c" "w @ [c]"] tk_push [of d w c] by auto
qed auto

lemma dec_str_split: "\<exists>c u. dec_str n = c # u \<and> isdigit c \<and> list_all isdigit u"
  using dec_str_digits [of n] by (cases "dec_str n") auto

lemma reads_num:
  assumes "p_in p = w @ int_str n @ r" "white w" "r = [] \<or> \<not> isdigit (hd r) \<and> hd r \<noteq> CHR ''.''"
  shows "reads p TOK_NUM (int_str n) r"
proof -
  obtain c u where cu: "int_str n = c # u" "isdigit c \<or> c = CHR ''-''" "list_all isdigit u"
    using dec_str_split [of "nat n"] dec_str_digits [of "nat (- n)"]
    by (cases "n < 0") (auto simp: int_str_def simp del: dec_str_nonempty)
  have "\<not> isspace c" "c \<noteq> CHR ''#''" using cu(2) by (auto simp: isspace_def isdigit_def ccode_def)
  then obtain k where k: "skip_ws False (p_in p) (p_nline p) = (Some c, u @ r, k)"
    using skip_ws_first [of p w c "u @ r"] assms cu by auto
  obtain d where "num_loop False (u @ r) (darr_strpush (darr_clear (p_token p)) c) = (r, d)" "tk d ([c] @ u)"
    using num_loop_exact [OF cu(3) assms(3) tk_first] by blast
  then show ?thesis using k cu by (auto simp: reads_def next_token_def)
qed

lemma reads_id:
  assumes "p_in p = w @ nm @ r" "white w" "ident_ok nm" "r = [] \<or> \<not> idchar (hd r)"
  shows "reads p TOK_ID nm r"
proof -
  obtain c u where cu: "nm = c # u" "isalpha c" "list_all idchar u"
    using assms(3) by (cases nm) (auto simp: ident_ok_def)
  have c: "\<not> isspace c" "c \<noteq> CHR ''#''" "\<not> isdigit c" "c \<noteq> CHR ''-''" "c \<noteq> CHR ''+''"
    using cu(2) by (auto simp: isspace_def isalpha_def isupper_def islower_def isdigit_def ccode_def)
  then obtain k where k: "skip_ws False (p_in p) (p_nline p) = (Some c, u @ r, k)"
    using skip_ws_first [of p w c "u @ r"] assms cu by auto
  obtain d where "id_loop (u @ r) (darr_strpush (darr_clear (p_token p)) c) = (r, d)" "tk d ([c] @ u)"
    using id_loop_exact [OF cu(3) assms(4) tk_first] by blast
  then show ?thesis using k cu c by (auto simp: reads_def next_token_def)
qed

lemma reads_str:
  assumes "p_in p = w @ DQUOTE # s @ DQUOTE # r" "white w" "DQUOTE \<notin> set s"
  shows "reads p TOK_STR s r"
proof -
  obtain k where k: "skip_ws False (p_in p) (p_nline p) = (Some DQUOTE, s @ DQUOTE # r, k)"
    using skip_ws_first [of p w DQUOTE "s @ DQUOTE # r"] assms by (auto simp: isspace_def ccode_def)
  have "tk (darr_strpop (darr_strpush (darr_clear (p_token p)) DQUOTE)) []"
    using tk_pop [of _ "[]" DQUOTE] tk_first [of "p_token p" DQUOTE] by simp
  from str_loop_exact [OF assms(3) this, of r k]
  obtain d k' where "str_loop (s @ DQUOTE # r) (darr_strpop (darr_strpush (darr_clear (p_token p)) DQUOTE)) k = (True, r, d, k')"
    "tk d s" by auto
  moreover have "\<not> isdigit DQUOTE" "\<not> isalpha DQUOTE"
    by (auto simp: isalpha_def isupper_def islower_def isdigit_def ccode_def)
  ultimately show ?thesis using k by (auto simp: reads_def next_token_def)
qed

lemma sym_chars: "\<forall>c \<in> set '',[]={}''. \<not> isspace c \<and> c \<noteq> CHR ''#'' \<and> \<not> isdigit c \<and> c \<noteq> CHR ''-''
    \<and> c \<noteq> CHR ''+'' \<and> \<not> isalpha c \<and> c \<noteq> DQUOTE"
  by code_simp

lemma reads_sym:
  assumes "p_in p = w @ c # r" "white w" "c \<in> set '',[]={}''"
  shows "reads p TOK_SYM [c] r"
proof -
  have c: "\<not> isspace c" "c \<noteq> CHR ''#''" "\<not> isdigit c" "c \<noteq> CHR ''-''" "c \<noteq> CHR ''+''" "\<not> isalpha c" "c \<noteq> DQUOTE"
    using bspec [OF sym_chars assms(3)] by (simp_all only: simp_thms)
  then obtain k where "skip_ws False (p_in p) (p_nline p) = (Some c, r, k)"
    using skip_ws_first [OF assms(1,2) c(1,2)] by blast
  then show ?thesis using c tk_first by (auto simp: reads_def next_token_def)
qed

lemma readsE:
  assumes "reads p ty s r"
  obtains p' where "next_token p = (Some ty, p')" "p_in p' = r" "tk (p_token p') s"
  using assms by (auto simp: reads_def)

section \<open>Reading values\<close>

text \<open>What may follow a value in the text.\<close>

definition stops :: "string \<Rightarrow> bool" where
  "stops r \<longleftrightarrow> r \<noteq> [] \<and> hd r \<in> {CHR '','', CHR '']'', LF}"

definition reads_value :: "aval \<Rightarrow> bool" where
  "reads_value w \<longleftrightarrow> (\<forall>(p :: parser) ws r. p_in p = ws @ show_val w @ r \<longrightarrow> white ws \<longrightarrow> stops r \<longrightarrow>
     (\<exists>ty p1. next_token p = (Some ty, p1) \<and> length (p_in p1) < length (p_in p) \<and>
       (\<forall>fuel. 3 * length (p_in p1) + 3 \<le> fuel \<longrightarrow>
         (\<exists>p2. read_value fuel ty p1 [] ts_init_value = Inr (0, value_of w, p2, []) \<and> p_in p2 = r))))"

lemma reads_valueE:
  assumes "reads_value w" "p_in (p :: parser) = ws @ show_val w @ r" "white ws" "stops r"
  obtains ty p1 where "next_token p = (Some ty, p1)" "length (p_in p1) < length (p_in p)"
    "\<And>fuel. 3 * length (p_in p1) + 3 \<le> fuel \<Longrightarrow>
       \<exists>p2. read_value fuel ty p1 [] ts_init_value = Inr (0, value_of w, p2, []) \<and> p_in p2 = r"
  using assms unfolding reads_value_def by blast

lemma stops_sep: "stops r \<Longrightarrow> r \<noteq> [] \<and> \<not> isdigit (hd r) \<and> hd r \<noteq> CHR ''.''"
  by (auto simp: stops_def isdigit_def ccode_def)

lemma cstr_id: "NUL \<notin> set s \<Longrightarrow> cstr s = s"
  by (auto simp: cstr_def takeWhile_eq_all_conv)

lemma int_str_no_NUL: "NUL \<notin> set (int_str n)"
proof -
  have "\<not> isdigit NUL" by (simp add: isdigit_def ccode_def)
  then have "NUL \<notin> set (dec_str k)" for k using dec_str_digits [of k] by (auto simp: list_all_iff)
  then show ?thesis by (auto simp: int_str_def)
qed

lemma loop_exact:
  assumes "\<forall>w \<in> set l. reads_value w" "l \<noteq> []" "length acc + length l \<le> 31"
    "p_in p = ws @ sep_list (map show_val l) @ CHR '']'' # r" "white ws" "3 * length (p_in p) + 1 \<le> fuel"
  shows "\<exists>p'. array_loop fuel CHR '']'' p [] acc = Inr (True, acc @ map value_of l, p', []) \<and> p_in p' = r"
  using assms
proof (induction l arbitrary: acc p ws fuel)
  case (Cons w l)
  let ?tail = "if l = [] then CHR '']'' # r else CHR '','' # '' '' @ sep_list (map show_val l) @ CHR '']'' # r"
  have pin: "p_in p = ws @ show_val w @ ?tail" using Cons.prems(4) by (cases l) auto
  obtain f where f: "fuel = Suc f" using Cons.prems(6) by (cases fuel) auto
  have "stops ?tail" by (simp add: stops_def)
  from reads_valueE [OF _ pin Cons.prems(5) this]
  obtain ty p1 where p1: "next_token p = (Some ty, p1)" "length (p_in p1) < length (p_in p)"
    "\<And>fuel. 3 * length (p_in p1) + 3 \<le> fuel \<Longrightarrow>
       \<exists>p2. read_value fuel ty p1 [] ts_init_value = Inr (0, value_of w, p2, []) \<and> p_in p2 = ?tail"
    using Cons.prems(1) by (metis list.set_intros(1))
  have "3 * length (p_in p1) + 3 \<le> f" using p1(2) Cons.prems(6) f by simp
  from p1(3) [OF this] obtain p2 where p2: "read_value f ty p1 [] ts_init_value = Inr (0, value_of w, p2, [])" "p_in p2 = ?tail"
    by blast
  have acc: "length acc < 31" using Cons.prems(3) by simp
  show ?case
  proof (cases l)
    case Nil
    have "reads p2 TOK_SYM '']'' r" by (rule reads_sym [of _ "[]"]) (use p2(2) Nil in auto)
    then obtain p3 where "next_token p2 = (Some TOK_SYM, p3)" "p_in p3 = r" "tk (p_token p3) '']''" by (rule readsE)
    then show ?thesis using f p1 p2 acc Nil by (simp add: token_char_tk)
  next
    case (Cons v l')
    let ?r = "'' '' @ sep_list (map show_val l) @ CHR '']'' # r"
    have "reads p2 TOK_SYM '','' ?r" by (rule reads_sym [of _ "[]"]) (use p2(2) Cons in auto)
    then obtain p3 where p3: "next_token p2 = (Some TOK_SYM, p3)" "p_in p3 = ?r" "tk (p_token p3) '',''" by (rule readsE)
    have len: "length (p_in p3) < length (p_in p)" using p3(2) pin Cons by simp
    have "\<exists>p'. array_loop f CHR '']'' p3 [] (acc @ [value_of w])
        = Inr (True, (acc @ [value_of w]) @ map value_of l, p', []) \<and> p_in p' = r"
      by (rule Cons.IH [of _ _ "'' ''"])
        (use Cons.prems len f p3 Cons in \<open>auto simp: isspace_def\<close>)
    then show ?thesis using f p1 p2 p3 acc by (auto simp: token_char_tk)
  qed
qed simp

lemma reads_printable: "printable_val w \<Longrightarrow> reads_value w"
proof (induction w)
  case (VStr s)
  show ?case
    unfolding reads_value_def
  proof (intro allI impI)
    fix p :: parser and ws r
    assume p: "p_in p = ws @ show_val (VStr s) @ r" "white ws" "stops r"
    have "reads p TOK_STR s r" by (rule reads_str) (use p VStr in auto)
    then obtain p1 where p1: "next_token p = (Some TOK_STR, p1)" "p_in p1 = r" "tk (p_token p1) s" by (rule readsE)
    have "read_value (Suc f) TOK_STR p1 [] ts_init_value = Inr (0, value_of (VStr s), p1, [])" for f
      using VStr set_str_exact [of s] by (simp add: token_str_tk [OF p1(3)] cstr_id del: value_of.simps)
    then have "\<exists>p2. read_value fuel TOK_STR p1 [] ts_init_value = Inr (0, value_of (VStr s), p2, []) \<and> p_in p2 = r"
      if "3 * length (p_in p1) + 3 \<le> fuel" for fuel using that p1(2) by (cases fuel) auto
    then show "\<exists>ty p1. next_token p = (Some ty, p1) \<and> length (p_in p1) < length (p_in p) \<and>
       (\<forall>fuel. 3 * length (p_in p1) + 3 \<le> fuel \<longrightarrow>
         (\<exists>p2. read_value fuel ty p1 [] ts_init_value = Inr (0, value_of (VStr s), p2, []) \<and> p_in p2 = r))"
      using p1 next_token_tk(2) [OF p1(1)] by blast
  qed
next
  case (VNum n)
  show ?case
    unfolding reads_value_def
  proof (intro allI impI)
    fix p :: parser and ws r
    assume p: "p_in p = ws @ show_val (VNum n) @ r" "white ws" "stops r"
    have "reads p TOK_NUM (int_str n) r" by (rule reads_num) (use p stops_sep in auto)
    then obtain p1 where p1: "next_token p = (Some TOK_NUM, p1)" "p_in p1 = r" "tk (p_token p1) (int_str n)" by (rule readsE)
    have "read_value (Suc f) TOK_NUM p1 [] ts_init_value = Inr (0, value_of (VNum n), p1, [])" for f
      using VNum set_number_exact [of n]
      by (simp add: token_str_tk [OF p1(3)] cstr_id int_str_no_NUL del: value_of.simps)
    then have "\<exists>p2. read_value fuel TOK_NUM p1 [] ts_init_value = Inr (0, value_of (VNum n), p2, []) \<and> p_in p2 = r"
      if "3 * length (p_in p1) + 3 \<le> fuel" for fuel using that p1(2) by (cases fuel) auto
    then show "\<exists>ty p1. next_token p = (Some ty, p1) \<and> length (p_in p1) < length (p_in p) \<and>
       (\<forall>fuel. 3 * length (p_in p1) + 3 \<le> fuel \<longrightarrow>
         (\<exists>p2. read_value fuel ty p1 [] ts_init_value = Inr (0, value_of (VNum n), p2, []) \<and> p_in p2 = r))"
      using p1 next_token_tk(2) [OF p1(1)] by blast
  qed
next
  case (VArr l)
  have l: "l \<noteq> []" "length l \<le> 31" "\<forall>w \<in> set l. reads_value w" using VArr by auto
  have "char_of (ccode CHR ''['' + 2) = CHR '']''" by code_simp
  then have close: "char_of (Suc (Suc (ccode CHR ''['')))  = CHR '']''" by simp
  show ?case
    unfolding reads_value_def
  proof (intro allI impI)
    fix p :: parser and ws r
    assume p: "p_in p = ws @ show_val (VArr l) @ r" "white ws" "stops r"
    let ?r = "sep_list (map show_val l) @ CHR '']'' # r"
    have "reads p TOK_SYM ''['' ?r" by (rule reads_sym) (use p in auto)
    then obtain p1 where p1: "next_token p = (Some TOK_SYM, p1)" "p_in p1 = ?r" "tk (p_token p1) ''[''" by (rule readsE)
    have "\<exists>p2. read_value fuel TOK_SYM p1 [] ts_init_value = Inr (0, value_of (VArr l), p2, []) \<and> p_in p2 = r"
      if fu: "3 * length (p_in p1) + 3 \<le> fuel" for fuel
    proof -
      obtain f where f: "fuel = Suc (Suc f)" using fu by (cases fuel; cases "fuel - 1") auto
      obtain p2 where "array_loop f CHR '']'' p1 [] [] = Inr (True, map value_of l, p2, [])" "p_in p2 = r"
        using loop_exact [OF l(3,1), of "[]" p1 "[]" r f] l(2) p1(2) fu f by auto
      moreover have "map value_of l \<noteq> []" using l by simp
      ultimately show ?thesis
        using f set_array_exact [OF VArr.prems]
        by (simp add: token_char_tk [OF p1(3)] close destroy_values del: value_of.simps)
    qed
    then show "\<exists>ty p1. next_token p = (Some ty, p1) \<and> length (p_in p1) < length (p_in p) \<and>
       (\<forall>fuel. 3 * length (p_in p1) + 3 \<le> fuel \<longrightarrow>
         (\<exists>p2. read_value fuel ty p1 [] ts_init_value = Inr (0, value_of (VArr l), p2, []) \<and> p_in p2 = r))"
      using p1 next_token_tk(2) [OF p1(1)] by blast
  qed
qed

section \<open>Reading nodes\<close>

text \<open>The tree at \<open>a\<close> has grown, into addresses that were free.\<close>

definition grown :: "tstore \<Rightarrow> tstore \<Rightarrow> nat \<Rightarrow> (nat \<times> string \<times> ts_value) list \<Rightarrow> atree list \<Rightarrow>
    (nat \<times> string \<times> ts_value) list \<Rightarrow> atree list \<Rightarrow> bool" where
  "grown st st' a ats ks ats' ks' \<longleftrightarrow> good st' (ANode a None ats' ks') \<and> ts_mem st' = []
     \<and> keeps (node_of a ats ks) (attr_of a ats ks) st st'
     \<and> node_of a ats' ks' \<subseteq> node_of a ats ks \<union> {ts_brk st..} \<and> attr_of a ats' ks' \<subseteq> attr_of a ats ks \<union> {ts_brk st..}"

lemma grown_refl: "good st (ANode a None ats ks) \<Longrightarrow> ts_mem st = [] \<Longrightarrow> grown st st a ats ks ats ks"
  by (auto simp: grown_def)

lemma grown_trans:
  assumes "grown st st1 a ats ks ats1 ks1" "grown st1 st2 a ats1 ks1 ats2 ks2"
  shows "grown st st2 a ats ks ats2 ks2"
proof -
  have b: "{ts_brk st1..} \<subseteq> {ts_brk st..}" using assms(1) by (auto simp: grown_def keeps_def)
  show ?thesis
    using assms sub_Un [OF _ _ b, of _ "node_of a ats1 ks1"] sub_Un [OF _ _ b, of _ "attr_of a ats1 ks1"]
      keeps_trans [of "node_of a ats ks" "attr_of a ats ks" st st1 "node_of a ats1 ks1" "attr_of a ats1 ks1" st2]
    unfolding grown_def by blast
qed

lemma ts_malloc_Nil: "ts_mem st = [] \<Longrightarrow> ts_malloc st = (True, st)"
  by (cases st) (simp add: ts_malloc_def)

lemma read_attr_exact:
  assumes g: "good st (ANode a None ats ks)" "ts_mem st = []" and w: "printable_val w"
    and p: "p_in p = ws @ show_val w @ r" "white ws" "stops r" "3 * length (p_in p) \<le> fuel"
  shows "\<exists>p' st'. read_attr fuel a nm p st = Inr (True, p', st') \<and> p_in p' = r
    \<and> grown st st' a ats ks (ats @ [(ts_brk st, nm, value_of w)]) ks"
proof -
  let ?x = "ts_brk st"
  define st1 where "st1 = put_attr ?x ts_init_attr (st\<lparr>ts_brk := ?x + 1\<rparr>)"
  have alloc: "ts_alloc_attr st = (Some ?x, st1)"
    using g(2) by (simp add: ts_alloc_attr_def ts_malloc_Nil st1_def)
  obtain ty p1 where p1: "next_token p = (Some ty, p1)" "length (p_in p1) < length (p_in p)"
    "\<And>fuel. 3 * length (p_in p1) + 3 \<le> fuel \<Longrightarrow>
       \<exists>p2. read_value fuel ty p1 [] ts_init_value = Inr (0, value_of w, p2, []) \<and> p_in p2 = r"
    using reads_valueE [OF reads_printable [OF w] p(1-3)] by metis
  have "3 * length (p_in p1) + 3 \<le> fuel" using p1(2) p(4) by simp
  from p1(3) [OF this] obtain p2 where p2: "read_value fuel ty p1 [] ts_init_value = Inr (0, value_of w, p2, [])" "p_in p2 = r"
    by blast
  define st2 where "st2 = put_attr ?x \<lparr>a_name = None, a_val = value_of w, a_next = None, a_freed = False\<rparr> (st1\<lparr>ts_mem := []\<rparr>)"
  have x1: "ts_attrs st1 ?x = Some ts_init_attr" "ts_mem st1 = []" using g(2) by (simp_all add: st1_def)
  have u: "upd_attr (Some ?x) (\<lambda>x. x\<lparr>a_val := value_of w\<rparr>) (st1\<lparr>ts_mem := []\<rparr>) = Inr st2"
    using x1 by (simp add: upd_attr_def st2_def ts_init_attr_def del: value_of.simps)
  have "\<exists>st'. bindE (upd_attr (Some ?x) (\<lambda>x. x\<lparr>a_name := Some nm\<rparr>) st2) (ts_add_attr a ?x) = Inr st'
    \<and> good st' (ANode a None (ats @ [(?x, nm, value_of w)]) ks) \<and> ts_brk st' = ?x + 1
    \<and> ts_mem st' = ts_mem st2 \<and> keeps {a} (fst ` set ats) st st'"
    by (rule attach_attr [OF g(1) wf_value_of]) (auto simp: st2_def st1_def)
  then obtain st' where st': "bindE (upd_attr (Some ?x) (\<lambda>x. x\<lparr>a_name := Some nm\<rparr>) st2) (ts_add_attr a ?x) = Inr st'"
    "good st' (ANode a None (ats @ [(?x, nm, value_of w)]) ks)" "ts_mem st' = []" "keeps {a} (fst ` set ats) st st'"
    by (auto simp: st2_def)
  have "read_attr fuel a nm p st = bindE (bindE (upd_attr (Some ?x) (\<lambda>x. x\<lparr>a_name := Some nm\<rparr>) st2) (ts_add_attr a ?x))
      (\<lambda>st. Inr (True, p2, st))"
    using alloc p1(1) p2(1) x1 u by (simp add: read_attr_def ts_init_attr_def bindE_assoc del: value_of.simps)
  moreover have "keeps (node_of a ats ks) (attr_of a ats ks) st st'" by (rule keeps_mono [OF st'(4)]) auto
  ultimately show ?thesis
    using p2(2) st' by (auto simp: grown_def simp del: value_of.simps)
qed

lemma loop_attr:
  assumes g: "good st (ANode a None ats ks)" "ts_mem st = []" and w: "printable_val w" "ident_ok nm" "NUL \<notin> set nm"
    and p: "p_in p = ws @ nm @ '' = '' @ show_val w @ r" "white ws" "stops r" "3 * length (p_in p) + 1 \<le> Suc fuel"
  shows "\<exists>p' st'. node_loop (Suc fuel) a p st = node_loop fuel a p' st' \<and> p_in p' = r
    \<and> grown st st' a ats ks (ats @ [(ts_brk st, nm, value_of w)]) ks"
proof -
  have "reads p TOK_ID nm ('' = '' @ show_val w @ r)"
    by (rule reads_id [OF p(1,2) w(2)]) (simp add: idchar_def isalnum_def isalpha_def isupper_def islower_def isdigit_def ccode_def)
  then obtain p1 where p1: "next_token p = (Some TOK_ID, p1)" "p_in p1 = '' = '' @ show_val w @ r" "tk (p_token p1) nm" by (rule readsE)
  have "reads p1 TOK_SYM ''='' ('' '' @ show_val w @ r)"
    by (rule reads_sym [of _ "'' ''"]) (use p1(2) in \<open>auto simp: isspace_def\<close>)
  then obtain p2 where p2: "next_token p1 = (Some TOK_SYM, p2)" "p_in p2 = '' '' @ show_val w @ r" "tk (p_token p2) ''=''" by (rule readsE)
  have "3 * length (p_in p2) \<le> fuel" using p(1,4) p2(2) by simp
  from read_attr_exact [OF g w(1) p2(2) _ p(3) this, of nm]
  obtain p' st' where "read_attr fuel a nm p2 st = Inr (True, p', st')" "p_in p' = r"
    "grown st st' a ats ks (ats @ [(ts_brk st, nm, value_of w)]) ks" by (auto simp: isspace_def)
  then show ?thesis
    using p1 p2 by (auto simp: token_str_tk [OF p1(3)] token_char_tk [OF p2(3)] cstr_id w(3) ts_malloc_Nil g(2))
qed

lemma loop_child:
  assumes g: "good st (ANode a None ats ks)" "ts_mem st = []" and nm: "ident_ok nm" "NUL \<notin> set nm"
    and p: "p_in p = ws @ nm @ '' {'' @ r" "white ws"
    and child: "\<And>p' :: parser. p_in p' = r \<Longrightarrow> \<exists>p3 st3 b cats cks. read_node fuel p' st = Inr (Some b, p3, st3)
        \<and> p_in p3 = r' \<and> grown st st3 b [] [] cats cks \<and> ts_brk st \<le> b \<and> Q cats cks"
  shows "\<exists>p' st' b cats cks. node_loop (Suc fuel) a p st = node_loop fuel a p' st' \<and> p_in p' = r'
    \<and> grown st st' a ats ks ats (ks @ [ANode b (Some nm) cats cks]) \<and> Q cats cks"
proof -
  have "reads p TOK_ID nm ('' {'' @ r)"
    by (rule reads_id [OF p(1,2) nm(1)]) (simp add: idchar_def isalnum_def isalpha_def isupper_def islower_def isdigit_def ccode_def)
  then obtain p1 where p1: "next_token p = (Some TOK_ID, p1)" "p_in p1 = '' {'' @ r" "tk (p_token p1) nm" by (rule readsE)
  have "reads p1 TOK_SYM ''{'' r"
    by (rule reads_sym [of _ "'' ''"]) (use p1(2) in \<open>auto simp: isspace_def\<close>)
  then obtain p2 where p2: "next_token p1 = (Some TOK_SYM, p2)" "p_in p2 = r" "tk (p_token p2) ''{''" by (rule readsE)
  obtain p3 st3 b cats cks where c: "read_node fuel p2 st = Inr (Some b, p3, st3)" "p_in p3 = r'"
    "grown st st3 b [] [] cats cks" "ts_brk st \<le> b" "Q cats cks" using child [OF p2(2)] by blast
  have fresh: "node_of b cats cks \<subseteq> {ts_brk st..}" "attr_of b cats cks \<subseteq> {ts_brk st..}"
    using c(3,4) by (auto simp: grown_def)
  have k3: "keeps {b} {} st st3" and m3: "ts_mem st3 = []" and gc: "good st3 (ANode b None cats cks)"
    using c(3) by (auto simp: grown_def)
  have bn: "b \<notin> node_of a ats ks" using good_bounds [OF g(1)] c(4) by fastforce
  have g3: "good st3 (ANode a None ats ks)" by (rule good_keeps [OF g(1) k3]) (use bn in auto)
  have disj: "node_of a ats ks \<inter> node_of b cats cks = {}" "attr_of a ats ks \<inter> attr_of b cats cks = {}"
    using good_bounds [OF g(1)] fresh by fastforce+
  obtain st4 where st4: "bindE (upd_node (Some b) (\<lambda>n. n\<lparr>n_name := Some nm\<rparr>) st3) (ts_add_child a b) = Inr st4"
    "good st4 (ANode a None ats (ks @ [ANode b (Some nm) cats cks]))" "ts_brk st4 = ts_brk st3" "ts_mem st4 = ts_mem st3"
    "keeps (node_of a ats ks \<union> node_of b cats cks) {} st3 st4"
    using attach_child [OF g3 gc disj, of nm] by auto
  have "keeps (node_of a ats ks) (attr_of a ats ks) st st3"
    by (rule keeps_trans [OF keeps_refl k3]) (use c(4) in auto)
  then have "keeps (node_of a ats ks) (attr_of a ats ks) st st4"
    by (rule keeps_trans [OF _ st4(5)]) (use fresh(1) in auto)
  then have "grown st st4 a ats ks ats (ks @ [ANode b (Some nm) cats cks])"
    using st4 m3 fresh by (auto simp: grown_def)
  moreover have "node_loop (Suc fuel) a p st = node_loop fuel a p3 st4"
    using p1 p2 c(1) st4(1)
    by (simp add: token_str_tk [OF p1(3)] token_char_tk [OF p2(3)] cstr_id nm(2) ts_malloc_Nil g(2) bindE_assoc [symmetric])
  ultimately show ?thesis using c(2,5) by blast
qed

lemma loop_end:
  assumes "p_in p = ws @ CHR ''}'' # r" "white ws"
  shows "\<exists>p'. node_loop (Suc fuel) a p st = Inr (Some a, p', st) \<and> p_in p' = r"
proof -
  have "reads p TOK_SYM ''}'' r" by (rule reads_sym [OF assms]) simp
  then obtain p1 where "next_token p = (Some TOK_SYM, p1)" "p_in p1 = r" "tk (p_token p1) ''}''" by (rule readsE)
  then show ?thesis by (simp add: token_char_tk)
qed

lemma ident_no_NUL: "ident_ok nm \<Longrightarrow> NUL \<notin> set nm"
proof -
  have "\<not> idchar NUL" by (simp add: idchar_def isalnum_def isalpha_def isupper_def islower_def isdigit_def ccode_def)
  then show "ident_ok nm \<Longrightarrow> NUL \<notin> set nm" by (auto simp: ident_ok_def list_all_iff)
qed

lemma attrs_exact:
  assumes "good st (ANode a None ats ks)" "ts_mem st = []" "\<forall>(n, w) \<in> set l. ident_ok n \<and> printable_val w"
    "p_in p = ws @ concat (map (attr_text lvl) l) @ r" "white ws" "3 * length (p_in p) + 1 \<le> fuel"
  shows "\<exists>p' st' fuel' ws' new. node_loop fuel a p st = node_loop fuel' a p' st' \<and> p_in p' = ws' @ r \<and> white ws'
    \<and> 3 * length (p_in p') + 1 \<le> fuel' \<and> grown st st' a ats ks (ats @ new) ks
    \<and> map snd new = map (\<lambda>(n, w). (n, value_of w)) l"
  using assms
proof (induction l arbitrary: st ats p ws fuel)
  case Nil
  show ?case
    by (intro exI [of _ p] exI [of _ st] exI [of _ fuel] exI [of _ ws] exI [of _ "[]"])
      (use Nil grown_refl in auto)
next
  case (Cons x l)
  obtain nm w where x: "x = (nm, w)" by (cases x)
  obtain f where f: "fuel = Suc f" using Cons.prems(6) by (cases fuel) auto
  let ?r = "LF # concat (map (attr_text lvl) l) @ r"
  have ok: "printable_val w" "ident_ok nm" using Cons.prems(3) x by auto
  have pin: "p_in p = (ws @ indent (lvl + 1)) @ nm @ '' = '' @ show_val w @ ?r"
    using Cons.prems(4) x by (simp add: attr_text_def)
  obtain p1 st1 where p1: "node_loop (Suc f) a p st = node_loop f a p1 st1" "p_in p1 = ?r"
    "grown st st1 a ats ks (ats @ [(ts_brk st, nm, value_of w)]) ks"
    using loop_attr [OF Cons.prems(1,2) ok ident_no_NUL [OF ok(2)] pin, where fuel = f] Cons.prems(5,6) f
    by (auto simp: stops_def simp del: node_loop.simps value_of.simps)
  have g1: "good st1 (ANode a None (ats @ [(ts_brk st, nm, value_of w)]) ks)" "ts_mem st1 = []"
    using p1(3) by (auto simp: grown_def)
  have "3 * length (p_in p1) + 1 \<le> f" using p1(2) pin Cons.prems(6) f by simp
  from Cons.IH [OF g1 _ _ _ this, of "[LF]"]
  obtain p' st' fuel' ws' new where IH: "node_loop f a p1 st1 = node_loop fuel' a p' st'" "p_in p' = ws' @ r" "white ws'"
    "3 * length (p_in p') + 1 \<le> fuel'" "grown st1 st' a (ats @ [(ts_brk st, nm, value_of w)]) ks
       ((ats @ [(ts_brk st, nm, value_of w)]) @ new) ks" "map snd new = map (\<lambda>(n, w). (n, value_of w)) l"
    using Cons.prems(3) p1(2) by (auto simp del: node_loop.simps value_of.simps)
  show ?case
    by (intro exI [of _ p'] exI [of _ st'] exI [of _ fuel'] exI [of _ ws'] exI [of _ "(ts_brk st, nm, value_of w) # new"])
      (use IH p1 f x grown_trans [OF p1(3) IH(5)] in \<open>simp del: node_loop.simps value_of.simps\<close>)
qed

text \<open>A node is read from what stands behind its opening brace.\<close>

definition reads_node :: "ttree \<Rightarrow> bool" where
  "reads_node T \<longleftrightarrow> (\<forall>nm ats ks lvl p r (st :: tstore) fuel. T = TNode nm ats ks \<longrightarrow>
     p_in (p :: parser) = LF # concat (map (attr_text lvl) ats) @ concat (map (text_of (lvl + 1)) ks) @ indent lvl @ CHR ''}'' # r \<longrightarrow>
     0 < ts_brk st \<longrightarrow> ts_mem st = [] \<longrightarrow> 3 * length (p_in p) + 2 \<le> fuel \<longrightarrow>
     (\<exists>p' st' b cats cks. read_node fuel p st = Inr (Some b, p', st') \<and> p_in p' = r
        \<and> grown st st' b [] [] cats cks \<and> ts_brk st \<le> b
        \<and> map snd cats = map (\<lambda>(n, w). (n, value_of w)) ats \<and> map erase cks = map tree_of ks))"

lemma kids_exact:
  assumes "good st (ANode a None ats ks)" "ts_mem st = []" "\<forall>T \<in> set l. printable T \<and> reads_node T"
    "p_in p = ws @ concat (map (text_of lvl) l) @ r" "white ws" "3 * length (p_in p) + 1 \<le> fuel"
  shows "\<exists>p' st' fuel' ws' new. node_loop fuel a p st = node_loop fuel' a p' st' \<and> p_in p' = ws' @ r \<and> white ws'
    \<and> 3 * length (p_in p') + 1 \<le> fuel' \<and> grown st st' a ats ks ats (ks @ new) \<and> map erase new = map tree_of l"
  using assms
proof (induction l arbitrary: st ks p ws fuel)
  case Nil
  show ?case
    by (intro exI [of _ p] exI [of _ st] exI [of _ fuel] exI [of _ ws] exI [of _ "[]"])
      (use Nil grown_refl in auto)
next
  case (Cons T l)
  obtain nm tats tks where T: "T = TNode nm tats tks" by (cases T)
  obtain f where f: "fuel = Suc f" using Cons.prems(6) by (cases fuel) auto
  let ?r = "LF # concat (map (text_of lvl) l) @ r"
  let ?b = "LF # concat (map (attr_text lvl) tats) @ concat (map (text_of (lvl + 1)) tks) @ indent lvl @ CHR ''}'' # ?r"
  have ok: "ident_ok nm" and rn: "reads_node T" using Cons.prems(3) T by auto
  have pin: "p_in p = (ws @ indent lvl) @ nm @ '' {'' @ ?b"
    using Cons.prems(4) T by simp
  have st0: "0 < ts_brk st" using good_bounds [OF Cons.prems(1)] by auto
  have child: "\<exists>p3 st3 b cats cks. read_node f p' st = Inr (Some b, p3, st3) \<and> p_in p3 = ?r
      \<and> grown st st3 b [] [] cats cks \<and> ts_brk st \<le> b
      \<and> (map snd cats = map (\<lambda>(n, w). (n, value_of w)) tats \<and> map erase cks = map tree_of tks)" if "p_in p' = ?b" for p' :: parser
  proof -
    have "3 * length (p_in p') + 2 \<le> f" using that pin Cons.prems(6) f by simp
    then show ?thesis using rn that st0 Cons.prems(2) T unfolding reads_node_def by blast
  qed
  have "\<exists>p' st' b cats cks. node_loop (Suc f) a p st = node_loop f a p' st' \<and> p_in p' = ?r
    \<and> grown st st' a ats ks ats (ks @ [ANode b (Some nm) cats cks])
    \<and> (map snd cats = map (\<lambda>(n, w). (n, value_of w)) tats \<and> map erase cks = map tree_of tks)"
    using Cons.prems(5) by (intro loop_child [OF Cons.prems(1,2) ok ident_no_NUL [OF ok] pin _ child]) auto
  then obtain p1 st1 b cats cks where p1: "node_loop fuel a p st = node_loop f a p1 st1" "p_in p1 = ?r"
    "grown st st1 a ats ks ats (ks @ [ANode b (Some nm) cats cks])"
    "map snd cats = map (\<lambda>(n, w). (n, value_of w)) tats" "map erase cks = map tree_of tks" using f by blast
  have g1: "good st1 (ANode a None ats (ks @ [ANode b (Some nm) cats cks]))" "ts_mem st1 = []"
    using p1(3) by (auto simp: grown_def)
  have "3 * length (p_in p1) + 1 \<le> f" using p1(2) pin Cons.prems(6) f by simp
  from Cons.IH [OF g1 _ _ _ this, of "[LF]"]
  obtain p' st' fuel' ws' new where IH: "node_loop f a p1 st1 = node_loop fuel' a p' st'" "p_in p' = ws' @ r" "white ws'"
    "3 * length (p_in p') + 1 \<le> fuel'" "grown st1 st' a ats (ks @ [ANode b (Some nm) cats cks])
       ats ((ks @ [ANode b (Some nm) cats cks]) @ new)" "map erase new = map tree_of l"
    using Cons.prems(3) p1(2) by (auto simp del: node_loop.simps)
  show ?case
    by (intro exI [of _ p'] exI [of _ st'] exI [of _ fuel'] exI [of _ ws'] exI [of _ "ANode b (Some nm) cats cks # new"])
      (use IH p1 T grown_trans [OF p1(3) IH(5)] in \<open>simp del: node_loop.simps\<close>)
qed

lemma node_exact: "printable T \<Longrightarrow> reads_node T"
proof (induction T)
  case (TNode nm tats tks)
  have ok: "\<forall>(n, w) \<in> set tats. ident_ok n \<and> printable_val w" "\<forall>T \<in> set tks. printable T \<and> reads_node T"
    using TNode by auto
  show ?case
    unfolding reads_node_def
  proof (intro allI impI)
    fix nm' ats' ks' lvl p r and st :: tstore and fuel
    assume T: "TNode nm tats tks = TNode nm' ats' ks'"
      and p: "p_in (p :: parser) = LF # concat (map (attr_text lvl) ats') @ concat (map (text_of (lvl + 1)) ks') @ indent lvl @ CHR ''}'' # r"
      and st: "0 < ts_brk st" "ts_mem st = []" and fu: "3 * length (p_in p) + 2 \<le> fuel"
    obtain f where f: "fuel = Suc f" using fu by (cases fuel) auto
    let ?a = "ts_brk st"
    define st1 where "st1 = put_node ?a ts_init_node (st\<lparr>ts_brk := ?a + 1\<rparr>)"
    have alloc: "ts_alloc_node st = (Some ?a, st1)"
      using st by (simp add: ts_alloc_node_def ts_malloc_Nil st1_def)
    have g1: "good st1 (ANode ?a None [] [])" "ts_mem st1 = []"
      using st by (simp_all add: good_def tree_at_def tree_ok_def st1_def ts_init_node_def)
    have k1: "keeps {} {} st st1" by (auto simp: keeps_def st1_def)
    have "p_in p = [LF] @ concat (map (attr_text lvl) tats) @ concat (map (text_of (lvl + 1)) tks) @ indent lvl @ CHR ''}'' # r"
      "3 * length (p_in p) + 1 \<le> f" using p T fu f by auto
    from attrs_exact [OF g1 ok(1) this(1) _ this(2)]
    obtain p2 st2 f2 w2 new where s2: "node_loop f ?a p st1 = node_loop f2 ?a p2 st2"
      "p_in p2 = w2 @ concat (map (text_of (lvl + 1)) tks) @ indent lvl @ CHR ''}'' # r" "white w2"
      "3 * length (p_in p2) + 1 \<le> f2" "grown st1 st2 ?a [] [] new []" "map snd new = map (\<lambda>(n, w). (n, value_of w)) tats"
      by (auto simp del: node_loop.simps)
    have g2: "good st2 (ANode ?a None new [])" "ts_mem st2 = []" using s2(5) by (auto simp: grown_def)
    from kids_exact [OF g2 ok(2) s2(2-4)]
    obtain p3 st3 f3 w3 kids where s3: "node_loop f2 ?a p2 st2 = node_loop f3 ?a p3 st3"
      "p_in p3 = w3 @ indent lvl @ CHR ''}'' # r" "white w3" "3 * length (p_in p3) + 1 \<le> f3"
      "grown st2 st3 ?a new [] new kids" "map erase kids = map tree_of tks" by auto
    obtain f4 where f4: "f3 = Suc f4" using s3(4) by (cases f3) auto
    obtain p4 where "node_loop f3 ?a p3 st3 = Inr (Some ?a, p4, st3)" "p_in p4 = r"
      using loop_end [of p3 "w3 @ indent lvl" r f4 ?a st3] s3(2,3) f4 by auto
    then have run: "read_node fuel p st = Inr (Some ?a, p4, st3)" "p_in p4 = r"
      using f alloc s2(1) s3(1) by simp_all
    have gr: "grown st1 st3 ?a [] [] new kids" using grown_trans [OF s2(5) s3(5)] .
    have "keeps {?a} {} st st3"
      by (rule keeps_trans [OF keeps_mono [OF k1]]) (use gr in \<open>auto simp: grown_def\<close>)
    then have "grown st st3 ?a [] [] new kids"
      using gr by (auto simp: grown_def st1_def)
    then show "\<exists>p' st' b cats cks. read_node fuel p st = Inr (Some b, p', st') \<and> p_in p' = r
        \<and> grown st st' b [] [] cats cks \<and> ts_brk st \<le> b
        \<and> map snd cats = map (\<lambda>(n, w). (n, value_of w)) ats' \<and> map erase cks = map tree_of ks'"
      using run s2(6) s3(6) T by blast
  qed
qed

section \<open>Loading\<close>

lemma load_exact:
  assumes "printable T" "0 < ts_brk st" "ts_mem st = []"
  shows "\<exists>a st' t. ts_text_load (text_of lvl T) st = Inr (Some a, st') \<and> good st' t \<and> at_addr t = a
    \<and> erase t = tree_of T \<and> ts_mem st' = []"
proof -
  obtain nm ats ks where T: "T = TNode nm ats ks" by (cases T)
  let ?r = "LF # concat (map (attr_text lvl) ats) @ concat (map (text_of (lvl + 1)) ks) @ indent lvl @ CHR ''}'' # [LF]"
  let ?p = "\<lparr>p_in = text_of lvl T, p_nline = 0, p_token = darr_alloc 0 1\<rparr>"
  have nm: "ident_ok nm" using assms(1) T by simp
  have "reads ?p TOK_ID nm ('' {'' @ ?r)"
    by (rule reads_id [of _ "indent lvl"])
      (use T nm in \<open>simp_all add: idchar_def isalnum_def isalpha_def isupper_def islower_def isdigit_def ccode_def\<close>)
  then obtain p1 where p1: "next_token ?p = (Some TOK_ID, p1)" "p_in p1 = '' {'' @ ?r" "tk (p_token p1) nm" by (rule readsE)
  have "reads p1 TOK_SYM ''{'' ?r" by (rule reads_sym [of _ "'' ''"]) (use p1(2) in auto)
  then obtain p2 where p2: "next_token p1 = (Some TOK_SYM, p2)" "p_in p2 = ?r" "tk (p_token p2) ''{''" by (rule readsE)
  have "3 * length (p_in p2) + 2 \<le> load_fuel (text_of lvl T)" using p2(2) T by (simp add: load_fuel_def)
  then obtain p3 st3 b cats cks where c: "read_node (load_fuel (text_of lvl T)) p2 st = Inr (Some b, p3, st3)"
    "grown st st3 b [] [] cats cks" "map snd cats = map (\<lambda>(n, w). (n, value_of w)) ats" "map erase cks = map tree_of ks"
    using node_exact [OF assms(1)] assms(2,3) p2(2) T unfolding reads_node_def by blast
  have g: "good st3 (ANode b None cats cks)" "ts_mem st3 = []" using c(2) by (auto simp: grown_def)
  obtain st4 where st4: "upd_node (Some b) (\<lambda>n. n\<lparr>n_name := Some nm\<rparr>) st3 = Inr st4"
    "good st4 (ANode b (Some nm) cats cks)" "ts_mem st4 = []" using name_node [OF g(1), of nm] g(2) by auto
  have "ts_text_load (text_of lvl T) st = Inr (Some b, st4)"
    using p1(1) p2(1) c(1) st4(1) assms(3)
    by (simp add: ts_text_load_def token_str_tk [OF p1(3)] token_char_tk [OF p2(3)] cstr_id ident_no_NUL [OF nm] ts_malloc_Nil)
  moreover have "erase (ANode b (Some nm) cats cks) = tree_of T" using c(3,4) T by simp
  ultimately show ?thesis using st4 by (intro exI [of _ b] exI [of _ st4] exI [of _ "ANode b (Some nm) cats cks"]) auto
qed

section \<open>Saving\<close>

fun level_is :: "tstore \<Rightarrow> nat \<Rightarrow> nat \<Rightarrow> bool" where
  "level_is st a 0 \<longleftrightarrow> (\<exists>n. ts_nodes st a = Some n \<and> n_parent n = None)"
| "level_is st a (Suc d) \<longleftrightarrow> (\<exists>n p. ts_nodes st a = Some n \<and> n_parent n = Some p \<and> level_is st p d)"

lemma tree_level_is: "level_is st a d \<Longrightarrow> d < fuel \<Longrightarrow> tree_level fuel st a = Inr d"
proof (induction st a d arbitrary: fuel rule: level_is.induct)
  case (1 st a)
  then show ?case by (cases fuel) auto
next
  case (2 st a d)
  then show ?case by (cases fuel) auto
qed

lemma save_attrs_holds:
  assumes "holds_attrs st l None" "map snd l = map (\<lambda>(n, w). (n, value_of w)) ws" "\<forall>(n, w) \<in> set ws. printable_val w"
    "length l < fuel"
  shows "save_attrs fuel st (first_of fst l None) lvl = Inr (concat (map (attr_text lvl) ws))"
  using assms
proof (induction ws arbitrary: l fuel)
  case Nil
  then show ?case by (cases fuel) auto
next
  case (Cons x ws)
  obtain nm w where x: "x = (nm, w)" by (cases x)
  obtain a l' where l: "l = (a, nm, value_of w) # l'" using Cons.prems(2) x by (cases l) auto
  obtain f where f: "fuel = Suc f" using Cons.prems(4) by (cases fuel) auto
  have "print_value (value_of w) = Inr (show_val w)" using Cons.prems(3) x by (simp add: print_value_of)
  then show ?case
    using Cons.IH [of l' f] Cons.prems x l f by (simp add: print_attr_def need_def attr_text_def del: value_of.simps)
qed

lemma save_kids_holds:
  assumes "\<And>T t nxt fuel. T \<in> set l \<Longrightarrow> holds st (Some a) nxt t \<Longrightarrow> tree_ok st t \<Longrightarrow> level_is st (at_addr t) (Suc d) \<Longrightarrow>
      Suc d + length (node_addrs t) \<le> ts_brk st \<Longrightarrow> erase t = tree_of T \<Longrightarrow> 2 * length (node_addrs t) \<le> fuel \<Longrightarrow>
      ts_text_save fuel st (at_addr t) = Inr (text_of (Suc d) T)"
    and "holds_kids st (Some a) ks None" "tree_ok st (ANode a None [] ks)" "level_is st a d"
    and "d + 1 + length (concat (map node_addrs ks)) \<le> ts_brk st" "map erase ks = map tree_of l"
    and "1 + 2 * length (concat (map node_addrs ks)) \<le> fuel"
  shows "save_kids fuel st (first_of at_addr ks None) = Inr (concat (map (text_of (Suc d)) l))"
  using assms
proof (induction l arbitrary: ks fuel)
  case Nil
  then show ?case by (cases fuel) auto
next
  case (Cons T l)
  obtain k ks' where ks: "ks = k # ks'" "erase k = tree_of T" "map erase ks' = map tree_of l"
    using Cons.prems(6) by (cases ks) auto
  obtain f where f: "fuel = Suc f" using Cons.prems(7) by (cases fuel) auto
  let ?e = "first_of at_addr ks' None"
  have h: "holds st (Some a) ?e k" "holds_kids st (Some a) ks' None" using Cons.prems(2) ks by auto
  have ok: "tree_ok st k" "tree_ok st (ANode a None [] ks')" using Cons.prems(3) ks by (auto simp: tree_ok_def)
  obtain n where n: "ts_nodes st (at_addr k) = Some n" "n_parent n = Some a" "n_next n = ?e" using holds_node [OF h(1)] by auto
  have "level_is st (at_addr k) (Suc d)" using n Cons.prems(4) by auto
  then have "ts_text_save f st (at_addr k) = Inr (text_of (Suc d) T)"
    using Cons.prems(5,7) ks f by (intro Cons.prems(1) [OF _ h(1) ok(1)]) auto
  moreover have "0 < length (node_addrs k)" using addr_in_addrs [of k] by (cases "node_addrs k") auto
  then have "save_kids f st ?e = Inr (concat (map (text_of (Suc d)) l))"
    using Cons.prems(1,5,7) ks f by (intro Cons.IH [OF _ h(2) ok(2) Cons.prems(4)]) (auto simp del: length_greater_0_conv)
  ultimately show ?case using ks f n by simp
qed

lemma save_exact:
  assumes "holds st par nxt t" "tree_ok st t" "level_is st (at_addr t) d" "d + length (node_addrs t) \<le> ts_brk st"
    "erase t = tree_of T" "printable T" "2 * length (node_addrs t) \<le> fuel"
  shows "ts_text_save fuel st (at_addr t) = Inr (text_of d T)"
  using assms
proof (induction T arbitrary: t par nxt d fuel)
  case (TNode nm ats ks)
  obtain a tnm tats tks where t: "t = ANode a tnm tats tks" by (cases t)
  have e: "tnm = Some nm" "map snd tats = map (\<lambda>(n, w). (n, value_of w)) ats" "map erase tks = map tree_of ks"
    using TNode.prems(5) t by auto
  obtain f where f: "fuel = Suc f" using TNode.prems(7) t by (cases fuel) auto
  obtain n where n: "ts_nodes st a = Some n" "n_name n = Some nm" "n_attr_list n = first_of fst tats None"
      "n_child_list n = first_of at_addr tks None"
    and at: "holds_attrs st tats None" and kd: "holds_kids st (Some a) tks None"
    using TNode.prems(1) t e(1) by auto
  have lvl: "tree_level (ts_brk st + 1) st a = Inr d"
    using TNode.prems(3,4) t by (intro tree_level_is) auto
  have "distinct (map fst tats)" "set (map fst tats) \<subseteq> {0<..<ts_brk st}"
    using TNode.prems(2) t by (auto simp: tree_ok_def)
  then have "length tats < ts_brk st + 1" using length_addrs [of "map fst tats"] by simp
  moreover have "\<forall>(n, w) \<in> set ats. printable_val w" using TNode.prems(6) by auto
  ultimately have sa: "save_attrs (ts_brk st + 1) st (first_of fst tats None) d = Inr (concat (map (attr_text d) ats))"
    using at e(2) by (intro save_attrs_holds) auto
  have sk: "save_kids f st (first_of at_addr tks None) = Inr (concat (map (text_of (Suc d)) ks))"
  proof (rule save_kids_holds [OF _ kd])
    show "tree_ok st (ANode a None [] tks)" using TNode.prems(2) t by (auto simp: tree_ok_def)
    show "\<And>T t nxt fuel. T \<in> set ks \<Longrightarrow> holds st (Some a) nxt t \<Longrightarrow> tree_ok st t \<Longrightarrow> level_is st (at_addr t) (Suc d) \<Longrightarrow>
      Suc d + length (node_addrs t) \<le> ts_brk st \<Longrightarrow> erase t = tree_of T \<Longrightarrow> 2 * length (node_addrs t) \<le> fuel \<Longrightarrow>
      ts_text_save fuel st (at_addr t) = Inr (text_of (Suc d) T)"
      using TNode.IH TNode.prems(6) by auto
  qed (use TNode.prems t e f in auto)
  show ?case
    using f t n lvl sa sk by (simp add: need_def del: tree_level.simps save_attrs.simps save_kids.simps)
qed

text \<open>Both together.\<close>

lemma save_load:
  assumes "good st t" "erase t = tree_of T" "printable T" "ts_mem st0 = []" "0 < ts_brk st0"
  shows "\<exists>s a st' t'. ts_text_save (2 * ts_brk st) st (at_addr t) = Inr s \<and> ts_text_load s st0 = Inr (Some a, st')
    \<and> good st' t' \<and> at_addr t' = a \<and> erase t' = erase t"
proof -
  have h: "holds st None None t" "tree_ok st t" using assms(1) by (auto simp: good_def tree_at_def)
  have "length (node_addrs t) < ts_brk st + 1"
    using h(2) by (intro length_addrs) (auto simp: tree_ok_def)
  moreover have "level_is st (at_addr t) 0" using holds_node [OF h(1)] by auto
  ultimately have "ts_text_save (2 * ts_brk st) st (at_addr t) = Inr (text_of 0 T)"
    using assms h by (intro save_exact) auto
  then show ?thesis using load_exact [OF assms(3,5,4), of 0] assms(2) by metis
qed

end
