(* ===== verification/Servers.thy ===== *)
theory Servers
  imports Client Ts_Print
begin

text \<open>
  The list of servers (\<open>read_servers\<close> in \<open>src/main.c\<close>), which the program reads with the tree store, and the
  start of the program with it. The theorem of the theory: the file of a printable tree gives exactly
  the servers the tree describes, in their order, and all of the tree is freed.
\<close>

section \<open>Operations\<close>

definition server_entry :: "tstore \<Rightarrow> nat \<Rightarrow> server option res" where
  "server_entry st node =
     bindE (ts_get_attr_str st node ''name'' None) (\<lambda>name.
     case name of
       None \<Rightarrow> Inr None
     | Some name \<Rightarrow>
         bindE (ts_get_attr_str st node ''host'' None) (\<lambda>host.
         case host of
           None \<Rightarrow> Inr None
         | Some host \<Rightarrow>
             bindE (ts_get_attr_str st node ''user'' None) (\<lambda>user.
             bindE (ts_get_attr_str st node ''pass'' None) (\<lambda>pass.
             bindE (ts_get_attr_str st node ''dir'' None) (\<lambda>dir.
             Inr (Some \<lparr>srv_name = name, srv_host = host, srv_user = user, srv_pass = pass, srv_dir = dir\<rparr>))))))"

fun servers_loop :: "nat \<Rightarrow> tstore \<Rightarrow> nat option \<Rightarrow> server darr \<Rightarrow> server darr res" where
  "servers_loop 0 st node l = Inl NoReturn"
| "servers_loop (Suc fuel) st node l =
     (case node of
        None \<Rightarrow> Inr l
      | Some a \<Rightarrow>
          bindE (the_node st node) (\<lambda>n.
          case n_name n of
            None \<Rightarrow> Inl NullDeref
          | Some nm \<Rightarrow>
              bindE (if strcmp nm ''server'' = 0
                     then bindE (server_entry st a) (\<lambda>e.
                          Inr (case e of None \<Rightarrow> l | Some srv \<Rightarrow> darr_push l srv))
                     else Inr l) (\<lambda>l.
              servers_loop fuel st (n_next n) l)))"

text \<open>
  \<open>cfgdir\<close> is the value of the environment variable \<open>HOME\<close>, on DOS of \<open>VISFTP\<close>. The second result is
  \<open>srvlist\<close>, null when no list was read. The store is what is left of the heap of the tree.
\<close>

definition read_servers ::
  "string option \<Rightarrow> files \<Rightarrow> string \<Rightarrow> tstore \<Rightarrow> (int \<times> server darr option \<times> tstore) res" where
  "read_servers cfgdir fs fname st =
     (let fname = (case cfgdir of None \<Rightarrow> fname | Some d \<Rightarrow> d @ ''/'' @ fname) in
      bindE (ts_load fs fname st) (\<lambda>(ts, st).
      case ts of
        None \<Rightarrow> Inr (-1, None, st)
      | Some a \<Rightarrow>
          bindE (the_node st ts) (\<lambda>n.
          bindE (need (n_name n)) (\<lambda>nm.
          if strcmp nm ''servers'' \<noteq> 0 then Inr (-1, None, st)
          else
            bindE (servers_loop (ts_brk st + 1) st (n_child_list n) (darr_alloc 0 20)) (\<lambda>l.
            bindE (ts_free_tree (2 * ts_brk st) ts st) (\<lambda>st.
            Inr (0, Some l, st)))))))"

text \<open>
  \<open>main\<close> from its first line to the main loop: the arguments, the servers, then \<open>main_start\<close>. \<open>None\<close> is the
  end of the program.
\<close>

definition main_init :: "string option \<Rightarrow> files \<Rightarrow> mem \<Rightarrow> string list \<Rightarrow> cs \<Rightarrow> (cs \<times> server option) option res" where
  "main_init cfgdir fs m argv s =
     bindE (parse_args 0 argv default_options) (\<lambda>r.
     case r of
       ArgsOk opts \<Rightarrow>
         bindE (read_servers cfgdir fs ''.visftp.srv'' (empty_store m)) (\<lambda>(_, srvlist, _).
         main_start (on_app (\<lambda>a. a\<lparr>c_opts := opts, c_srvlist := srvlist\<rparr>) s))
     | _ \<Rightarrow> Inr None)"

section \<open>The list a tree describes\<close>

fun str_of_val :: "aval \<Rightarrow> string option" where
  "str_of_val (VStr s) = Some s"
| "str_of_val (VNum n) = Some (int_str n)"
| "str_of_val (VArr l) = None"

definition attr_str :: "string \<Rightarrow> (string \<times> aval) list \<Rightarrow> string option" where
  "attr_str name ats = (case find (\<lambda>(n, w). n = name) ats of None \<Rightarrow> None | Some (n, w) \<Rightarrow> str_of_val w)"

fun server_of :: "ttree \<Rightarrow> server option" where
  "server_of (TNode nm ats ks) =
     (if nm \<noteq> ''server'' then None
      else
        (case attr_str ''name'' ats of
           None \<Rightarrow> None
         | Some n \<Rightarrow>
             (case attr_str ''host'' ats of
                None \<Rightarrow> None
              | Some h \<Rightarrow> Some \<lparr>srv_name = n, srv_host = h, srv_user = attr_str ''user'' ats,
                              srv_pass = attr_str ''pass'' ats, srv_dir = attr_str ''dir'' ats\<rparr>)))"

fun servers_of :: "ttree \<Rightarrow> server list" where
  "servers_of (TNode nm ats ks) = concat (map (\<lambda>k. case server_of k of None \<Rightarrow> [] | Some v \<Rightarrow> [v]) ks)"

lemma v_str_value_of: "v_str (value_of w) = str_of_val w"
  by (cases w) auto

lemma find_erased:
  "map snd l = map (\<lambda>(n, w). (n, value_of w)) ws \<Longrightarrow>
    map_option snd (find (\<lambda>(a, nm, v). nm = name) l) = map_option (\<lambda>(n, w). (n, value_of w)) (find (\<lambda>(n, w). n = name) ws)"
proof (induction ws arbitrary: l)
  case (Cons x ws)
  then show ?case by (cases l) auto
qed simp

lemma get_attr_str_holds:
  assumes "tree_at st par nxt t" "erase t = tree_of (TNode nm ats ks)"
  shows "ts_get_attr_str st (at_addr t) name None = Inr (attr_str name ats)"
proof -
  obtain a tats tks where t: "t = ANode a (Some nm) tats tks" and ats: "map snd tats = map (\<lambda>(n, w). (n, value_of w)) ats"
    using assms(2) by (cases t) auto
  have f: "map_option snd (attr_named name t) = map_option (\<lambda>(n, w). (n, value_of w)) (find (\<lambda>(n, w). n = name) ats)"
    using find_erased [OF ats] t by (simp add: attr_named_def)
  show ?thesis
  proof (cases "attr_named name t")
    case None
    then show ?thesis using f get_attr_holds [OF assms(1)] by (simp add: ts_get_attr_str_def attr_value_def attr_str_def)
  next
    case (Some x)
    obtain b n v where x: "x = (b, n, v)" by (cases x)
    obtain w where w: "find (\<lambda>(n, w). n = name) ats = Some (n, w)" "v = value_of w"
      using f Some x by (cases "find (\<lambda>(n, w). n = name) ats") auto
    have "attr_value st (Some b) (\<lambda>v. map_option Some (v_str v)) None = Inr (str_of_val w)"
      using attr_value_holds [OF assms(1), of name b n v "\<lambda>v. map_option Some (v_str v)" None] Some x w(2)
      by (simp add: v_str_value_of del: value_of.simps split: option.split)
    then show ?thesis
      using get_attr_holds [OF assms(1)] Some x w(1) by (simp add: ts_get_attr_str_def attr_str_def)
  qed
qed

lemma server_entry_holds:
  assumes "tree_at st par nxt t" "erase t = tree_of (TNode ''server'' ats ks)"
  shows "server_entry st (at_addr t) = Inr (server_of (TNode ''server'' ats ks))"
  using get_attr_str_holds [OF assms] by (simp add: server_entry_def split: option.split)

lemma servers_loop_holds:
  assumes "holds_kids st par ts None" "\<forall>t \<in> set ts. \<exists>nxt. tree_at st par nxt t" "map erase ts = map tree_of ks"
    "darr_ok l" "length ts < fuel"
  shows "\<exists>l'. servers_loop fuel st (first_of at_addr ts None) l = Inr l' \<and> darr_ok l'
    \<and> darr_list l' = darr_list l @ concat (map (\<lambda>k. case server_of k of None \<Rightarrow> [] | Some v \<Rightarrow> [v]) ks)"
  using assms
proof (induction ts arbitrary: ks l fuel)
  case Nil
  then show ?case by (cases fuel) auto
next
  case (Cons t ts)
  obtain f where f: "fuel = Suc f" using Cons.prems(5) by (cases fuel) auto
  obtain k ks' where ks: "ks = k # ks'" "erase t = tree_of k" "map erase ts = map tree_of ks'"
    using Cons.prems(3) by (cases ks) auto
  obtain nm ats kk where k: "k = TNode nm ats kk" by (cases k)
  let ?e = "first_of at_addr ts None"
  obtain n where n: "ts_nodes st (at_addr t) = Some n" "n_next n = ?e" "n_name n = at_name t"
    using Cons.prems(1) holds_node [of st par ?e t] by auto
  have nm: "at_name t = Some nm" using ks(2) k by (cases t) auto
  define l1 where "l1 = (case server_of k of None \<Rightarrow> l | Some v \<Rightarrow> darr_push l v)"
  have l1: "darr_ok l1" "darr_list l1 = darr_list l @ (case server_of k of None \<Rightarrow> [] | Some v \<Rightarrow> [v])"
    using Cons.prems(4) by (auto simp: l1_def darr_simps split: option.split)
  obtain nxt where "tree_at st par nxt t" using Cons.prems(2) by auto
  then have entry: "nm = ''server'' \<Longrightarrow> server_entry st (at_addr t) = Inr (server_of k)"
    using server_entry_holds [of st par nxt t ats kk] ks(2) k by simp
  have "servers_loop fuel st (first_of at_addr (t # ts) None) l = servers_loop f st ?e l1"
    using f n nm entry k by (auto simp: l1_def simp del: server_of.simps) (simp add: l1_def)
  moreover have "\<exists>l'. servers_loop f st ?e l1 = Inr l' \<and> darr_ok l'
    \<and> darr_list l' = darr_list l1 @ concat (map (\<lambda>k. case server_of k of None \<Rightarrow> [] | Some v \<Rightarrow> [v]) ks')"
    using Cons.prems f ks l1 by (intro Cons.IH) auto
  ultimately show ?case using ks(1) l1(2) by auto
qed

lemma values_wf_erase: "erase t = tree_of T \<Longrightarrow> values_wf t"
proof (induction T arbitrary: t)
  case (TNode nm ats ks)
  obtain a tats tks where t: "t = ANode a (Some nm) tats tks" "map snd tats = map (\<lambda>(n, w). (n, value_of w)) ats"
    "map erase tks = map tree_of ks" using TNode.prems by (cases t) auto
  have "wf_value v" if "(x, n, v) \<in> set tats" for x n v
  proof -
    have "(n, v) \<in> set (map snd tats)" using that by force
    then show ?thesis unfolding t(2) using wf_value_of by auto
  qed
  moreover have "values_wf k" if k: "k \<in> set tks" for k
  proof -
    have "erase k \<in> set (map tree_of ks)" using k t(3) by (metis image_eqI list.set_map)
    then show ?thesis using TNode.IH by auto
  qed
  ultimately show ?case using t(1) by auto
qed

lemma read_servers_exact:
  assumes "printable (TNode ''servers'' ats ks)" "ts_mem st = []" "0 < ts_brk st"
    "fs (case cfgdir of None \<Rightarrow> fname | Some d \<Rightarrow> d @ ''/'' @ fname) = Some (text_of lvl (TNode ''servers'' ats ks))"
  shows "\<exists>l st'. read_servers cfgdir fs fname st = Inr (0, Some l, st') \<and> darr_list l = servers_of (TNode ''servers'' ats ks)"
proof -
  let ?T = "TNode ''servers'' ats ks"
  obtain a st1 t where t: "ts_text_load (text_of lvl ?T) st = Inr (Some a, st1)" "good st1 t" "at_addr t = a" "erase t = tree_of ?T"
    using load_exact [OF assms(1,3,2)] by blast
  obtain tats tks where at: "t = ANode a (Some ''servers'') tats tks" "map erase tks = map tree_of ks"
    using t(3,4) by (cases t) auto
  have ta: "tree_at st1 None None t" using t(2) by (simp add: good_def)
  obtain n where n: "ts_nodes st1 a = Some n" "n_name n = Some ''servers''" "n_child_list n = first_of at_addr tks None"
    and kd: "holds_kids st1 (Some a) tks None" using ta at by (auto simp: tree_at_def)
  have d: "distinct (node_addrs t)" "set (node_addrs t) \<subseteq> {0<..<ts_brk st1}" using ta by (auto simp: tree_at_def tree_ok_def)
  have lt: "length (node_addrs t) < ts_brk st1 + 1" using length_addrs [OF d] .
  have "length tks < ts_brk st1 + 1" using ta unfolding at(1) by (rule kids_count)
  moreover have "\<forall>k \<in> set tks. \<exists>nxt. tree_at st1 (Some a) nxt k" using holds_child [OF ta] at(1) t(3) by auto
  ultimately obtain l where l: "servers_loop (ts_brk st1 + 1) st1 (first_of at_addr tks None) (darr_alloc 0 20) = Inr l"
    "darr_list l = servers_of ?T"
    using servers_loop_holds [OF kd _ at(2), of "darr_alloc 0 20" "ts_brk st1 + 1"] by (auto simp: darr_simps)
  have "ts_free_tree (2 * ts_brk st1) (Some (at_addr t)) st1 = Inr (wipe (set (node_addrs t)) (set (attr_addrs t)) st1)"
    using values_wf_erase [OF t(4)] lt by (intro free_tree_wipe [OF ta]) auto
  then show ?thesis
    using t(1,3) assms(4) n l
    by (simp add: read_servers_def ts_load_def need_def del: servers_loop.simps ts_free_tree.simps servers_of.simps)
qed

section \<open>Any file\<close>

text \<open>What the search for attributes gives in a tree the parser built.\<close>

lemma get_attr_str_any:
  assumes "tree_at st par nxt t"
  shows "\<exists>r. ts_get_attr_str st (at_addr t) name None = Inr r"
proof (cases "attr_named name t")
  case None
  then show ?thesis using get_attr_holds [OF assms, of name] by (simp add: ts_get_attr_str_def attr_value_def)
next
  case (Some x)
  obtain b n v where x: "x = (b, n, v)" by (cases x)
  show ?thesis
    using get_attr_holds [OF assms, of name] Some x
      attr_value_holds [OF assms, of name b n v "\<lambda>v. map_option Some (v_str v)" None] by (simp add: ts_get_attr_str_def)
qed

lemma server_entry_any:
  assumes "tree_at st par nxt t"
  shows "\<exists>r. server_entry st (at_addr t) = Inr r"
proof -
  have "\<forall>name. \<exists>r. ts_get_attr_str st (at_addr t) name None = Inr r" using get_attr_str_any [OF assms] by blast
  then obtain f where "\<And>name. ts_get_attr_str st (at_addr t) name None = Inr (f name)" by metis
  then show ?thesis by (simp add: server_entry_def split: option.split)
qed

lemma servers_loop_any:
  assumes "holds_kids st par ts None" "\<forall>t \<in> set ts. (\<exists>nxt. tree_at st par nxt t) \<and> at_name t \<noteq> None"
    "darr_ok l" "length ts < fuel"
  shows "\<exists>l'. servers_loop fuel st (first_of at_addr ts None) l = Inr l' \<and> darr_ok l'"
  using assms
proof (induction ts arbitrary: l fuel)
  case Nil
  then show ?case by (cases fuel) auto
next
  case (Cons t ts)
  obtain f where f: "fuel = Suc f" using Cons.prems(4) by (cases fuel) auto
  obtain n where n: "ts_nodes st (at_addr t) = Some n" "n_next n = first_of at_addr ts None" "n_name n = at_name t"
    using Cons.prems(1) holds_node [of st par "first_of at_addr ts None" t] by auto
  obtain nm where nm: "at_name t = Some nm" using Cons.prems(2) by auto
  obtain nxt where "tree_at st par nxt t" using Cons.prems(2) by auto
  then obtain e where e: "server_entry st (at_addr t) = Inr e" using server_entry_any by blast
  define l1 where "l1 = (if nm = ''server'' then (case e of None \<Rightarrow> l | Some v \<Rightarrow> darr_push l v) else l)"
  have "darr_ok l1" using Cons.prems(3) by (auto simp: l1_def darr_simps split: option.split)
  then obtain l' where "servers_loop f st (first_of at_addr ts None) l1 = Inr l' \<and> darr_ok l'"
    using Cons.IH [of l1 f] Cons.prems f by auto
  then show ?case using f n nm e by (auto simp: l1_def)
qed

text \<open>Reading the list is safe for every file.\<close>

lemma read_servers_safe:
  assumes "0 < ts_brk st" "mem_faults E (ts_mem st)"
  shows "safeE E (\<lambda>(r, l, st'). (r = 0 \<longleftrightarrow> l \<noteq> None) \<and> (\<forall>l'. l = Some l' \<longrightarrow> darr_ok l'))
    (read_servers cfgdir fs fname st)"
proof -
  let ?f = "case cfgdir of None \<Rightarrow> fname | Some d \<Rightarrow> d @ ''/'' @ fname"
  have load: "safeE E (load_post E st) (ts_load fs ?f st)"
    using text_load_safe [OF assms] assms
    by (auto simp: ts_load_def load_post_def split: option.split)
  show ?thesis
    unfolding read_servers_def Let_def
  proof (rule safeE_bind [OF load], clarify)
    fix ts st1
    assume p: "load_post E st (ts, st1)"
    show "safeE E (\<lambda>(r, l, st'). (r = 0 \<longleftrightarrow> l \<noteq> None) \<and> (\<forall>l'. l = Some l' \<longrightarrow> darr_ok l'))
      (case ts of
        None \<Rightarrow> Inr (-1 :: int, None, st1)
      | Some a \<Rightarrow>
          bindE (the_node st1 ts) (\<lambda>n.
          bindE (need (n_name n)) (\<lambda>nm.
          if strcmp nm ''servers'' \<noteq> 0 then Inr (-1, None, st1)
          else
            bindE (servers_loop (ts_brk st1 + 1) st1 (n_child_list n) (darr_alloc 0 20)) (\<lambda>l.
            bindE (ts_free_tree (2 * ts_brk st1) ts st1) (\<lambda>st.
            Inr (0, Some l, st))))))"
    proof (cases ts)
      case (Some a)
      then obtain t where t: "good st1 t" "at_addr t = a" "at_name t \<noteq> None" using p by (auto simp: load_post_def)
      obtain nm ats ks where at: "t = ANode a (Some nm) ats ks" using t(2,3) by (cases t) auto
      have ta: "tree_at st1 None None t" using t(1) by (simp add: good_def)
      obtain n where n: "ts_nodes st1 a = Some n" "n_name n = Some nm" "n_child_list n = first_of at_addr ks None"
        and kd: "holds_kids st1 (Some a) ks None" using ta at by (auto simp: tree_at_def)
      have d: "distinct (node_addrs t)" "set (node_addrs t) \<subseteq> {0<..<ts_brk st1}" using ta by (auto simp: tree_at_def tree_ok_def)
      have lt: "length (node_addrs t) < ts_brk st1 + 1" using length_addrs [OF d] .
      have "length ks < ts_brk st1 + 1" using ta unfolding at by (rule kids_count)
      moreover have "\<forall>k \<in> set ks. (\<exists>nxt. tree_at st1 (Some a) nxt k) \<and> at_name k \<noteq> None"
        using holds_child [OF ta] at t(1,2) by (auto simp: good_def)
      ultimately obtain l where "servers_loop (ts_brk st1 + 1) st1 (first_of at_addr ks None) (darr_alloc 0 20) = Inr l" "darr_ok l"
        using servers_loop_any [OF kd, of "darr_alloc 0 20" "ts_brk st1 + 1"] by auto
      moreover have "ts_free_tree (2 * ts_brk st1) (Some a) st1 = Inr (wipe (set (node_addrs t)) (set (attr_addrs t)) st1)"
        using t lt free_tree_wipe [OF ta, of "2 * ts_brk st1"] by (auto simp: good_def)
      ultimately show ?thesis using Some n by (simp add: need_def del: servers_loop.simps ts_free_tree.simps)
    qed simp
  qed
qed

section \<open>Finding a server\<close>

lemma find_server_from_list:
  "darr_ok l \<Longrightarrow> i + n = length (darr_list l) \<Longrightarrow>
    find_server_from l name i n = Inr (find (\<lambda>v. srv_name v = name) (drop i (darr_list l)))"
proof (induction n arbitrary: i)
  case (Suc n)
  then have i: "i < length (darr_list l)" by simp
  then show ?case
    using Suc darr_get_list [OF Suc.prems(1), of "int i"] by (simp add: Cons_nth_drop_Suc [symmetric])
qed simp

lemma find_server_list:
  "darr_ok l \<Longrightarrow> find_server name (Some l) = Inr (find (\<lambda>v. srv_name v = name) (darr_list l))"
  using find_server_from_list [of l 0 "darr_size l" name] by (simp add: find_server_def darr_size_list)

section \<open>The start of the program\<close>

text \<open>The user and the password \<open>main\<close> logs in with: those of the command line, else those of the list.\<close>

definition start_login :: "options \<Rightarrow> server option \<Rightarrow> string option \<times> string option" where
  "start_login opts srv =
     (case opt_user opts of
        Some u \<Rightarrow> (Some u, opt_pass opts)
      | None \<Rightarrow> (case srv of None \<Rightarrow> (None, opt_pass opts)
               | Some v \<Rightarrow> if srv_user v = None then (None, opt_pass opts) else (srv_user v, srv_pass v)))"

lemma update_localdir_opts [simp]:
  "c_opts (app (fst (update_localdir s))) = c_opts (app s)" "c_srvlist (app (fst (update_localdir s))) = c_srvlist (app s)"
  by (auto simp: update_localdir_def split: prod.split option.split)

lemma ftp_alloc_opts: "ftp_alloc s = Some t \<Longrightarrow> app t = app s \<and> user t = None \<and> pass t = None"
  by (auto simp: ftp_alloc_def sys_malloc_def split: prod.splits bool.splits)

lemma ftp_connect_user: "ftp_connect h p s = (t, r) \<Longrightarrow> user t = user s \<and> pass t = pass s"
  by (auto simp: ftp_connect_def sys_socket_def sys_gethostbyname_def sys_connect_def emit_def Let_def
      split: prod.splits option.splits bool.splits if_splits)

lemma main_start_find:
  "main_start s = Inr None \<or> (\<exists>k. main_start s = bindE (find_server (opt_host (c_opts (app s))) (c_srvlist (app s))) (\<lambda>srv. Inr (k srv))
     \<and> (\<forall>srv t. k srv = Some t \<longrightarrow> snd t = srv \<and> user (fst t) = fst (start_login (c_opts (app s)) srv)
          \<and> (\<forall>u. user (fst t) = Some u \<longrightarrow> pass (fst t) = Some (case snd (start_login (c_opts (app s)) srv) of Some p \<Rightarrow> p | None \<Rightarrow> ''foobar''))))"
proof -
  define s1 where "s1 = (case next_ans [] (cwd_in (app (on_app (\<lambda>a. a\<lparr>c_localdir := darr_alloc 0 12\<rparr>) s))) of
      (cwd, r) \<Rightarrow> on_app (\<lambda>a. a\<lparr>cwd_in := r, c_curdir := cwd\<rparr>) (on_app (\<lambda>a. a\<lparr>c_localdir := darr_alloc 0 12\<rparr>) s))"
  have s1: "c_opts (app s1) = c_opts (app s)" "c_srvlist (app s1) = c_srvlist (app s)"
    by (auto simp: s1_def split: prod.split)
  show ?thesis
  proof (cases "ftp_alloc (fst (update_localdir s1))")
    case None
    show ?thesis by (rule disjI1) (simp only: main_start_def Let_def s1_def [symmetric] None option.case)
  next
    case (Some t)
    have t: "c_opts (app t) = c_opts (app s)" "c_srvlist (app t) = c_srvlist (app s)" "user t = None" "pass t = None"
      using ftp_alloc_opts [OF Some] s1 by simp_all
    define O1 where "O1 srv = (case srv of
                        None \<Rightarrow> c_opts (app t)
                      | Some v \<Rightarrow> if opt_user (c_opts (app t)) = None \<and> srv_user v \<noteq> None
                                then (c_opts (app t))\<lparr>opt_user := srv_user v, opt_pass := srv_pass v\<rparr> else c_opts (app t))" for srv :: "server option"
    define S1 where "S1 srv = (case opt_user (O1 srv) of
                        None \<Rightarrow> on_app (\<lambda>a. a\<lparr>c_opts := O1 srv\<rparr>) t
                      | Some u \<Rightarrow> ftp_auth u (case opt_pass (O1 srv) of Some p \<Rightarrow> p | None \<Rightarrow> ''foobar'')
                          (on_app (\<lambda>a. a\<lparr>c_opts := O1 srv\<rparr>) t))" for srv
    define U where "U = (\<lambda>s :: cs. on_app (\<lambda>a. a\<lparr>
                           c_uilist := (\<lambda>i. if i = 0
                             then tui_focus True (tui_list_new ''Remote'' 0 1 40 21 PNull PNull)
                             else tui_list_new ''Local'' 40 1 40 21 PNull PNull),
                           c_focus := 0, c_local_modified := True, c_dirty := 0xffff\<rparr>) s)"
    define K where "K srv = (case ftp_connect (case srv of None \<Rightarrow> opt_host (O1 srv) | Some v \<Rightarrow> srv_host v) (opt_port (O1 srv)) (S1 srv) of
        (s, r) \<Rightarrow> if r = -1 then None else Some (U s, srv))" for srv
    have e: "main_start s = bindE (find_server (opt_host (c_opts (app t))) (c_srvlist (app t))) (\<lambda>srv.
        case ftp_connect (case srv of None \<Rightarrow> opt_host (O1 srv) | Some v \<Rightarrow> srv_host v) (opt_port (O1 srv)) (S1 srv) of
        (s, r) \<Rightarrow> if r = -1 then Inr None else Inr (Some (U s, srv)))"
      unfolding main_start_def Let_def s1_def [symmetric] Some option.case S1_def O1_def U_def ..
    have k: "(case ftp_connect (case srv of None \<Rightarrow> opt_host (O1 srv) | Some v \<Rightarrow> srv_host v) (opt_port (O1 srv)) (S1 srv) of
        (s, r) \<Rightarrow> if r = -1 then Inr None else Inr (Some (U s, srv))) = Inr (K srv)" for srv
      by (auto simp: K_def split: prod.split)
    have o: "opt_user (O1 srv) = fst (start_login (c_opts (app s)) srv)" "opt_pass (O1 srv) = snd (start_login (c_opts (app s)) srv)" for srv
      by (auto simp: O1_def start_login_def t split: option.split)
    have u: "user (S1 srv) = opt_user (O1 srv)"
      "opt_user (O1 srv) = Some v \<Longrightarrow> pass (S1 srv) = Some (case opt_pass (O1 srv) of Some p \<Rightarrow> p | None \<Rightarrow> ''foobar'')" for srv v
      by (auto simp: S1_def ftp_auth_def t split: option.split)
    have "K srv = Some x \<Longrightarrow> snd x = srv \<and> user (fst x) = user (S1 srv) \<and> pass (fst x) = pass (S1 srv)" for srv x
      by (auto simp: K_def U_def split: prod.splits if_splits dest: ftp_connect_user)
    then have "K srv = Some x \<Longrightarrow> snd x = srv \<and> user (fst x) = fst (start_login (c_opts (app s)) srv)
        \<and> (\<forall>u. user (fst x) = Some u \<longrightarrow>
             pass (fst x) = Some (case snd (start_login (c_opts (app s)) srv) of Some p \<Rightarrow> p | None \<Rightarrow> ''foobar''))" for srv x
      using u [of srv] o [of srv] by simp
    then show ?thesis unfolding e k t(1,2) by (intro disjI2 exI [of _ K]) blast
  qed
qed

text \<open>The start of the program: its faults come from the arguments only.\<close>

lemma args_fault: "parse_args i as1 opts = Inl e \<Longrightarrow> e = Overread \<and> ''-'' \<in> set as1"
proof (induction i as1 opts rule: parse_args.induct)
  case (2 argidx a as1 opts)
  have "a = ''-''" if "a \<noteq> []" "hd a = CHR ''-''" "length a = 1" using that by (cases a) auto
  then show ?case using 2 by (auto simp: Let_def split: if_splits)
qed simp

lemma start_returns:
  assumes "c_srvlist (app s) = None \<or> (\<exists>l. c_srvlist (app s) = Some l \<and> darr_ok l)"
  shows "\<exists>r. main_start s = Inr r"
proof -
  have "\<exists>v. find_server (opt_host (c_opts (app s))) (c_srvlist (app s)) = Inr v"
    using assms find_server_list by (auto simp: find_server_def)
  then show ?thesis using main_start_find [of s] by auto
qed

end
