(* ===== verification/Tgfx_Dos.thy ===== *)
theory Tgfx_Dos
  imports Screen
begin

text \<open>
  The text mode backend of DOS (\<open>src/dos/tgfx.c\<close>): a screen of 80 by 25 cells of 16 bits, the character in
  the low byte and the colours in the high one. A drawing function is the list of its writes into the
  frame buffer, in the order of the code; \<open>blit\<close> carries them out, and a write outside of the screen
  is an \<open>Overrun\<close>. The Watcom compiler of the DOS build has unsigned characters.

  The lemmas say what is on the screen afterwards: the last write to a cell counts, so a box has its
  frame over its filling and its label over the frame.
\<close>

section \<open>State\<close>

text \<open>
  \<open>line_y\<close> and \<open>line_at\<close> are the static variables of \<open>tg_putchar\<close> (\<open>prev_y\<close> and \<open>lineptr\<close>, the latter as an
  index), \<open>ports\<close> what was written to the ports of the display controller.
\<close>

record dos_screen =
  framebuf :: "16 word list"
  d_attr :: "16 word"
  d_fgcol :: int
  d_bgcol :: int
  d_bgchar :: int
  line_y :: int
  line_at :: int
  ports :: "(int \<times> 16 word) list"

type_synonym writes = "(int \<times> 16 word) list"

definition dos_start :: "16 word list \<Rightarrow> dos_screen" where
  "dos_start fb = \<lparr>framebuf = fb, d_attr = 0x0700, d_fgcol = 7, d_bgcol = 0, d_bgchar = 32, line_y = -1,
                   line_at = 0, ports = []\<rparr>"

fun blit :: "writes \<Rightarrow> dos_screen \<Rightarrow> dos_screen res" where
  "blit [] s = Inr s"
| "blit ((i, v) # ws) s =
     (if 0 \<le> i \<and> i < int (length (framebuf s))
      then blit ws (s\<lparr>framebuf := (framebuf s)[nat i := v]\<rparr>) else Inl Overrun)"

section \<open>Operations\<close>

definition upd_attr_dos :: "dos_screen \<Rightarrow> dos_screen" where
  "upd_attr_dos s = s\<lparr>d_attr := (push_bit 8 (word_of_int (d_fgcol s))) OR (push_bit 12 (word_of_int (d_bgcol s)))\<rparr>"

definition tg_fgcolor_dos :: "int \<Rightarrow> dos_screen \<Rightarrow> dos_screen" where
  "tg_fgcolor_dos col s = upd_attr_dos (s\<lparr>d_fgcol := col AND 0xf\<rparr>)"

definition tg_bgcolor_dos :: "int \<Rightarrow> dos_screen \<Rightarrow> dos_screen" where
  "tg_bgcolor_dos col s = upd_attr_dos (s\<lparr>d_bgcol := col AND 0xf\<rparr>)"

definition tg_color_dos :: "int \<Rightarrow> dos_screen \<Rightarrow> dos_screen" where
  "tg_color_dos col s =
     s\<lparr>d_fgcol := col AND 0xf, d_bgcol := (drop_bit 4 col) AND 0xf, d_attr := word_of_int (push_bit 8 col)\<rparr>"

definition tg_bgchar_dos :: "int \<Rightarrow> dos_screen \<Rightarrow> dos_screen" where
  "tg_bgchar_dos c s = s\<lparr>d_bgchar := c\<rparr>"

definition tg_setcursor_dos :: "int \<Rightarrow> int \<Rightarrow> dos_screen \<Rightarrow> dos_screen" where
  "tg_setcursor_dos x y s =
     (let addr = word_of_int (y * 80 + x) :: 32 word
      in s\<lparr>ports := ports s @ [(0x3d4, ucast ((addr AND 0xff00) OR 0xe)), (0x3d4, ucast ((push_bit 8 addr) OR 0xf))]\<rparr>)"

text \<open>The value of a cell: \<open>c | attr\<close>.\<close>

definition cell :: "dos_screen \<Rightarrow> int \<Rightarrow> 16 word" where
  "cell s c = word_of_int c OR d_attr s"

definition tg_putchar_dos :: "int \<Rightarrow> int \<Rightarrow> char \<Rightarrow> dos_screen \<Rightarrow> dos_screen res" where
  "tg_putchar_dos x y c s =
     (let s = (if y \<noteq> line_y s then s\<lparr>line_at := y * 80, line_y := y\<rparr> else s)
      in blit [(line_at s + x, cell s (int (ccode c)))] s)"

definition text_writes :: "dos_screen \<Rightarrow> int \<Rightarrow> int \<Rightarrow> string \<Rightarrow> writes" where
  "text_writes s x y str =
     map (\<lambda>i. (y * 80 + x + int i, cell s (int (ccode (str ! i))))) [0..<length str]"

text \<open>The formatted text goes through a buffer of 256 bytes.\<close>

definition tg_text_dos :: "int \<Rightarrow> int \<Rightarrow> string \<Rightarrow> dos_screen \<Rightarrow> dos_screen res" where
  "tg_text_dos x y str s = (if length str \<ge> 256 then Inl Overrun else blit (text_writes s x y str) s)"

text \<open>The loops of \<open>tg_rect\<close>; a loop up to a negative bound does nothing.\<close>

definition fill_writes :: "dos_screen \<Rightarrow> int \<Rightarrow> int \<Rightarrow> int \<Rightarrow> int \<Rightarrow> writes" where
  "fill_writes s x y xsz ysz =
     concat (map (\<lambda>i. map (\<lambda>j. (y * 80 + x + 80 * i + j, cell s (d_bgchar s))) [0..xsz - 1]) [0..ysz - 1])"

definition frame_writes :: "dos_screen \<Rightarrow> int \<Rightarrow> int \<Rightarrow> int \<Rightarrow> int \<Rightarrow> writes" where
  "frame_writes s x y xsz ysz =
     (let p = y * 80 + x; q = p + (ysz - 1) * 80
      in concat (map (\<lambda>i. [(p + i + 1, cell s 0xcd), (p + (ysz - 1) * 80 + i + 1, cell s 0xcd)]) [0..xsz - 3])
         @ concat (map (\<lambda>i. [(p + (i + 1) * 80, cell s 0xba), (p + (xsz - 1) + (i + 1) * 80, cell s 0xba)]) [0..ysz - 3])
         @ [(p, cell s 0xc9), (p + (xsz - 1), cell s 0xbb), (q, cell s 0xc8), (q + (xsz - 1), cell s 0xbc)])"

definition rect_label :: "string option \<Rightarrow> int \<Rightarrow> string option" where
  "rect_label label xsz =
     (case label of
        None \<Rightarrow> None
      | Some l \<Rightarrow>
          if xsz \<ge> 8
          then (let maxlen = xsz - 4; len = int (length l) in Some (if len > maxlen then drop (nat (len - maxlen)) l else l))
          else None)"

definition tg_rect_dos :: "string option \<Rightarrow> int \<Rightarrow> int \<Rightarrow> int \<Rightarrow> int \<Rightarrow> bool \<Rightarrow> dos_screen \<Rightarrow> dos_screen res" where
  "tg_rect_dos label x y xsz ysz frame s =
     bindE (blit (fill_writes s x y xsz ysz) s) (\<lambda>s.
     bindE (if frame \<and> xsz \<ge> 2 \<and> ysz \<ge> 2 then blit (frame_writes s x y xsz ysz) s else Inr s) (\<lambda>s.
     case rect_label label xsz of
       None \<Rightarrow> Inr s
     | Some l \<Rightarrow> tg_text_dos (x + 2) y l s))"

definition tg_clear_dos :: "dos_screen \<Rightarrow> dos_screen res" where
  "tg_clear_dos s = tg_rect_dos None 0 0 80 25 False s"

definition tg_cleanup_dos :: "dos_screen \<Rightarrow> dos_screen res" where
  "tg_cleanup_dos s =
     bindE (blit (map (\<lambda>i. (i, 0x0720)) [0..80 * 25 - 1]) s) (\<lambda>s. Inr (tg_setcursor_dos 0 0 s))"

definition tg_gchar_dos :: "gchar \<Rightarrow> char" where
  "tg_gchar_dos g = (case g of LArrow \<Rightarrow> CHR 0x1b | RArrow \<Rightarrow> CHR 0x1a)"

section \<open>Commands of the user interface\<close>

fun color_code :: "color \<Rightarrow> int" where
  "color_code Black = 0" | "color_code Blue = 1" | "color_code Green = 2" | "color_code Cyan = 3"
| "color_code Red = 4" | "color_code Magenta = 5" | "color_code Yellow = 6" | "color_code White = 7"

fun draw_dos :: "draw_cmd \<Rightarrow> dos_screen \<Rightarrow> dos_screen res" where
  "draw_dos (TgFg c) s = Inr (tg_fgcolor_dos (color_code c) s)"
| "draw_dos (TgBg c) s = Inr (tg_bgcolor_dos (color_code c) s)"
| "draw_dos (TgRect l x y w h f) s = tg_rect_dos l x y w h f s"
| "draw_dos (TgPutchar x y c) s = tg_putchar_dos x y c s"
| "draw_dos (TgText x y t) s = tg_text_dos x y t s"
| "draw_dos (TgArrow x y g t) s = tg_text_dos x y (tg_gchar_dos g # t) s"
| "draw_dos TgRedraw s = Inr s"

fun draw_all_dos :: "draw_cmd list \<Rightarrow> dos_screen \<Rightarrow> dos_screen res" where
  "draw_all_dos [] s = Inr s"
| "draw_all_dos (c # cs) s = bindE (draw_dos c s) (draw_all_dos cs)"

section \<open>What is on the screen\<close>

text \<open>The last write to a cell counts.\<close>

definition after :: "writes \<Rightarrow> 16 word list \<Rightarrow> 16 word list" where
  "after ws fb = map (\<lambda>k. case map_of (rev ws) (int k) of None \<Rightarrow> fb ! k | Some v \<Rightarrow> v) [0..<length fb]"

lemma length_after [simp]: "length (after ws fb) = length fb"
  by (simp add: after_def)

lemma blit_after:
  "\<forall>w \<in> set ws. 0 \<le> fst w \<and> fst w < int (length (framebuf s)) \<Longrightarrow>
    blit ws s = Inr (s\<lparr>framebuf := after ws (framebuf s)\<rparr>)"
proof (induction ws arbitrary: s)
  case Nil
  have "after [] (framebuf s) = framebuf s" by (simp add: after_def map_nth)
  then show ?case by simp
next
  case (Cons w ws)
  obtain i v where w: "w = (i, v)" by (cases w)
  let ?fb = "(framebuf s)[nat i := v]"
  have i: "0 \<le> i" using Cons.prems w by simp
  have "after ws ?fb = after (w # ws) (framebuf s)"
  proof (rule nth_equalityI)
    fix k assume "k < length (after ws ?fb)"
    moreover have "nat i = k \<longleftrightarrow> i = int k" using i by auto
    ultimately show "after ws ?fb ! k = after (w # ws) (framebuf s) ! k"
      using w by (cases "map_of (rev ws) (int k)") (auto simp: after_def map_add_def nth_list_update)
  qed simp
  then show ?case using Cons.IH [of "s\<lparr>framebuf := ?fb\<rparr>"] Cons.prems w by simp
qed

text \<open>A list of writes whose values depend on the cell only.\<close>

lemma map_of_block:
  "\<forall>w \<in> set ws. snd w = f (fst w) \<Longrightarrow> map_of (rev ws) k = (if k \<in> fst ` set ws then Some (f k) else None)"
  by (induction ws) (auto simp: map_add_def split: option.split)

lemma after_block:
  assumes "\<forall>w \<in> set ws. snd w = f (fst w)" "k < length fb"
  shows "after ws fb ! k = (if int k \<in> fst ` set ws then f (int k) else fb ! k)"
  using assms(2) map_of_block [OF assms(1), of "int k"] by (simp add: after_def)

definition on_screen :: "int \<Rightarrow> int \<Rightarrow> bool" where
  "on_screen cx cy \<longleftrightarrow> 0 \<le> cx \<and> cx < 80 \<and> 0 \<le> cy \<and> cy < 25"

text \<open>Coordinates of a cell.\<close>

lemma cell_coords:
  assumes "0 \<le> c" "c < (80 :: int)"
  shows "(80 * b + c) mod 80 = c" "(80 * b + c) div 80 = b"
  using assms by simp_all

lemma cell_unique:
  "0 \<le> a \<Longrightarrow> a < (80 :: int) \<Longrightarrow> 0 \<le> c \<Longrightarrow> c < 80 \<Longrightarrow> 80 * b + a = 80 * d + c \<longleftrightarrow> a = c \<and> b = d"
  by (metis cell_coords)

definition box_ok :: "int \<Rightarrow> int \<Rightarrow> int \<Rightarrow> int \<Rightarrow> bool" where
  "box_ok x y w h \<longleftrightarrow> 0 \<le> x \<and> 0 \<le> w \<and> x + w \<le> 80 \<and> 0 \<le> y \<and> 0 \<le> h \<and> y + h \<le> 25"

definition inside :: "int \<Rightarrow> int \<Rightarrow> int \<Rightarrow> int \<Rightarrow> int \<Rightarrow> int \<Rightarrow> bool" where
  "inside x y w h cx cy \<longleftrightarrow> x \<le> cx \<and> cx < x + w \<and> y \<le> cy \<and> cy < y + h"

definition frame_char :: "int \<Rightarrow> int \<Rightarrow> int \<Rightarrow> int \<Rightarrow> int \<Rightarrow> int \<Rightarrow> int" where
  "frame_char x y w h cx cy =
     (if cx = x then (if cy = y then 0xc9 else if cy = y + h - 1 then 0xc8 else 0xba)
      else if cx = x + w - 1 then (if cy = y then 0xbb else if cy = y + h - 1 then 0xbc else 0xba)
      else 0xcd)"

definition on_border :: "int \<Rightarrow> int \<Rightarrow> int \<Rightarrow> int \<Rightarrow> int \<Rightarrow> int \<Rightarrow> bool" where
  "on_border x y w h cx cy \<longleftrightarrow> inside x y w h cx cy \<and> (cx = x \<or> cx = x + w - 1 \<or> cy = y \<or> cy = y + h - 1)"

lemma fill_cells:
  assumes "box_ok x y w h" "on_screen cx cy"
  shows "80 * cy + cx \<in> fst ` set (fill_writes s x y w h) \<longleftrightarrow> inside x y w h cx cy"
proof
  assume "80 * cy + cx \<in> fst ` set (fill_writes s x y w h)"
  then obtain i j where ij: "0 \<le> i" "i \<le> h - 1" "0 \<le> j" "j \<le> w - 1" "80 * cy + cx = y * 80 + x + 80 * i + j"
    by (auto simp: fill_writes_def)
  then have "80 * cy + cx = 80 * (y + i) + (x + j)" by simp
  then show "inside x y w h cx cy"
    using ij assms cell_unique [of cx "x + j" cy "y + i"] by (auto simp: box_ok_def on_screen_def inside_def)
next
  assume i: "inside x y w h cx cy"
  have e: "80 * cy + cx = y * 80 + x + 80 * (cy - y) + (cx - x)" by (simp add: algebra_simps)
  show "80 * cy + cx \<in> fst ` set (fill_writes s x y w h)"
    unfolding fill_writes_def using i
    by (intro image_eqI [where x = "(80 * cy + cx, cell s (d_bgchar s))"])
      (auto simp: inside_def intro!: bexI [of _ "cy - y"] image_eqI [of _ _ "cx - x"])
qed

lemma fill_range:
  assumes "box_ok x y w h" "wr \<in> set (fill_writes s x y w h)"
  shows "0 \<le> fst wr \<and> fst wr < 2000" "snd wr = cell s (d_bgchar s)"
  using assms by (auto simp: box_ok_def fill_writes_def)

definition frame_val :: "dos_screen \<Rightarrow> int \<Rightarrow> int \<Rightarrow> int \<Rightarrow> int \<Rightarrow> int \<Rightarrow> 16 word" where
  "frame_val s x y w h k = cell s (frame_char x y w h (k mod 80) (k div 80))"

text \<open>The writes of a frame, by coordinates.\<close>

lemma frame_writes_coords:
  assumes "wr \<in> set (frame_writes s x y w h)" "box_ok x y w h" "2 \<le> w" "2 \<le> h"
  shows "\<exists>cx cy. wr = (80 * cy + cx, cell s (frame_char x y w h cx cy)) \<and> on_border x y w h cx cy"
proof -
  have "(\<exists>i. 0 \<le> i \<and> i \<le> w - 3 \<and> (wr = (y * 80 + x + i + 1, cell s 0xcd) \<or> wr = (y * 80 + x + (h - 1) * 80 + i + 1, cell s 0xcd)))
    \<or> (\<exists>i. 0 \<le> i \<and> i \<le> h - 3 \<and> (wr = (y * 80 + x + (i + 1) * 80, cell s 0xba) \<or> wr = (y * 80 + x + (w - 1) + (i + 1) * 80, cell s 0xba)))
    \<or> wr = (y * 80 + x, cell s 0xc9) \<or> wr = (y * 80 + x + (w - 1), cell s 0xbb)
    \<or> wr = (y * 80 + x + (h - 1) * 80, cell s 0xc8) \<or> wr = (y * 80 + x + (h - 1) * 80 + (w - 1), cell s 0xbc)"
    using assms(1) by (auto simp: frame_writes_def Let_def)
  then show ?thesis
  proof (elim disjE exE conjE)
    fix i assume "0 \<le> i" "i \<le> w - 3" "wr = (y * 80 + x + i + 1, cell s 0xcd)"
    then show ?thesis using assms(3,4)
      by (intro exI [of _ "x + i + 1"] exI [of _ y]) (auto simp: frame_char_def on_border_def inside_def)
  next
    fix i assume "0 \<le> i" "i \<le> w - 3" "wr = (y * 80 + x + (h - 1) * 80 + i + 1, cell s 0xcd)"
    then show ?thesis using assms(3,4)
      by (intro exI [of _ "x + i + 1"] exI [of _ "y + h - 1"]) (auto simp: frame_char_def on_border_def inside_def)
  next
    fix i assume "0 \<le> i" "i \<le> h - 3" "wr = (y * 80 + x + (i + 1) * 80, cell s 0xba)"
    then show ?thesis using assms(3,4)
      by (intro exI [of _ x] exI [of _ "y + i + 1"]) (auto simp: frame_char_def on_border_def inside_def)
  next
    fix i assume "0 \<le> i" "i \<le> h - 3" "wr = (y * 80 + x + (w - 1) + (i + 1) * 80, cell s 0xba)"
    then show ?thesis using assms(3,4)
      by (intro exI [of _ "x + w - 1"] exI [of _ "y + i + 1"]) (auto simp: frame_char_def on_border_def inside_def)
  next
    assume "wr = (y * 80 + x, cell s 0xc9)"
    then show ?thesis using assms(3,4)
      by (intro exI [of _ x] exI [of _ y]) (auto simp: frame_char_def on_border_def inside_def)
  next
    assume "wr = (y * 80 + x + (w - 1), cell s 0xbb)"
    then show ?thesis using assms(3,4)
      by (intro exI [of _ "x + w - 1"] exI [of _ y]) (auto simp: frame_char_def on_border_def inside_def)
  next
    assume "wr = (y * 80 + x + (h - 1) * 80, cell s 0xc8)"
    then show ?thesis using assms(3,4)
      by (intro exI [of _ x] exI [of _ "y + h - 1"]) (auto simp: frame_char_def on_border_def inside_def)
  next
    assume "wr = (y * 80 + x + (h - 1) * 80 + (w - 1), cell s 0xbc)"
    then show ?thesis using assms(3,4)
      by (intro exI [of _ "x + w - 1"] exI [of _ "y + h - 1"]) (auto simp: frame_char_def on_border_def inside_def)
  qed
qed

lemma frame_cells:
  assumes "box_ok x y w h" "on_screen cx cy" "2 \<le> w" "2 \<le> h"
  shows "80 * cy + cx \<in> fst ` set (frame_writes s x y w h) \<longleftrightarrow> on_border x y w h cx cy"
proof
  assume "80 * cy + cx \<in> fst ` set (frame_writes s x y w h)"
  then obtain wr where wr: "wr \<in> set (frame_writes s x y w h)" "80 * cy + cx = fst wr" by auto
  obtain a b where ab: "wr = (80 * b + a, cell s (frame_char x y w h a b))" "on_border x y w h a b"
    using frame_writes_coords [OF wr(1) assms(1,3,4)] by blast
  have "0 \<le> a \<and> a < 80" using ab(2) assms(1) by (auto simp: on_border_def inside_def box_ok_def)
  then have "cx = a \<and> cy = b"
    using wr(2) ab(1) assms(2) cell_unique [of cx a cy b] by (auto simp: on_screen_def)
  then show "on_border x y w h cx cy" using ab(2) by simp
next
  assume b: "on_border x y w h cx cy"
  define F where "F = fst ` set (frame_writes s x y w h)"
  have hor: "y * 80 + x + i + 1 \<in> F" "y * 80 + x + (h - 1) * 80 + i + 1 \<in> F" if "0 \<le> i" "i \<le> w - 3" for i
    using that by (force simp: F_def frame_writes_def Let_def)+
  have ver: "y * 80 + x + (i + 1) * 80 \<in> F" "y * 80 + x + (w - 1) + (i + 1) * 80 \<in> F" if "0 \<le> i" "i \<le> h - 3" for i
    using that by (force simp: F_def frame_writes_def Let_def)+
  have cor: "y * 80 + x \<in> F" "y * 80 + x + (w - 1) \<in> F" "y * 80 + x + (h - 1) * 80 \<in> F"
    "y * 80 + x + (h - 1) * 80 + (w - 1) \<in> F" by (simp_all add: F_def frame_writes_def Let_def image_Un)
  have i: "x \<le> cx" "cx \<le> x + w - 1" "y \<le> cy" "cy \<le> y + h - 1" using b by (auto simp: on_border_def inside_def)
  have "cx = x \<or> cx = x + w - 1 \<or> x < cx \<and> cx < x + w - 1" "cy = y \<or> cy = y + h - 1 \<or> y < cy \<and> cy < y + h - 1" using i by auto
  then have "80 * cy + cx \<in> F"
  proof (elim disjE)
    assume c: "cx = x" "cy = y"
    then have e: "80 * cy + cx = y * 80 + x" by simp
    show ?thesis unfolding e by (rule cor(1))
  next
    assume c: "cx = x" "cy = y + h - 1"
    then have e: "80 * cy + cx = y * 80 + x + (h - 1) * 80" by simp
    show ?thesis unfolding e by (rule cor(3))
  next
    assume c: "cx = x" "y < cy \<and> cy < y + h - 1"
    then have e: "80 * cy + cx = y * 80 + x + ((cy - y - 1) + 1) * 80" by simp
    show ?thesis unfolding e by (rule ver(1)) (use c in auto)
  next
    assume c: "cx = x + w - 1" "cy = y"
    then have e: "80 * cy + cx = y * 80 + x + (w - 1)" by simp
    show ?thesis unfolding e by (rule cor(2))
  next
    assume c: "cx = x + w - 1" "cy = y + h - 1"
    then have e: "80 * cy + cx = y * 80 + x + (h - 1) * 80 + (w - 1)" by simp
    show ?thesis unfolding e by (rule cor(4))
  next
    assume c: "cx = x + w - 1" "y < cy \<and> cy < y + h - 1"
    then have e: "80 * cy + cx = y * 80 + x + (w - 1) + ((cy - y - 1) + 1) * 80" by simp
    show ?thesis unfolding e by (rule ver(2)) (use c in auto)
  next
    assume c: "x < cx \<and> cx < x + w - 1" "cy = y"
    then have e: "80 * cy + cx = y * 80 + x + (cx - x - 1) + 1" by simp
    show ?thesis unfolding e by (rule hor(1)) (use c in auto)
  next
    assume c: "x < cx \<and> cx < x + w - 1" "cy = y + h - 1"
    then have e: "80 * cy + cx = y * 80 + x + (h - 1) * 80 + (cx - x - 1) + 1" by simp
    show ?thesis unfolding e by (rule hor(2)) (use c in auto)
  next
    assume "x < cx \<and> cx < x + w - 1" "y < cy \<and> cy < y + h - 1"
    then show ?thesis using b by (auto simp: on_border_def)
  qed
  then show "80 * cy + cx \<in> fst ` set (frame_writes s x y w h)" by (simp add: F_def)
qed

text \<open>A text that ends on its line.\<close>

lemma text_cells:
  assumes "on_screen x y" "x + int (length l) \<le> 80" "on_screen cx cy"
  shows "80 * cy + cx \<in> fst ` set (text_writes s x y l) \<longleftrightarrow> cy = y \<and> x \<le> cx \<and> cx < x + int (length l)"
proof
  assume "80 * cy + cx \<in> fst ` set (text_writes s x y l)"
  then obtain i where i: "i < length l" "80 * cy + cx = 80 * y + (x + int i)" by (auto simp: text_writes_def)
  then show "cy = y \<and> x \<le> cx \<and> cx < x + int (length l)"
    using assms cell_unique [of cx "x + int i" cy y] by (auto simp: on_screen_def)
next
  assume c: "cy = y \<and> x \<le> cx \<and> cx < x + int (length l)"
  then have "80 * cy + cx = y * 80 + x + int (nat (cx - x))" "nat (cx - x) < length l" by auto
  then show "80 * cy + cx \<in> fst ` set (text_writes s x y l)"
    unfolding text_writes_def by (auto simp: image_image intro!: image_eqI [of _ _ "nat (cx - x)"])
qed

lemma text_drawn:
  assumes "length (framebuf s) = 2000" "on_screen x y" "x + int (length l) \<le> 80"
  shows "tg_text_dos x y l s = Inr (s\<lparr>framebuf := after (text_writes s x y l) (framebuf s)\<rparr>)"
    and "on_screen cx cy \<Longrightarrow> after (text_writes s x y l) (framebuf s) ! nat (80 * cy + cx) =
      (if cy = y \<and> x \<le> cx \<and> cx < x + int (length l) then cell s (int (ccode (l ! nat (cx - x))))
       else framebuf s ! nat (80 * cy + cx))"
proof -
  have "length l < 256" using assms(2,3) by (simp add: on_screen_def)
  moreover have "blit (text_writes s x y l) s = Inr (s\<lparr>framebuf := after (text_writes s x y l) (framebuf s)\<rparr>)"
    using assms by (intro blit_after) (auto simp: text_writes_def on_screen_def)
  ultimately show "tg_text_dos x y l s = Inr (s\<lparr>framebuf := after (text_writes s x y l) (framebuf s)\<rparr>)"
    by (simp add: tg_text_dos_def)
  assume c: "on_screen cx cy"
  then have k: "nat (80 * cy + cx) < length (framebuf s)" "0 \<le> 80 * cy + cx"
    using assms(1) by (auto simp: on_screen_def)
  have f: "\<forall>wr \<in> set (text_writes s x y l). snd wr = cell s (int (ccode (l ! nat (fst wr - (80 * y + x)))))"
    by (auto simp: text_writes_def)
  have "cx - x = 80 * cy + cx - (80 * y + x)" if "cy = y" using that by simp
  then show "after (text_writes s x y l) (framebuf s) ! nat (80 * cy + cx) =
      (if cy = y \<and> x \<le> cx \<and> cx < x + int (length l) then cell s (int (ccode (l ! nat (cx - x))))
       else framebuf s ! nat (80 * cy + cx))"
    using after_block [OF f k(1)] text_cells [OF assms(2,3) c, of s] k(2) by simp
qed

text \<open>What \<open>tg_rect\<close> leaves in a cell.\<close>

definition rect_cell :: "dos_screen \<Rightarrow> string option \<Rightarrow> int \<Rightarrow> int \<Rightarrow> int \<Rightarrow> int \<Rightarrow> bool \<Rightarrow> int \<Rightarrow> int \<Rightarrow> 16 word" where
  "rect_cell s label x y w h frame cx cy =
     (case rect_label label w of
        Some l \<Rightarrow>
          if cy = y \<and> x + 2 \<le> cx \<and> cx < x + 2 + int (length l)
          then cell s (int (ccode (l ! nat (cx - (x + 2)))))
          else if frame \<and> 2 \<le> h \<and> on_border x y w h cx cy then cell s (frame_char x y w h cx cy)
          else if inside x y w h cx cy then cell s (d_bgchar s)
          else framebuf s ! nat (80 * cy + cx)
      | None \<Rightarrow>
          if frame \<and> 2 \<le> w \<and> 2 \<le> h \<and> on_border x y w h cx cy then cell s (frame_char x y w h cx cy)
          else if inside x y w h cx cy then cell s (d_bgchar s)
          else framebuf s ! nat (80 * cy + cx))"

lemma rect_label_width: "rect_label label w = Some l \<Longrightarrow> 8 \<le> w \<and> int (length l) \<le> w - 4"
  by (auto simp: rect_label_def Let_def split: option.splits if_splits)

lemma cell_upd [simp]: "cell (s\<lparr>framebuf := fb\<rparr>) = cell s"
  by (simp add: cell_def fun_eq_iff)

lemma frame_writes_upd [simp]: "frame_writes (s\<lparr>framebuf := fb\<rparr>) = frame_writes s"
  "text_writes (s\<lparr>framebuf := fb\<rparr>) = text_writes s"
  by (simp_all add: frame_writes_def text_writes_def fun_eq_iff)

lemma rect_drawn:
  assumes fb: "length (framebuf s) = 2000" and box: "box_ok x y w h" "label \<noteq> None \<longrightarrow> 0 < h"
  shows "\<exists>fb'. tg_rect_dos label x y w h frame s = Inr (s\<lparr>framebuf := fb'\<rparr>) \<and> length fb' = 2000
    \<and> (\<forall>cx cy. on_screen cx cy \<longrightarrow> fb' ! nat (80 * cy + cx) = rect_cell s label x y w h frame cx cy)"
proof -
  let ?k = "\<lambda>cx cy. nat (80 * cy + cx)"
  have k: "?k cx cy < 2000" "int (?k cx cy) = 80 * cy + cx" if "on_screen cx cy" for cx cy
    using that by (auto simp: on_screen_def)
  define fb1 where "fb1 = after (fill_writes s x y w h) (framebuf s)"
  have b1: "blit (fill_writes s x y w h) s = Inr (s\<lparr>framebuf := fb1\<rparr>)"
    unfolding fb1_def using fill_range [OF box(1)] fb by (intro blit_after) auto
  have c1: "fb1 ! ?k cx cy = (if inside x y w h cx cy then cell s (d_bgchar s) else framebuf s ! ?k cx cy)"
    if "on_screen cx cy" for cx cy
    using after_block [of "fill_writes s x y w h" "\<lambda>_. cell s (d_bgchar s)" "?k cx cy" "framebuf s"]
      fill_range(2) [OF box(1)] k [OF that] fb fill_cells [OF box(1) that, of s] by (simp add: fb1_def)
  have l1: "length fb1 = 2000" using fb by (simp add: fb1_def)
  let ?f = "frame \<and> w \<ge> 2 \<and> h \<ge> 2"
  obtain fb2 where b2: "(if ?f then blit (frame_writes s x y w h) (s\<lparr>framebuf := fb1\<rparr>) else Inr (s\<lparr>framebuf := fb1\<rparr>))
      = Inr (s\<lparr>framebuf := fb2\<rparr>)" "length fb2 = 2000"
    and c2: "\<And>cx cy. on_screen cx cy \<Longrightarrow> fb2 ! ?k cx cy = (if ?f \<and> on_border x y w h cx cy then cell s (frame_char x y w h cx cy) else fb1 ! ?k cx cy)"
  proof (cases ?f)
    case True
    let ?ws = "frame_writes s x y w h"
    have co: "\<exists>cx cy. wr = (80 * cy + cx, cell s (frame_char x y w h cx cy)) \<and> on_border x y w h cx cy \<and> on_screen cx cy"
      if wr: "wr \<in> set ?ws" for wr
    proof -
      obtain cx cy where "wr = (80 * cy + cx, cell s (frame_char x y w h cx cy))" "on_border x y w h cx cy"
        using frame_writes_coords [OF wr box(1)] True by blast
      moreover from this(2) have "on_screen cx cy" using box by (auto simp: on_border_def inside_def on_screen_def box_ok_def)
      ultimately show ?thesis by blast
    qed
    have r: "blit ?ws (s\<lparr>framebuf := fb1\<rparr>) = Inr (s\<lparr>framebuf := after ?ws fb1\<rparr>)"
      using blit_after [of ?ws "s\<lparr>framebuf := fb1\<rparr>"] l1 co by (fastforce simp: on_screen_def)
    have f: "\<forall>wr \<in> set ?ws. snd wr = frame_val s x y w h (fst wr)"
    proof
      fix wr assume "wr \<in> set ?ws"
      then obtain cx cy where "wr = (80 * cy + cx, cell s (frame_char x y w h cx cy))" "on_screen cx cy" using co by blast
      then show "snd wr = frame_val s x y w h (fst wr)"
        using cell_coords [of cx cy] by (simp add: frame_val_def on_screen_def)
    qed
    show ?thesis
    proof (rule that [of "after ?ws fb1"])
      fix cx cy assume c: "on_screen cx cy"
      then have "frame_val s x y w h (80 * cy + cx) = cell s (frame_char x y w h cx cy)"
        using cell_coords [of cx cy] by (simp add: frame_val_def on_screen_def)
      then show "after ?ws fb1 ! ?k cx cy = (if ?f \<and> on_border x y w h cx cy then cell s (frame_char x y w h cx cy) else fb1 ! ?k cx cy)"
        using after_block [OF f, of "?k cx cy" fb1] k [OF c] l1 frame_cells [OF box(1) c, of s] True by simp
    qed (use r True l1 in auto)
  next
    case False
    show ?thesis by (rule that [of fb1]) (use False l1 in auto)
  qed
  show ?thesis
  proof (cases "rect_label label w")
    case None
    have "tg_rect_dos label x y w h frame s = Inr (s\<lparr>framebuf := fb2\<rparr>)"
      by (simp only: tg_rect_dos_def b1 bindE_Inr frame_writes_upd b2(1) None option.case)
    then show ?thesis using c1 c2 b2(2) None by (intro exI [of _ fb2]) (auto simp: rect_cell_def)
  next
    case (Some l)
    have w: "8 \<le> w" "int (length l) \<le> w - 4" using rect_label_width [OF Some] by auto
    have "label \<noteq> None" using Some by (cases label) (auto simp: rect_label_def)
    then have os: "on_screen (x + 2) y" using box w by (auto simp: on_screen_def box_ok_def)
    have fits: "x + 2 + int (length l) \<le> 80" using box w by (auto simp: box_ok_def)
    let ?fb = "after (text_writes s (x + 2) y l) fb2"
    note td = text_drawn [of "s\<lparr>framebuf := fb2\<rparr>", OF _ os fits]
    have "tg_rect_dos label x y w h frame s = Inr (s\<lparr>framebuf := ?fb\<rparr>)"
      using b2(2) td(1) by (simp only: tg_rect_dos_def b1 bindE_Inr frame_writes_upd b2(1) Some option.case) simp
    then show ?thesis
      using td(2) c1 c2 b2(2) Some w by (intro exI [of _ ?fb]) (auto simp: rect_cell_def)
  qed
qed

end
