(* ===== verification/Screens.thy ===== *)
theory Screens
  imports Client_Inv Tgfx_Dos
begin

text \<open>
  What the user interface draws, on the screen of DOS. \<open>fits\<close> says of a drawing call that its writes stay
  inside of the frame buffer; the lemmas show it for the lists, the viewer and the bars, so that a
  refresh in any state that satisfies the invariant is drawn without a write behind the buffer, as long
  as the two texts that come from outside (the host and the name of the transferred file) have a length that
  the buffer of \<open>tg_vtext\<close> holds.
\<close>

section \<open>Calls that stay on the screen\<close>

fun fits :: "draw_cmd \<Rightarrow> bool" where
  "fits (TgRect l x y w h f) \<longleftrightarrow>
     0 \<le> x \<and> 0 \<le> y \<and> 0 \<le> w \<and> w \<le> 80 \<and> 0 < h \<and> 80 * (y + h - 1) + x + w \<le> 2000"
| "fits (TgPutchar x y c) \<longleftrightarrow> on_screen x y"
| "fits (TgText x y t) \<longleftrightarrow> 0 \<le> x \<and> 0 \<le> y \<and> 80 * y + x + int (length t) \<le> 2000 \<and> length t < 256"
| "fits (TgArrow x y g t) \<longleftrightarrow> 0 \<le> x \<and> 0 \<le> y \<and> 80 * y + x + 1 + int (length t) \<le> 2000 \<and> length t < 255"
| "fits _ \<longleftrightarrow> True"

text \<open>The static line pointer of \<open>tg_putchar\<close> belongs to the line it was set for.\<close>

definition screen_ok :: "dos_screen \<Rightarrow> bool" where
  "screen_ok s \<longleftrightarrow> length (framebuf s) = 2000 \<and> (line_y s = -1 \<or> line_at s = 80 * line_y s)"

lemma blit_fits:
  assumes "screen_ok s" "\<forall>w \<in> set ws. 0 \<le> fst w \<and> fst w < 2000"
  shows "\<exists>fb. blit ws s = Inr (s\<lparr>framebuf := fb\<rparr>) \<and> screen_ok (s\<lparr>framebuf := fb\<rparr>)"
  using assms blit_after [of ws s] by (auto simp: screen_ok_def)

lemma text_fits:
  assumes "screen_ok s" "fits (TgText x y t)"
  shows "\<exists>s'. tg_text_dos x y t s = Inr s' \<and> screen_ok s'"
proof -
  have "\<forall>w \<in> set (text_writes s x y t). 0 \<le> fst w \<and> fst w < 2000" using assms(2) by (auto simp: text_writes_def)
  from blit_fits [OF assms(1) this] show ?thesis using assms(2) by (auto simp: tg_text_dos_def)
qed

lemma fill_writes_range:
  assumes "0 \<le> x" "0 \<le> y" "80 * (y + h - 1) + x + w \<le> 2000" "wr \<in> set (fill_writes s x y w h)"
  shows "0 \<le> fst wr \<and> fst wr < 2000"
proof -
  obtain i j where ij: "fst wr = y * 80 + x + 80 * i + j" "0 \<le> i" "i \<le> h - 1" "0 \<le> j" "j \<le> w - 1"
    using assms(4) by (auto simp: fill_writes_def)
  then show ?thesis using assms(1-3) by (simp add: algebra_simps)
qed

lemma frame_writes_range:
  assumes "0 \<le> x" "0 \<le> y" "2 \<le> w" "2 \<le> h" "80 * (y + h - 1) + x + w \<le> 2000" "wr \<in> set (frame_writes s x y w h)"
  shows "0 \<le> fst wr \<and> fst wr < 2000"
proof -
  have "(\<exists>i. 0 \<le> i \<and> i \<le> w - 3 \<and> (fst wr = y * 80 + x + i + 1 \<or> fst wr = y * 80 + x + (h - 1) * 80 + i + 1))
    \<or> (\<exists>i. 0 \<le> i \<and> i \<le> h - 3 \<and> (fst wr = y * 80 + x + (i + 1) * 80 \<or> fst wr = y * 80 + x + (w - 1) + (i + 1) * 80))
    \<or> fst wr = y * 80 + x \<or> fst wr = y * 80 + x + (w - 1)
    \<or> fst wr = y * 80 + x + (h - 1) * 80 \<or> fst wr = y * 80 + x + (h - 1) * 80 + (w - 1)"
    using assms(6) by (auto simp: frame_writes_def Let_def)
  then show ?thesis using assms(1-5) by (elim disjE exE conjE) (simp_all add: algebra_simps)
qed

lemma rect_fits:
  assumes "screen_ok s" "fits (TgRect l x y w h f)"
  shows "\<exists>s'. tg_rect_dos l x y w h f s = Inr s' \<and> screen_ok s'"
proof -
  have b: "0 \<le> x" "0 \<le> y" "0 \<le> w" "0 < h" "80 * (y + h - 1) + x + w \<le> 2000" using assms(2) by simp_all
  obtain fb1 where 1: "blit (fill_writes s x y w h) s = Inr (s\<lparr>framebuf := fb1\<rparr>)" "screen_ok (s\<lparr>framebuf := fb1\<rparr>)"
    using blit_fits [OF assms(1), of "fill_writes s x y w h"] fill_writes_range [OF b(1,2,5)] by blast
  let ?s1 = "s\<lparr>framebuf := fb1\<rparr>"
  have "\<exists>s2. (if f \<and> w \<ge> 2 \<and> h \<ge> 2 then blit (frame_writes ?s1 x y w h) ?s1 else Inr ?s1) = Inr s2 \<and> screen_ok s2"
  proof (cases "f \<and> w \<ge> 2 \<and> h \<ge> 2")
    case True
    then show ?thesis
      using blit_fits [OF 1(2), of "frame_writes ?s1 x y w h"] frame_writes_range [OF b(1,2) _ _ b(5)] by auto
  qed (use 1(2) in auto)
  then obtain s2 where 2: "(if f \<and> w \<ge> 2 \<and> h \<ge> 2 then blit (frame_writes ?s1 x y w h) ?s1 else Inr ?s1) = Inr s2" "screen_ok s2"
    by blast
  show ?thesis
  proof (cases "rect_label l w")
    case None
    then show ?thesis using 1(1) 2 by (simp add: tg_rect_dos_def del: frame_writes_upd)
  next
    case (Some t)
    have t: "8 \<le> w" "int (length t) \<le> w - 4" using rect_label_width [OF Some] by auto
    have "80 * y + x + w \<le> 2000" using b by (simp add: algebra_simps)
    moreover have "length t < 256" using t(2) assms(2) by simp
    ultimately have "fits (TgText (x + 2) y t)" using b t by simp
    from text_fits [OF 2(2) this] show ?thesis
      using 1(1) 2(1) Some by (simp add: tg_rect_dos_def del: frame_writes_upd)
  qed
qed

lemma draw_dos_fits:
  assumes "screen_ok s" "fits d"
  shows "\<exists>s'. draw_dos d s = Inr s' \<and> screen_ok s'"
proof (cases d)
  case (TgPutchar x y c)
  define t where "t = (if y \<noteq> line_y s then s\<lparr>line_at := y * 80, line_y := y\<rparr> else s)"
  have b: "0 \<le> x" "x < 80" "0 \<le> y" "y < 25" using assms(2) TgPutchar by (simp_all add: on_screen_def)
  then have t: "screen_ok t" "line_at t = 80 * y" using assms(1) by (auto simp: t_def screen_ok_def)
  have "\<exists>fb. blit [(line_at t + x, cell t (int (ccode c)))] t = Inr (t\<lparr>framebuf := fb\<rparr>) \<and> screen_ok (t\<lparr>framebuf := fb\<rparr>)"
    using t(2) b by (intro blit_fits [OF t(1)]) simp
  moreover have "draw_dos d s = blit [(line_at t + x, cell t (int (ccode c)))] t"
    using TgPutchar by (simp only: draw_dos.simps tg_putchar_dos_def Let_def t_def)
  ultimately show ?thesis by metis
next
  case (TgRect l x y w h f)
  then show ?thesis using rect_fits [OF assms(1)] assms(2) by simp
next
  case (TgText x y t)
  then show ?thesis using text_fits [OF assms(1)] assms(2) by simp
next
  case (TgArrow x y g t)
  then have "fits (TgText x y (tg_gchar_dos g # t))" using assms(2) by auto
  from text_fits [OF assms(1) this] show ?thesis using TgArrow by simp
qed (use assms in \<open>simp_all add: screen_ok_def tg_fgcolor_dos_def tg_bgcolor_dos_def upd_attr_dos_def\<close>)

lemma draw_all_fits:
  "screen_ok s \<Longrightarrow> list_all fits ds \<Longrightarrow> \<exists>s'. draw_all_dos ds s = Inr s' \<and> screen_ok s'"
proof (induction ds arbitrary: s)
  case (Cons d ds)
  then show ?case using draw_dos_fits [of s d] by fastforce
qed simp

lemma draw_all_append: "draw_all_dos (a @ b) s = bindE (draw_all_dos a s) (draw_all_dos b)"
proof (induction a arbitrary: s)
  case (Cons c a)
  then show ?case by (cases "draw_dos c s") simp_all
qed simp

section \<open>Lists\<close>

lemma draw_entries_fits:
  assumes "0 \<le> x" "0 \<le> y" "x + int maxlen \<le> 80" "y + int n < 25"
  shows "draw_entries wl x y maxlen i n = Inr ds \<Longrightarrow> list_all fits ds"
  using assms
proof (induction n arbitrary: i y ds)
  case (Suc n)
  obtain e rest where e: "darr_get (entries wl) (int i + view_offs wl) = Inr e"
    "draw_entries wl x (y + 1) maxlen (Suc i) n = Inr rest"
    "ds = draw_entry x (y + 1) maxlen (w_focus wl \<and> int i + view_offs wl = cur wl) e @ rest"
    using Suc.prems(1) by (auto simp: res_simps Let_def)
  have "list_all fits rest" using Suc.IH [OF e(2)] Suc.prems by simp
  moreover have "list_all fits (draw_entry x (y + 1) maxlen h e)" for h
  proof -
    define t where "t = take maxlen (e_text e)"
    have "length t \<le> maxlen" by (simp add: t_def)
    then show ?thesis using Suc.prems(2-5) by (simp add: draw_entry_def Let_def t_def [symmetric])
  qed
  ultimately show ?case using e(3) by simp
qed simp

lemma draw_list_fits:
  assumes "list_ui w" "draw_list_at w (w_x w, w_y w) = Inr ds"
  shows "list_all fits ds"
proof -
  have f: "0 \<le> w_x w" "w_x w + w_width w \<le> 80" "0 \<le> w_y w" "w_y w + w_height w \<le> 25" "2 \<le> w_width w" "2 < w_height w"
    using assms(1) by (simp_all add: list_ui_def in_frame_def list_wf_def)
  define num where "num = (if int (darr_size (entries w)) > w_height w - 2 then nat (w_height w - 2)
                 else darr_size (entries w))"
  obtain rows where r: "draw_entries w (w_x w + 1) (w_y w) (nat (w_width w - 2)) 0 num = Inr rows"
    "ds = [TgBg Blue, TgFg Cyan, TgRect (w_title w) (w_x w) (w_y w) (w_width w) (w_height w) True] @ rows"
    using assms(2) by (auto simp: draw_list_at_def Let_def num_def res_simps)
  have "int num \<le> w_height w - 2" using f by (auto simp: num_def)
  then have "list_all fits rows" using f by (intro draw_entries_fits [OF _ _ _ _ r(1)]) auto
  then show ?thesis using r(2) f by simp
qed

section \<open>The viewer and the bars\<close>

lemma tab_stop_bounds: "0 \<le> x \<Longrightarrow> x < 78 \<Longrightarrow> x < (x + 4) AND 0xfffc \<and> (x + 4) AND 0xfffc \<le> (80 :: int) \<and> (x + 4) AND 0xfffc \<le> x + 4"
proof -
  have "\<forall>x \<in> set [0..77 :: int]. x < (x + 4) AND 0xfffc \<and> (x + 4) AND 0xfffc \<le> 80 \<and> (x + 4) AND 0xfffc \<le> x + 4"
    by code_simp
  then show "0 \<le> x \<Longrightarrow> x < 78 \<Longrightarrow> ?thesis" by simp
qed

lemma draw_row_fits: "0 \<le> hs \<Longrightarrow> 0 \<le> x \<Longrightarrow> 1 \<le> row \<Longrightarrow> row \<le> 22 \<Longrightarrow> list_all fits (draw_row hs row x bytes)"
proof (induction hs row x bytes rule: draw_row.induct)
  case (1 hs row x bytes)
  show ?case
  proof (cases "x < num_viscol")
    case True
    show ?thesis
    proof (cases bytes)
      case Nil
      then show ?thesis using 1(3-6) True by (simp add: draw_row.simps [of hs row x] num_viscol_def Let_def)
    next
      case (Cons c cs)
      note ts = tab_stop_bounds [of x]
      show ?thesis
      proof (cases "c = TAB")
        case True
        then show ?thesis
          using 1(1) [OF \<open>x < num_viscol\<close> Cons True refl] 1(3-6) ts \<open>x < num_viscol\<close> Cons
          by (simp add: draw_row.simps [of hs row x] num_viscol_def Let_def)
      next
        case False
        then show ?thesis
          using 1(2) [OF True Cons False] 1(3-6) True Cons
          by (simp add: draw_row.simps [of hs row x] num_viscol_def on_screen_def)
      qed
    qed
  qed (simp add: draw_row.simps [of hs row x])
qed

lemma draw_rows_fits:
  "draw_rows v ls bytes i n = Inr ds \<Longrightarrow> 0 \<le> v_hscroll v \<Longrightarrow> i + n \<le> 22 \<Longrightarrow> list_all fits ds"
proof (induction n arbitrary: i ds)
  case (Suc n)
  then show ?case by (auto simp: res_simps intro!: draw_row_fits)
qed simp

lemma buttons_fit: "list_all fits (draw_buttons 0 0 view_bntext)" "list_all fits (draw_buttons 0 0 main_bntext)"
  "list_all fits (draw_buttons 0 0 (main_bntext[4 := ''Upload'']))"
  by code_simp+

lemma view_update_fits:
  assumes "view_update v = Inr (v', ds)" "0 \<le> v_hscroll v"
  shows "list_all fits ds"
proof (cases "v_dirty v = 0")
  case False
  obtain tx where t: "(if v_dirty v AND UI_TEXT \<noteq> 0
                  then (case v_lines v of
                          None \<Rightarrow> Inl UseAfterFree
                        | Some ls \<Rightarrow>
                            bindE (draw_rows v ls
                                     (case v_data v of None \<Rightarrow> [] | Some m \<Rightarrow> vmem_bytes m) 0
                                     (min (darr_size ls) (nat (num_vislines - 1))))
                              (\<lambda>t. Inr ([TgFg White, TgBg Blue] @ t)))
                  else Inr []) = Inr tx"
    "ds = (if v_dirty v AND UI_FRAME \<noteq> 0 then [TgFg White, TgBg Blue, TgRect (v_title v) 0 0 80 23 True] else []) @ tx
       @ (if v_dirty v AND UI_BUTTONS \<noteq> 0 then draw_buttons 0 0 view_bntext else []) @ [TgRedraw]"
    using assms(1) False by (auto simp: view_update_def Let_def res_simps simp del: draw_buttons.simps)
  have "list_all fits tx"
    using t(1) assms(2) by (auto simp: res_simps num_vislines_def split: if_splits option.splits dest!: draw_rows_fits)
  then show ?thesis using t(2) buttons_fit(1) by simp
qed (use assms in \<open>simp add: view_update_def\<close>)

section \<open>A refresh\<close>

text \<open>The two texts that are not cut to a width.\<close>

definition names_short :: "cs \<Rightarrow> bool" where
  "names_short s \<longleftrightarrow> length (opt_host (c_opts (app s))) < 251
     \<and> (\<forall>i x. c_cur_xfer (app s) = Some i \<and> xfers s i = Some x \<longrightarrow> length (x_rname x) < 255)"

definition fit_ok :: "cs \<Rightarrow> (cs \<times> 32 word \<times> draw_cmd list) res \<Rightarrow> bool" where
  "fit_ok s m \<longleftrightarrow> ui_ok s m \<and> (\<forall>t u d. m = Inr (t, u, d) \<longrightarrow> list_all fits d)"

lemma fit_okD: "fit_ok s m \<Longrightarrow> m = Inr (t, u, d) \<Longrightarrow> cstep s t \<and> list_all fits d"
  by (auto simp: fit_ok_def)

lemma ui_status_fits:
  assumes "cstep s t" "names_short t"
  shows "fit_ok s (ui_status t)" and "ui_status t = Inr (t', u, d) \<Longrightarrow> names_short t'"
  using assms ui_status_ok [OF assms(1)] by (auto simp: fit_ok_def ui_status_def names_short_def Let_def split: if_splits)

lemma length_progress: "length (progress x) \<le> 5"
proof -
  have "\<forall>p \<in> set [0..100]. length (pct_text p) \<le> 5" by code_simp
  then have "length (pct_text p) \<le> 5" if "0 \<le> p" "p \<le> 100" for p using that by simp
  then show ?thesis by (simp add: progress_def Let_def)
qed

lemma ui_xfer_fits:
  assumes "cstep s t" "names_short t"
  shows "fit_ok s (ui_xfer t)"
proof -
  have "list_all fits d" if "ui_xfer t = Inr (t', u, d)" for t' u d
    using that assms(2) le_less_trans [OF length_progress, of 256] order_trans [OF length_progress, of 1925]
    by (auto simp: ui_xfer_def names_short_def res_simps split: option.splits if_splits)
  then show ?thesis using ui_xfer_ok [OF assms(1)] by (simp add: fit_ok_def)
qed

lemma ui_remote_fits: "cstep s t \<Longrightarrow> fit_ok s (ui_remote t)"
  using ui_remote_ok [of s t] by (auto simp: fit_ok_def ui_remote_def res_simps split: if_splits)

lemma ui_local_fits: "cstep s t \<Longrightarrow> fit_ok s (ui_local t)"
  using ui_local_ok [of s t] by (auto simp: fit_ok_def ui_local_def res_simps Let_def split: if_splits)

lemma draw_widget_fits:
  assumes t: "cstep s t" and i: "i < 2"
  shows "\<exists>t' d. draw_widget i t = Inr (t', d) \<and> list_all fits d"
proof -
  let ?w = "c_uilist (app t) i"
  have l: "list_ui ?w" using cstep_lists [OF t] i by (auto simp: less_2_cases_iff)
  then have sl: "w_slots ?w = list_slots" by (simp add: list_ui_def)
  from ui_draw_ok [OF l, of "(0 + w_x ?w, 0 + w_y ?w)"] obtain d where d: "draw_list_at ?w (w_x ?w, w_y ?w) = Inr d" by auto
  have "draw_list 2 (ui_store t) i = Inr d"
    using i sl d by (simp add: draw_list_def ui_store_def w_deref_def w_link_def numeral_2_eq_2 del: PAR_def)
  then have "draw_widget i t = Inr (set_list i (?w\<lparr>w_dirty := False\<rparr>) t, d @ [TgRedraw])"
    using i sl by (simp add: draw_widget_def numeral_2_eq_2 w_deref_def ui_store_def w_link_def
        del: PAR_def CHILD_def)
  then show ?thesis using draw_list_fits [OF l d] by simp
qed

lemma ui_draw_fits: "cstep s t \<Longrightarrow> i < 2 \<Longrightarrow> fit_ok s (ui_draw i b upd t)"
  using ui_draw_step [of s t i b upd] draw_widget_fits [of s t i] by (auto simp: fit_ok_def ui_draw_def)

lemma ui_bars_fits: "cstep s t \<Longrightarrow> fit_ok s (ui_bars t)"
  using buttons_fit(2,3) by (auto simp: fit_ok_def ui_bars_def Let_def)

lemma updateui_fits:
  assumes t: "cstep s t" and n: "names_short t" and u: "updateui t = Inr (t', d)"
  shows "list_all fits d"
proof -
  obtain t1 u1 d1 where 1: "ui_status t = Inr (t1, u1, d1)" using u by (auto simp: updateui_def res_simps)
  obtain t2 u2 d2 where 2: "ui_xfer t1 = Inr (t2, u2, d2)" using u 1 by (auto simp: updateui_def res_simps)
  obtain t3 u3 d3 where 3: "ui_remote t2 = Inr (t3, u3, d3)" using u 1 2 by (auto simp: updateui_def res_simps)
  obtain t4 u4 d4 where 4: "ui_local t3 = Inr (t4, u4, d4)" using u 1 2 3 by (auto simp: updateui_def res_simps)
  let ?upd = "u1 OR u2 OR u3 OR u4"
  obtain t5 u5 d5 where 5: "ui_draw 0 1 ?upd t4 = Inr (t5, u5, d5)"
    using u 1 2 3 4 by (auto simp: updateui_def res_simps Let_def)
  obtain t6 u6 d6 where 6: "ui_draw 1 2 ?upd t5 = Inr (t6, u6, d6)"
    using u 1 2 3 4 5 by (auto simp: updateui_def res_simps Let_def)
  obtain t7 u7 d7 where 7: "ui_bars t6 = Inr (t7, u7, d7)" "d = (d1 @ d2 @ d3 @ d4 @ d5 @ d6 @ d7) @ [TgRedraw] \<or> d = d1 @ d2 @ d3 @ d4 @ d5 @ d6 @ d7"
    using u 1 2 3 4 5 6 by (auto simp: updateui_def res_simps Let_def split: if_splits)
  have lists: "0 < (2 :: nat)" "1 < (2 :: nat)" by simp_all
  note f1 = fit_okD [OF ui_status_fits(1) [OF t n] 1]
  have c1: "cstep s t1" using f1 by blast
  note f2 = fit_okD [OF ui_xfer_fits [OF c1 ui_status_fits(2) [OF t n 1]] 2]
  have c2: "cstep s t2" using f2 by blast
  note f3 = fit_okD [OF ui_remote_fits [OF c2] 3]
  have c3: "cstep s t3" using f3 by blast
  note f4 = fit_okD [OF ui_local_fits [OF c3] 4]
  have c4: "cstep s t4" using f4 by blast
  note f5 = fit_okD [OF ui_draw_fits [OF c4 lists(1)] 5]
  have c5: "cstep s t5" using f5 by blast
  note f6 = fit_okD [OF ui_draw_fits [OF c5 lists(2)] 6]
  have c6: "cstep s t6" using f6 by blast
  note f7 = fit_okD [OF ui_bars_fits [OF c6] 7(1)]
  show ?thesis using 7(2) f1 f2 f3 f4 f5 f6 f7 by (elim disjE) simp_all
qed

end
