(* ===== verification/Tgfx_Unix.thy ===== *)
theory Tgfx_Unix
  imports Screen "HOL-Library.Sublist"
begin

text \<open>
  The backend on curses (\<open>src/unix/tgfx.c\<close>). What it does is the list of its calls to the library, with
  the colour pairs it has defined as its state: \<open>upd_color\<close> looks for the pair of the current colours and
  defines a new one when there is none.

  The lemmas say that the pairs are numbered from 1, that no two have the same colours, that a pair
  keeps its colours, and that as long as there is room each call draws in the current colours.
\<close>

section \<open>State\<close>

text \<open>The numbers of the library: the size of its tables, the colours the code names, its characters.\<close>

record curses_lib =
  COLORS :: int
  COLOR_RED :: int
  COLOR_BLUE :: int
  COLOR_CYAN :: int
  COLOR_YELLOW :: int
  ACS_LARROW :: int
  ACS_RARROW :: int

datatype line_char = HLine | VLine | ULCorner | URCorner | LLCorner | LRCorner | Code int

text \<open>\<open>CAddch c p\<close> is \<open>addch (c | COLOR_PAIR (p))\<close>.\<close>

datatype curses_call =
    CInit string
  | CInitPair int int int
  | CAttron int
  | CAttroff int
  | CMove int int
  | CAddch int int
  | CMvaddch int int line_char
  | CHline line_char int
  | CVline line_char int
  | CPrintw string
  | CClear
  | CRefresh
  | CEndwin

text \<open>
  \<open>colors\<close> is the array of \<open>struct cpair\<close> up to \<open>num_colors\<close>, each with its number, its foreground and its
  background.
\<close>

record curses_state =
  colors :: "(int \<times> int \<times> int) list"
  u_fgcol :: int
  u_bgcol :: int
  u_bgchar :: int
  cur_pair :: int
  cur_x :: int
  cur_y :: int
  calls :: "curses_call list"

definition ccall :: "curses_call \<Rightarrow> curses_state \<Rightarrow> curses_state" where
  "ccall c s = s\<lparr>calls := calls s @ [c]\<rparr>"

section \<open>Colours\<close>

definition curses_color :: "curses_lib \<Rightarrow> int \<Rightarrow> int" where
  "curses_color lib col =
     (if col = 4 then COLOR_RED lib
      else if col = 1 then COLOR_BLUE lib
      else if col = 3 then COLOR_CYAN lib
      else if col = 6 then COLOR_YELLOW lib
      else col)"

definition upd_color :: "curses_lib \<Rightarrow> curses_state \<Rightarrow> curses_state" where
  "upd_color lib s =
     (case find (\<lambda>(pair, fg, bg). u_fgcol s = fg \<and> u_bgcol s = bg) (colors s) of
        Some (pair, fg, bg) \<Rightarrow> s\<lparr>cur_pair := pair\<rparr>
      | None \<Rightarrow>
          if int (length (colors s)) \<ge> COLORS lib then s
          else
            let n = int (length (colors s)) + 1
            in ccall (CInitPair n (u_fgcol s) (u_bgcol s))
                 (s\<lparr>cur_pair := n, colors := colors s @ [(n, u_fgcol s, u_bgcol s)]\<rparr>))"

section \<open>Operations\<close>

definition tg_init_unix :: "curses_lib \<Rightarrow> curses_state" where
  "tg_init_unix lib =
     \<lparr>colors = [], u_fgcol = curses_color lib 7, u_bgcol = curses_color lib 0, u_bgchar = 32, cur_pair = 0,
      cur_x = 0, cur_y = 0,
      calls = map CInit [''initscr'', ''cbreak'', ''keypad'', ''nodelay'', ''noecho'', ''curs_set'', ''start_color'']\<rparr>"

definition tg_cleanup_unix :: "curses_state \<Rightarrow> curses_state" where
  "tg_cleanup_unix = ccall CEndwin"

definition tg_redraw_unix :: "curses_state \<Rightarrow> curses_state" where
  "tg_redraw_unix s = ccall CRefresh (ccall (CMove (cur_y s) (cur_x s)) s)"

definition tg_clear_unix :: "curses_state \<Rightarrow> curses_state" where
  "tg_clear_unix = ccall CClear"

definition tg_fgcolor_unix :: "curses_lib \<Rightarrow> int \<Rightarrow> curses_state \<Rightarrow> curses_state" where
  "tg_fgcolor_unix lib col s = s\<lparr>u_fgcol := curses_color lib col\<rparr>"

definition tg_bgcolor_unix :: "curses_lib \<Rightarrow> int \<Rightarrow> curses_state \<Rightarrow> curses_state" where
  "tg_bgcolor_unix lib col s = s\<lparr>u_bgcol := curses_color lib col\<rparr>"

definition tg_color_unix :: "curses_lib \<Rightarrow> int \<Rightarrow> curses_state \<Rightarrow> curses_state" where
  "tg_color_unix lib col s =
     s\<lparr>u_fgcol := curses_color lib (col AND 0xf), u_bgcol := curses_color lib ((drop_bit 4 col) AND 0xf)\<rparr>"

definition tg_bgchar_unix :: "int \<Rightarrow> curses_state \<Rightarrow> curses_state" where
  "tg_bgchar_unix c s = s\<lparr>u_bgchar := c\<rparr>"

definition tg_setcursor_unix :: "int \<Rightarrow> int \<Rightarrow> curses_state \<Rightarrow> curses_state" where
  "tg_setcursor_unix x y s = (ccall (CMove y x) s)\<lparr>cur_x := x, cur_y := y\<rparr>"

definition is_print :: "int \<Rightarrow> bool" where
  "is_print c \<longleftrightarrow> 32 \<le> c \<and> c < 127"

definition tg_putchar_unix :: "curses_lib \<Rightarrow> int \<Rightarrow> int \<Rightarrow> int \<Rightarrow> curses_state \<Rightarrow> curses_state" where
  "tg_putchar_unix lib x y c s =
     (let s = upd_color lib s;
          c = (if \<not> is_print c then 63 else c);
          s = ccall (CMove y x) s
      in ccall (CAddch c (cur_pair s)) s)"

definition tg_vtext_unix :: "curses_lib \<Rightarrow> int \<Rightarrow> int \<Rightarrow> string \<Rightarrow> curses_state \<Rightarrow> curses_state" where
  "tg_vtext_unix lib x y str s =
     (let s = upd_color lib s;
          s = ccall (CAttron (cur_pair s)) s;
          s = ccall (CMove y x) s;
          s = ccall (CPrintw str) s
      in ccall (CAttroff (cur_pair s)) s)"

definition tg_text_unix :: "curses_lib \<Rightarrow> int \<Rightarrow> int \<Rightarrow> string \<Rightarrow> curses_state \<Rightarrow> curses_state" where
  "tg_text_unix lib x y str s = tg_vtext_unix lib x y str s"

definition frame_calls :: "int \<Rightarrow> int \<Rightarrow> int \<Rightarrow> int \<Rightarrow> curses_call list" where
  "frame_calls x y xsz ysz =
     [CMove y (x + 1), CHline HLine (xsz - 2), CMove (y + ysz - 1) (x + 1), CHline HLine (xsz - 2),
      CMove (y + 1) x, CVline VLine (ysz - 2), CMove (y + 1) (x + xsz - 1), CVline VLine (ysz - 2),
      CMvaddch y x ULCorner, CMvaddch y (x + xsz - 1) URCorner, CMvaddch (y + ysz - 1) x LLCorner,
      CMvaddch (y + ysz - 1) (x + xsz - 1) LRCorner]"

definition tg_rect_unix ::
  "curses_lib \<Rightarrow> string option \<Rightarrow> int \<Rightarrow> int \<Rightarrow> int \<Rightarrow> int \<Rightarrow> bool \<Rightarrow> curses_state \<Rightarrow> curses_state" where
  "tg_rect_unix lib label x y xsz ysz frame s =
     (let s = upd_color lib s;
          s = ccall (CAttron (cur_pair s)) s;
          s = fold ccall (concat (map (\<lambda>i. [CMove (y + i) x, CHline (Code (u_bgchar s)) xsz]) [0..ysz - 1])) s;
          s = (if frame \<and> xsz \<ge> 2 \<and> ysz \<ge> 2 then fold ccall (frame_calls x y xsz ysz) s else s);
          s = (case label of
                 None \<Rightarrow> s
               | Some l \<Rightarrow>
                   if xsz \<ge> 8
                   then (let maxlen = xsz - 4; len = int (length l)
                         in tg_text_unix lib (x + 2) y (if len > maxlen then drop (nat (len - maxlen)) l else l) s)
                   else s);
          s = ccall (CAttroff (cur_pair s)) s
      in ccall CRefresh s)"

definition tg_gchar_unix :: "curses_lib \<Rightarrow> gchar \<Rightarrow> int" where
  "tg_gchar_unix lib g = (case g of LArrow \<Rightarrow> ACS_LARROW lib | RArrow \<Rightarrow> ACS_RARROW lib)"

section \<open>Commands of the user interface\<close>

fun color_number :: "color \<Rightarrow> int" where
  "color_number Black = 0" | "color_number Blue = 1" | "color_number Green = 2" | "color_number Cyan = 3"
| "color_number Red = 4" | "color_number Magenta = 5" | "color_number Yellow = 6" | "color_number White = 7"

text \<open>The format \<open>%c\<close> keeps the low byte of the value of \<open>tg_gchar\<close>.\<close>

fun draw_unix :: "curses_lib \<Rightarrow> draw_cmd \<Rightarrow> curses_state \<Rightarrow> curses_state" where
  "draw_unix lib (TgFg c) s = tg_fgcolor_unix lib (color_number c) s"
| "draw_unix lib (TgBg c) s = tg_bgcolor_unix lib (color_number c) s"
| "draw_unix lib (TgRect l x y w h f) s = tg_rect_unix lib l x y w h f s"
| "draw_unix lib (TgPutchar x y c) s = tg_putchar_unix lib x y (int (ccode c)) s"
| "draw_unix lib (TgText x y t) s = tg_text_unix lib x y t s"
| "draw_unix lib (TgArrow x y g t) s =
     tg_text_unix lib x y (char_of (nat (tg_gchar_unix lib g mod 256)) # t) s"
| "draw_unix lib TgRedraw s = tg_redraw_unix s"

definition draw_all_unix :: "curses_lib \<Rightarrow> draw_cmd list \<Rightarrow> curses_state \<Rightarrow> curses_state" where
  "draw_all_unix lib ds s = fold (draw_unix lib) ds s"

section \<open>Colour pairs\<close>

text \<open>The definitions of pairs among the calls.\<close>

definition pair_defs :: "curses_call list \<Rightarrow> (int \<times> int \<times> int) list" where
  "pair_defs cs = concat (map (\<lambda>c. case c of CInitPair p f b \<Rightarrow> [(p, f, b)] | _ \<Rightarrow> []) cs)"

lemma pair_defs_simps [simp]: "pair_defs [] = []" "pair_defs (cs @ ds) = pair_defs cs @ pair_defs ds"
  "pair_defs (CInitPair p f b # cs) = (p, f, b) # pair_defs cs"
  by (simp_all add: pair_defs_def)

definition colors_ok :: "curses_lib \<Rightarrow> curses_state \<Rightarrow> bool" where
  "colors_ok lib s \<longleftrightarrow> distinct (map snd (colors s)) \<and> map fst (colors s) = map (\<lambda>i. int i + 1) [0..<length (colors s)]
     \<and> int (length (colors s)) \<le> max 0 (COLORS lib) \<and> pair_defs (calls s) = colors s"

text \<open>The pair the next call draws with is the one of the current colours.\<close>

definition in_color :: "curses_state \<Rightarrow> bool" where
  "in_color s \<longleftrightarrow> map_of (colors s) (cur_pair s) = Some (u_fgcol s, u_bgcol s)"

lemma colors_nth:
  assumes "colors_ok lib s" "(p, c) \<in> set (colors s)"
  shows "map_of (colors s) p = Some c"
proof -
  have "distinct (map fst (colors s))" using assms(1) by (auto simp: colors_ok_def distinct_map inj_on_def)
  then show ?thesis using assms(2) by simp
qed

text \<open>There is room when the pair of the current colours exists or can be made.\<close>

definition room :: "curses_lib \<Rightarrow> curses_state \<Rightarrow> bool" where
  "room lib s \<longleftrightarrow>
     (u_fgcol s, u_bgcol s) \<in> snd ` set (colors s) \<or> int (length (colors s)) < COLORS lib"

lemma upd_color_fields [simp]:
  "u_fgcol (upd_color lib s) = u_fgcol s" "u_bgcol (upd_color lib s) = u_bgcol s"
  by (auto simp: upd_color_def ccall_def Let_def split: option.split)

lemma found_in: "find P l = Some x \<Longrightarrow> P x \<and> x \<in> set l"
  by (induction l) (auto split: if_splits)

lemma upd_color_cases:
  obtains (found) p where "(p, u_fgcol s, u_bgcol s) \<in> set (colors s)" "upd_color lib s = s\<lparr>cur_pair := p\<rparr>"
  | (full) "(u_fgcol s, u_bgcol s) \<notin> snd ` set (colors s)" "int (length (colors s)) \<ge> COLORS lib" "upd_color lib s = s"
  | (new) "(u_fgcol s, u_bgcol s) \<notin> snd ` set (colors s)" "int (length (colors s)) < COLORS lib"
      "upd_color lib s = ccall (CInitPair (int (length (colors s)) + 1) (u_fgcol s) (u_bgcol s))
         (s\<lparr>cur_pair := int (length (colors s)) + 1,
           colors := colors s @ [(int (length (colors s)) + 1, u_fgcol s, u_bgcol s)]\<rparr>)"
proof (cases "find (\<lambda>(pair, fg, bg). u_fgcol s = fg \<and> u_bgcol s = bg) (colors s)")
  case None
  then have "(u_fgcol s, u_bgcol s) \<notin> snd ` set (colors s)" by (auto simp: find_None_iff)
  then show thesis using None full new by (cases "int (length (colors s)) \<ge> COLORS lib") (auto simp: upd_color_def Let_def)
next
  case (Some x)
  obtain p f b where x: "x = (p, f, b)" by (cases x)
  have "x \<in> set (colors s) \<and> u_fgcol s = f \<and> u_bgcol s = b" using found_in [OF Some] x by simp
  then have "(p, u_fgcol s, u_bgcol s) \<in> set (colors s)" using x by simp
  then show thesis using found Some x by (simp add: upd_color_def)
qed

lemma colors_ok_new:
  assumes "colors_ok lib s" "c \<notin> snd ` set (colors s)" "int (length (colors s)) < COLORS lib"
    "colors t = colors s @ [(int (length (colors s)) + 1, c)]"
    "calls t = calls s @ [CInitPair (int (length (colors s)) + 1) (fst c) (snd c)]"
  shows "colors_ok lib t"
  unfolding colors_ok_def
proof (intro conjI)
  show "distinct (map snd (colors t))" using assms(1,2,4) by (simp add: colors_ok_def image_iff)
  show "map fst (colors t) = map (\<lambda>i. int i + 1) [0..<length (colors t)]" using assms(1,4) by (simp add: colors_ok_def)
  show "int (length (colors t)) \<le> max 0 (COLORS lib)" using assms(3,4) by simp
  show "pair_defs (calls t) = colors t" using assms(1,4,5) by (simp add: colors_ok_def)
qed

lemma upd_color_ok:
  assumes "colors_ok lib s"
  shows "colors_ok lib (upd_color lib s)"
proof (cases rule: upd_color_cases [of s lib])
  case (found p)
  then show ?thesis using assms by (simp add: colors_ok_def)
next
  case full
  then show ?thesis using assms by simp
next
  case new
  show ?thesis by (rule colors_ok_new [OF assms new(1,2)]) (simp_all add: new(3) ccall_def)
qed

lemma upd_color_prefix: "prefix (colors s) (colors (upd_color lib s))"
  by (cases rule: upd_color_cases [of s lib]) (auto simp: ccall_def)

lemma upd_color_room:
  assumes "colors_ok lib s" "room lib s"
  shows "in_color (upd_color lib s)"
proof -
  have ok: "colors_ok lib (upd_color lib s)" by (rule upd_color_ok [OF assms(1)])
  have "(cur_pair (upd_color lib s), u_fgcol s, u_bgcol s) \<in> set (colors (upd_color lib s))"
    using assms(2) by (cases rule: upd_color_cases [of s lib]) (auto simp: room_def ccall_def)
  then show ?thesis using colors_nth [OF ok] by (simp add: in_color_def)
qed

section \<open>Drawing in the right colours\<close>

text \<open>
  What curses keeps between calls: the pairs that were defined and the pair that is switched on. \<open>attroff\<close> goes back
  to pair 0. Text and lines are drawn in the pair that is on, a character with a pair of its own in that one.
\<close>

type_synonym pen = "(int \<times> int \<times> int) list \<times> int"

fun pen_after :: "pen \<Rightarrow> curses_call \<Rightarrow> pen" where
  "pen_after (prs, a) (CInitPair p f b) = (prs @ [(p, f, b)], a)"
| "pen_after (prs, a) (CAttron p) = (prs, p)"
| "pen_after (prs, a) (CAttroff p) = (prs, 0)"
| "pen_after (prs, a) _ = (prs, a)"

fun inked :: "int \<times> int \<Rightarrow> pen \<Rightarrow> curses_call \<Rightarrow> bool" where
  "inked c (prs, a) (CAddch ch p) \<longleftrightarrow> map_of prs p = Some c"
| "inked c (prs, a) (CMvaddch y x ch) \<longleftrightarrow> map_of prs a = Some c"
| "inked c (prs, a) (CHline ch n) \<longleftrightarrow> map_of prs a = Some c"
| "inked c (prs, a) (CVline ch n) \<longleftrightarrow> map_of prs a = Some c"
| "inked c (prs, a) (CPrintw str) \<longleftrightarrow> map_of prs a = Some c"
| "inked c _ _ \<longleftrightarrow> True"

fun all_inked :: "int \<times> int \<Rightarrow> pen \<Rightarrow> curses_call list \<Rightarrow> bool" where
  "all_inked c pen [] \<longleftrightarrow> True"
| "all_inked c pen (k # ks) \<longleftrightarrow> inked c pen k \<and> all_inked c (pen_after pen k) ks"

lemma all_inked_append: "all_inked c pen (ks @ ls) \<longleftrightarrow> all_inked c pen ks \<and> all_inked c (foldl pen_after pen ks) ls"
  by (induction ks arbitrary: pen) auto

text \<open>
  \<open>painting s t\<close>: from \<open>s\<close> to \<open>t\<close> everything was drawn in the colours of \<open>s\<close>, whatever pair was on before; they are
  the colours of \<open>t\<close> as well, and no pair has changed. With \<open>on\<close> the pair of these colours is switched on in \<open>t\<close>.
\<close>

definition painting :: "curses_lib \<Rightarrow> bool \<Rightarrow> curses_state \<Rightarrow> curses_state \<Rightarrow> bool" where
  "painting lib on s t \<longleftrightarrow> colors_ok lib t \<and> prefix (colors s) (colors t) \<and> in_color t
     \<and> u_fgcol t = u_fgcol s \<and> u_bgcol t = u_bgcol s
     \<and> snd ` set (colors t) \<subseteq> insert (u_fgcol s, u_bgcol s) (snd ` set (colors s))
     \<and> (\<exists>new. calls t = calls s @ new \<and> (\<forall>a. all_inked (u_fgcol s, u_bgcol s) (colors s, a) new
          \<and> (\<exists>a'. foldl pen_after (colors s, a) new = (colors t, a')
              \<and> (on \<longrightarrow> map_of (colors t) a' = Some (u_fgcol s, u_bgcol s)))))"

lemma painting_start:
  assumes "colors_ok lib s" "room lib s"
  shows "painting lib False s (upd_color lib s)"
proof -
  have "\<exists>new. calls (upd_color lib s) = calls s @ new \<and> (\<forall>a. all_inked (u_fgcol s, u_bgcol s) (colors s, a) new
      \<and> (\<exists>a'. foldl pen_after (colors s, a) new = (colors (upd_color lib s), a')))"
    by (cases rule: upd_color_cases [of s lib]) (auto simp: ccall_def)
  moreover have "snd ` set (colors (upd_color lib s)) \<subseteq> insert (u_fgcol s, u_bgcol s) (snd ` set (colors s))"
    by (cases rule: upd_color_cases [of s lib]) (auto simp: ccall_def)
  ultimately show ?thesis
    using upd_color_ok [OF assms(1)] upd_color_prefix upd_color_room [OF assms] by (auto simp: painting_def)
qed

lemma painting_ccall:
  assumes "painting lib on s t" "\<And>p f b. k \<noteq> CInitPair p f b"
    and "\<And>a. on \<longrightarrow> map_of (colors t) a = Some (u_fgcol s, u_bgcol s) \<Longrightarrow>
      inked (u_fgcol s, u_bgcol s) (colors t, a) k
      \<and> (on' \<longrightarrow> map_of (colors t) (snd (pen_after (colors t, a) k)) = Some (u_fgcol s, u_bgcol s))"
  shows "painting lib on' s (ccall k t)"
proof -
  have "pair_defs [k] = []" using assms(2) by (cases k) (auto simp: pair_defs_def)
  then have ok: "colors_ok lib (ccall k t)" using assms(1) by (simp add: painting_def colors_ok_def ccall_def)
  obtain new where new: "calls t = calls s @ new" "\<And>a. all_inked (u_fgcol s, u_bgcol s) (colors s, a) new"
    "\<And>a. \<exists>a'. foldl pen_after (colors s, a) new = (colors t, a')
        \<and> (on \<longrightarrow> map_of (colors t) a' = Some (u_fgcol s, u_bgcol s))"
    using assms(1) unfolding painting_def by blast
  have fst: "fst (pen_after (colors t, a) k) = colors t" for a using assms(2) by (cases k) auto
  have "all_inked (u_fgcol s, u_bgcol s) (colors s, a) (new @ [k])
      \<and> (\<exists>a'. foldl pen_after (colors s, a) (new @ [k]) = (colors t, a')
        \<and> (on' \<longrightarrow> map_of (colors t) a' = Some (u_fgcol s, u_bgcol s)))" for a
  proof -
    obtain a' where a': "foldl pen_after (colors s, a) new = (colors t, a')"
      "on \<longrightarrow> map_of (colors t) a' = Some (u_fgcol s, u_bgcol s)" using new(3) by blast
    have "pen_after (colors t, a') k = (colors t, snd (pen_after (colors t, a') k))" using fst [of a'] by (metis prod.collapse)
    then show ?thesis using new(2) a' assms(3) [OF a'(2)] by (auto simp: all_inked_append)
  qed
  moreover have "calls (ccall k t) = calls s @ (new @ [k])" using new(1) by (simp add: ccall_def)
  moreover have "colors (ccall k t) = colors t" by (simp add: ccall_def)
  ultimately have "\<exists>new. calls (ccall k t) = calls s @ new \<and> (\<forall>a. all_inked (u_fgcol s, u_bgcol s) (colors s, a) new
      \<and> (\<exists>a'. foldl pen_after (colors s, a) new = (colors (ccall k t), a')
          \<and> (on' \<longrightarrow> map_of (colors (ccall k t)) a' = Some (u_fgcol s, u_bgcol s))))" by metis
  then show ?thesis using assms(1) ok unfolding painting_def by (simp add: in_color_def ccall_def)
qed

lemma ccall_fields [simp]: "cur_pair (ccall c s) = cur_pair s" "u_bgchar (ccall c s) = u_bgchar s"
  by (simp_all add: ccall_def)

text \<open>Switching on and off, moving, and drawing with the pair on.\<close>

lemma painting_on: "painting lib on s t \<Longrightarrow> painting lib True s (ccall (CAttron (cur_pair t)) t)"
  by (rule painting_ccall) (auto simp: painting_def in_color_def)

lemma painting_off: "painting lib on s t \<Longrightarrow> painting lib False s (ccall (CAttroff p) t)"
  by (rule painting_ccall) auto

lemma painting_char: "painting lib on s t \<Longrightarrow> painting lib on s (ccall (CAddch ch (cur_pair t)) t)"
  by (rule painting_ccall) (auto simp: painting_def in_color_def)

lemma painting_move: "painting lib on s t \<Longrightarrow> painting lib on s (ccall (CMove y x) t)"
  "painting lib on s t \<Longrightarrow> painting lib on s (ccall CRefresh t)"
  by (rule painting_ccall; auto)+

fun with_pair :: "curses_call \<Rightarrow> bool" where
  "with_pair (CMove y x) = True" | "with_pair (CMvaddch y x ch) = True" | "with_pair (CHline ch n) = True"
| "with_pair (CVline ch n) = True" | "with_pair (CPrintw str) = True" | "with_pair _ = False"

lemma painting_with: "painting lib True s t \<Longrightarrow> with_pair k \<Longrightarrow> painting lib True s (ccall k t)"
  by (cases k) (auto intro: painting_ccall)

lemma painting_fold: "painting lib True s t \<Longrightarrow> list_all with_pair ks \<Longrightarrow> painting lib True s (fold ccall ks t)"
  by (induction ks arbitrary: t) (auto intro: painting_with)

lemma painting_weaken: "painting lib on s t \<Longrightarrow> painting lib False s t"
  by (auto simp: painting_def) blast

lemma painting_upd:
  assumes "painting lib on s t"
  shows "painting lib on s (upd_color lib t)"
proof -
  have "(cur_pair t, u_fgcol t, u_bgcol t) \<in> set (colors t)"
    using assms by (auto simp: painting_def in_color_def dest: map_of_SomeD)
  then have "(u_fgcol t, u_bgcol t) \<in> snd ` set (colors t)" by force
  then obtain p where p: "(p, u_fgcol t, u_bgcol t) \<in> set (colors t)" "upd_color lib t = t\<lparr>cur_pair := p\<rparr>"
    by (cases rule: upd_color_cases [of t lib]) auto
  have ok: "colors_ok lib t" using assms by (simp add: painting_def)
  show ?thesis
    using assms unfolding painting_def p(2) in_color_def colors_ok_def
    by (simp add: colors_nth [OF ok p(1)])
qed

lemma painting_text:
  assumes "painting lib on s (upd_color lib t)"
  shows "painting lib False s (tg_text_unix lib x y str t)"
  unfolding tg_text_unix_def tg_vtext_unix_def Let_def
  by (intro painting_off [where on = True] painting_with painting_on [OF assms]) simp_all

lemma painting_rect:
  assumes "colors_ok lib s" "room lib s"
  shows "painting lib False s (tg_rect_unix lib label x y w h frame s)"
proof -
  define t where "t = ccall (CAttron (cur_pair (upd_color lib s))) (upd_color lib s)"
  define u where "u = fold ccall (concat (map (\<lambda>i. [CMove (y + i) x, CHline (Code (u_bgchar t)) w]) [0..h - 1])) t"
  define v where "v = (if frame \<and> w \<ge> 2 \<and> h \<ge> 2 then fold ccall (frame_calls x y w h) u else u)"
  have t: "painting lib True s t" unfolding t_def by (rule painting_on [OF painting_start [OF assms]])
  have "painting lib True s u"
    unfolding u_def by (intro painting_fold t) (auto simp: list_all_iff)
  then have v: "painting lib True s v"
    unfolding v_def using painting_fold [of lib s u "frame_calls x y w h"] by (simp add: frame_calls_def)
  define l where "l = (case label of
                 None \<Rightarrow> v
               | Some l \<Rightarrow>
                   if w \<ge> 8
                   then (let maxlen = w - 4; len = int (length l)
                         in tg_text_unix lib (x + 2) y (if len > maxlen then drop (nat (len - maxlen)) l else l) v)
                   else v)"
  have "painting lib False s l"
    unfolding l_def using painting_text [OF painting_upd [OF v]] painting_weaken [OF v] by (simp add: Let_def split: option.split)
  then have "painting lib False s (ccall CRefresh (ccall (CAttroff (cur_pair l)) l))"
    by (intro painting_move painting_off)
  moreover have "tg_rect_unix lib label x y w h frame s = ccall CRefresh (ccall (CAttroff (cur_pair l)) l)"
    by (simp only: tg_rect_unix_def Let_def t_def u_def v_def l_def)
  ultimately show ?thesis by simp
qed

text \<open>The commands that draw.\<close>

fun is_drawing :: "draw_cmd \<Rightarrow> bool" where
  "is_drawing (TgRect l x y w h f) = True" | "is_drawing (TgPutchar x y c) = True"
| "is_drawing (TgText x y t) = True" | "is_drawing (TgArrow x y g t) = True" | "is_drawing _ = False"

lemma drawing_painting:
  assumes "colors_ok lib s" "room lib s" "is_drawing d"
  shows "painting lib False s (draw_unix lib d s)"
proof -
  note start = painting_start [OF assms(1,2)]
  have "painting lib False s (tg_text_unix lib x y str s)" for x y str by (rule painting_text [OF start])
  moreover have "painting lib False s (tg_putchar_unix lib x y n s)" for x y n
    using painting_char [OF painting_move(1) [OF start, of y x]] by (simp add: tg_putchar_unix_def Let_def)
  ultimately show ?thesis using assms(3) painting_rect [OF assms(1,2)] by (cases d) simp_all
qed

text \<open>With 64 colours there is room for all pairs of the eight colours of \<open>src/tgfx.h\<close>.\<close>

definition palette :: "curses_lib \<Rightarrow> int set" where
  "palette lib = curses_color lib ` {0..7}"

definition reached :: "curses_lib \<Rightarrow> curses_state \<Rightarrow> bool" where
  "reached lib s \<longleftrightarrow> colors_ok lib s \<and> u_fgcol s \<in> palette lib \<and> u_bgcol s \<in> palette lib
     \<and> snd ` set (colors s) \<subseteq> palette lib \<times> palette lib"

lemma reached_room:
  assumes "reached lib s" "64 \<le> COLORS lib"
  shows "room lib s"
proof (rule ccontr)
  assume n: "\<not> room lib s"
  let ?P = "palette lib \<times> palette lib"
  have "card (palette lib) \<le> card {0..7 :: int}" unfolding palette_def by (rule card_image_le) simp
  then have "card (palette lib) * card (palette lib) \<le> 8 * 8" by (intro mult_le_mono) simp_all
  then have "card ?P \<le> 64" by (simp add: card_cartesian_product)
  moreover have "finite ?P" by (simp add: palette_def)
  moreover have "insert (u_fgcol s, u_bgcol s) (snd ` set (colors s)) \<subseteq> ?P" using assms(1) by (auto simp: reached_def)
  ultimately have "card (insert (u_fgcol s, u_bgcol s) (snd ` set (colors s))) \<le> 64"
    using card_mono [of ?P "insert (u_fgcol s, u_bgcol s) (snd ` set (colors s))"] by linarith
  moreover have "card (snd ` set (colors s)) = length (colors s)"
    using assms(1) distinct_card [of "map snd (colors s)"] by (simp add: reached_def colors_ok_def)
  ultimately show False using n assms(2) by (simp add: room_def card_insert_if)
qed

lemma palette_in: "0 \<le> c \<Longrightarrow> c \<le> 7 \<Longrightarrow> curses_color lib c \<in> palette lib"
  unfolding palette_def by (rule imageI) simp

lemma reached_init: "reached lib (tg_init_unix lib)"
  using palette_in [of 0 lib] palette_in [of 7 lib]
  by (simp add: reached_def tg_init_unix_def colors_ok_def pair_defs_def)

lemma painting_reached:
  assumes "painting lib on s t" "reached lib s"
  shows "reached lib t"
proof -
  have p: "colors_ok lib t" "u_fgcol t = u_fgcol s" "u_bgcol t = u_bgcol s"
    "snd ` set (colors t) \<subseteq> insert (u_fgcol s, u_bgcol s) (snd ` set (colors s))"
    using assms(1) by (simp_all add: painting_def)
  have r: "u_fgcol s \<in> palette lib" "u_bgcol s \<in> palette lib" "snd ` set (colors s) \<subseteq> palette lib \<times> palette lib"
    using assms(2) by (simp_all add: reached_def)
  have "insert (u_fgcol s, u_bgcol s) (snd ` set (colors s)) \<subseteq> palette lib \<times> palette lib" using r by simp
  then have "snd ` set (colors t) \<subseteq> palette lib \<times> palette lib" using p(4) by (rule order_trans [rotated])
  then show ?thesis using p(1-3) r(1,2) by (simp add: reached_def)
qed

lemma palette_color [simp]: "curses_color lib (color_number c) \<in> palette lib"
  by (cases c) (simp_all add: palette_in)

lemma draw_reached:
  assumes "reached lib s" "64 \<le> COLORS lib"
  shows "reached lib (draw_unix lib d s)"
proof (cases "is_drawing d")
  case True
  have "colors_ok lib s" using assms(1) by (simp add: reached_def)
  then show ?thesis using painting_reached [OF drawing_painting [OF _ reached_room [OF assms] True]] assms(1) by blast
next
  case False
  then show ?thesis
    using assms(1)
    by (cases d) (auto simp: reached_def colors_ok_def tg_fgcolor_unix_def tg_bgcolor_unix_def tg_redraw_unix_def ccall_def
      pair_defs_def)
qed

lemma draw_all_reached:
  "reached lib s \<Longrightarrow> 64 \<le> COLORS lib \<Longrightarrow> reached lib (draw_all_unix lib ds s)"
  by (induction ds arbitrary: s) (auto simp: draw_all_unix_def intro: draw_reached)

end
