(* ===== verification/Input.thy ===== *)
theory Input
  imports Screen
begin

text \<open>
  The keyboard (\<open>src/unix/input.c\<close> and \<open>src/dos/input.c\<close>). What curses and the BIOS deliver is a list of
  codes, the answers of \<open>getch\<close>; \<open>poll_input\<close> takes some of them and gives a key of \<open>src/input.h\<close>
  (\<open>Some\<close>) or returns 0 (\<open>None\<close>). \<open>init_input\<close> and \<open>cleanup_input\<close> do nothing.

  The lemmas say that the DOS driver decodes the codes of the BIOS one by one, however they are cut
  by the rounds of the main loop.
\<close>

section \<open>Curses\<close>

text \<open>The codes of the keys in \<open>curses.h\<close>, which are the library's own.\<close>

record curses_keys =
  key_dc :: int
  key_ic :: int
  key_up :: int
  key_down :: int
  key_left :: int
  key_right :: int
  key_home :: int
  key_end :: int
  key_ppage :: int
  key_npage :: int
  key_enter :: int
  key_backspace :: int
  key_f :: "int \<Rightarrow> int"

definition convkey :: "curses_keys \<Rightarrow> int \<Rightarrow> int" where
  "convkey ck key =
     (if key = key_dc ck then KB_DEL
      else if key = key_ic ck then KB_INS
      else if key = key_up ck then KB_UP
      else if key = key_down ck then KB_DOWN
      else if key = key_left ck then KB_LEFT
      else if key = key_right ck then KB_RIGHT
      else if key = key_home ck then KB_HOME
      else if key = key_end ck then KB_END
      else if key = key_ppage ck then KB_PGUP
      else if key = key_npage ck then KB_PGDN
      else if key = key_enter ck then 10
      else if key = key_backspace ck then 8
      else if key \<ge> key_f ck 1 \<and> key \<le> key_f ck 12 then KB_F1 + (key - key_f ck 1)
      else if key < 128 then key
      else -1)"

text \<open>\<open>getch\<close> gives \<open>ERR\<close>, which is -1, when no key waits.\<close>

definition poll_input_unix :: "curses_keys \<Rightarrow> int list \<Rightarrow> int option \<times> int list" where
  "poll_input_unix ck getch =
     (case next_ans (-1) getch of
        (c, r) \<Rightarrow> let key = convkey ck c in if key = -1 then (None, r) else (Some key, r))"

text \<open>
  The answers of \<open>select\<close>: interrupted, another error (which leaves the set as it was), or whether
  descriptor 0 is readable.
\<close>

datatype stdin_sel = InIntr | InErr | InReady bool

fun have_input_unix :: "stdin_sel list \<Rightarrow> bool \<times> stdin_sel list" where
  "have_input_unix [] = (False, [])"
| "have_input_unix (InIntr # r) = have_input_unix r"
| "have_input_unix (InErr # r) = (True, r)"
| "have_input_unix (InReady b # r) = (b, r)"

text \<open>
  What curses promises of its codes: they are different and outside of the characters, and the
  function keys have codes of their own in a row.
\<close>

definition single_keys :: "curses_keys \<Rightarrow> int list" where
  "single_keys ck = [key_dc ck, key_ic ck, key_up ck, key_down ck, key_left ck, key_right ck, key_home ck,
     key_end ck, key_ppage ck, key_npage ck, key_enter ck, key_backspace ck]"

definition keys_ok :: "curses_keys \<Rightarrow> bool" where
  "keys_ok ck \<longleftrightarrow> distinct (single_keys ck) \<and> (\<forall>k \<in> set (single_keys ck). 256 \<le> k)
     \<and> 256 \<le> key_f ck 1 \<and> (\<forall>n. key_f ck n = key_f ck 0 + n)
     \<and> (\<forall>k \<in> set (single_keys ck). k < key_f ck 1 \<or> key_f ck 12 < k)"

lemma keys_okD:
  assumes "keys_ok ck"
  shows "distinct (single_keys ck)" "\<forall>k \<in> set (single_keys ck). 256 \<le> k" "256 \<le> key_f ck 1"
    "key_f ck n = key_f ck 0 + n" "\<forall>k \<in> set (single_keys ck). k < key_f ck 1 \<or> key_f ck 12 < k"
  using assms unfolding keys_ok_def by blast+

lemma convkey_chars:
  assumes "keys_ok ck" "0 \<le> c" "c < 128"
  shows "convkey ck c = c"
  using keys_okD(2,3) [OF assms(1)] assms(2,3) by (auto simp: convkey_def single_keys_def)

lemma convkey_function:
  assumes "keys_ok ck" "1 \<le> n" "n \<le> 12"
  shows "convkey ck (key_f ck n) = KB_F1 + (n - 1)"
proof -
  note f = keys_okD(4) [OF assms(1)]
  have "key_f ck n \<noteq> k" if "k \<in> set (single_keys ck)" for k
    using keys_okD(5) [OF assms(1)] that assms(2,3) f [of 1] f [of 12] f [of n] by auto
  moreover have "key_f ck 1 \<le> key_f ck n" "key_f ck n \<le> key_f ck 12" "key_f ck n - key_f ck 1 = n - 1"
    using assms(2,3) f [of 1] f [of 12] f [of n] by auto
  ultimately show ?thesis by (simp add: convkey_def single_keys_def)
qed

lemma convkey_single:
  assumes "keys_ok ck"
  shows "map (convkey ck) (single_keys ck)
    = [KB_DEL, KB_INS, KB_UP, KB_DOWN, KB_LEFT, KB_RIGHT, KB_HOME, KB_END, KB_PGUP, KB_PGDN, 10, 8]"
proof -
  have d: "distinct (single_keys ck)" "distinct (rev (single_keys ck))" using keys_okD(1) [OF assms] by simp_all
  show ?thesis using d [unfolded single_keys_def] by (simp add: single_keys_def convkey_def del: distinct_rev)
qed

lemma convkey_unknown:
  assumes "128 \<le> c" "c \<notin> set (single_keys ck)" "c < key_f ck 1 \<or> key_f ck 12 < c"
  shows "convkey ck c = -1"
  using assms by (auto simp: convkey_def single_keys_def)

section \<open>DOS\<close>

definition conv_special :: "int \<Rightarrow> int" where
  "conv_special key =
     (if key = 72 then KB_UP else if key = 80 then KB_DOWN else if key = 75 then KB_LEFT
      else if key = 77 then KB_RIGHT else if key = 71 then KB_HOME else if key = 79 then KB_END
      else if key = 82 then KB_INS else if key = 83 then KB_DEL else if key = 73 then KB_PGUP
      else if key = 81 then KB_PGDN
      else if key \<ge> 58 \<and> key \<le> 70 then KB_F1 + (key - 59)
      else -1)"

text \<open>
  The first argument is the static variable \<open>special\<close>, the second what waits in the buffer of the
  keyboard; \<open>have_input\<close> is \<open>kbhit\<close>.
\<close>

definition have_input_dos :: "int list \<Rightarrow> bool" where
  "have_input_dos kbd = (kbd \<noteq> [])"

definition poll_input_dos :: "bool \<Rightarrow> int list \<Rightarrow> int option \<times> bool \<times> int list" where
  "poll_input_dos special kbd =
     (case kbd of
        [] \<Rightarrow> (None, special, [])
      | c # r \<Rightarrow>
          if c = 0 then (None, True, r)
          else if special
          then (let key = conv_special c in if key = -1 then (None, False, r) else (Some key, False, r))
          else (Some (if c = 13 then 10 else c), False, r))"

text \<open>The loop \<open>while (poll_input (&ev))\<close> of \<open>proc_input\<close>: the keys it hands to \<open>keypress\<close>.\<close>

function poll_loop :: "bool \<Rightarrow> int list \<Rightarrow> int list \<times> bool \<times> int list" where
  "poll_loop special kbd =
     (case poll_input_dos special kbd of
        (None, sp, r) \<Rightarrow> ([], sp, r)
      | (Some k, sp, r) \<Rightarrow> (case poll_loop sp r of (ks, sp, r) \<Rightarrow> (k # ks, sp, r)))"
  by pat_completeness auto
termination
  by (relation "measure (\<lambda>(sp, kbd). length kbd)")
    (auto simp: poll_input_dos_def Let_def split: list.splits if_splits)

declare poll_loop.simps [simp del]

lemma poll_loop_shorter: "poll_loop sp kbd = (ks, sp', r) \<Longrightarrow> length r \<le> length kbd \<and> (kbd \<noteq> [] \<longrightarrow> length r < length kbd)"
proof (induction sp kbd arbitrary: ks sp' r rule: poll_loop.induct)
  case (1 sp kbd)
  obtain o1 sp1 r1 where p: "poll_input_dos sp kbd = (o1, sp1, r1)" by (cases "poll_input_dos sp kbd")
  have l: "length r1 \<le> length kbd" "kbd \<noteq> [] \<Longrightarrow> length r1 < length kbd" "kbd = [] \<Longrightarrow> o1 = None"
    using p by (auto simp: poll_input_dos_def Let_def split: list.splits if_splits)
  show ?case
  proof (cases o1)
    case None
    then show ?thesis using 1(2) p l by (simp add: poll_loop.simps [of sp kbd])
  next
    case (Some k)
    obtain ks2 where e: "poll_loop sp1 r1 = (ks2, sp', r)"
      using 1(2) p Some by (cases "poll_loop sp1 r1") (auto simp: poll_loop.simps [of sp kbd])
    show ?thesis using 1(1) [OF p [symmetric] Some refl] e l Some by fastforce
  qed
qed

text \<open>
  The rounds of the main loop: each adds what was typed since the last one, and takes the keys it can
  get. When \<open>poll_input\<close> returns 0 the rest waits for the next round.
\<close>

fun dos_rounds :: "bool \<Rightarrow> int list \<Rightarrow> int list list \<Rightarrow> int list \<times> bool \<times> int list" where
  "dos_rounds sp kbd [] = ([], sp, kbd)"
| "dos_rounds sp kbd (c # cs) =
     (case poll_loop sp (kbd @ c) of
        (ks, sp, r) \<Rightarrow> (case dos_rounds sp r cs of (ks', sp, r) \<Rightarrow> (ks @ ks', sp, r)))"

text \<open>The keys a sequence of codes stands for, and whether it ends inside of a special key.\<close>

fun keys_of :: "bool \<Rightarrow> int list \<Rightarrow> int list" where
  "keys_of sp [] = []"
| "keys_of sp (c # r) =
     (if c = 0 then keys_of True r
      else if sp then (if conv_special c = -1 then keys_of False r else conv_special c # keys_of False r)
      else (if c = 13 then 10 else c) # keys_of False r)"

lemma poll_loop_keys: "poll_loop sp kbd = (ks, sp', r) \<Longrightarrow> keys_of sp (kbd @ later) = ks @ keys_of sp' (r @ later)"
proof (induction sp kbd arbitrary: ks sp' r rule: poll_loop.induct)
  case (1 sp kbd)
  obtain o1 sp1 r1 where p: "poll_input_dos sp kbd = (o1, sp1, r1)" by (cases "poll_input_dos sp kbd")
  show ?case
  proof (cases o1)
    case None
    then have "ks = []" "sp' = sp1" "r = r1" using 1(2) p by (auto simp: poll_loop.simps [of sp kbd])
    then show ?thesis using p None by (auto simp: poll_input_dos_def Let_def split: list.splits if_splits)
  next
    case (Some k)
    obtain ks2 where e: "poll_loop sp1 r1 = (ks2, sp', r)" "ks = k # ks2"
      using 1(2) p Some by (cases "poll_loop sp1 r1") (auto simp: poll_loop.simps [of sp kbd])
    have "keys_of sp1 (r1 @ later) = ks2 @ keys_of sp' (r @ later)"
      using 1(1) [OF p [symmetric] Some refl] e(1) by simp
    then show ?thesis
      using p Some e(2) by (auto simp: poll_input_dos_def Let_def split: list.splits if_splits)
  qed
qed

lemma dos_rounds_keys:
  "dos_rounds sp kbd cs = (ks, sp', r) \<Longrightarrow> keys_of sp (kbd @ concat cs) = ks @ keys_of sp' r"
proof (induction sp kbd cs arbitrary: ks sp' r rule: dos_rounds.induct)
  case (2 sp kbd c cs)
  obtain ks1 sp1 r1 where p: "poll_loop sp (kbd @ c) = (ks1, sp1, r1)" by (cases "poll_loop sp (kbd @ c)")
  obtain ks2 where d: "dos_rounds sp1 r1 cs = (ks2, sp', r)" "ks = ks1 @ ks2"
    using 2(2) p by (cases "dos_rounds sp1 r1 cs") auto
  have "keys_of sp1 (r1 @ concat cs) = ks2 @ keys_of sp' r" using 2(1) [OF p [symmetric] refl] d(1) by simp
  then show ?case using poll_loop_keys [OF p, of "concat cs"] d(2) by simp
qed simp

text \<open>As many quiet rounds as there are codes empty the buffer.\<close>

lemma dos_rounds_quiet:
  "length kbd \<le> n \<Longrightarrow> dos_rounds sp kbd (replicate n []) = (ks, sp', r) \<Longrightarrow> r = []"
proof (induction n arbitrary: sp kbd ks)
  case (Suc n)
  obtain ks1 sp1 r1 where p: "poll_loop sp kbd = (ks1, sp1, r1)" by (cases "poll_loop sp kbd")
  obtain ks2 where d: "dos_rounds sp1 r1 (replicate n []) = (ks2, sp', r)"
    using Suc.prems(2) p by (cases "dos_rounds sp1 r1 (replicate n [])") auto
  have "length r1 \<le> n" using poll_loop_shorter [OF p] Suc.prems(1) by (cases kbd) auto
  then show ?case using Suc.IH d by blast
qed auto

lemma dos_rounds_append:
  "dos_rounds sp kbd (cs @ ds) = (case dos_rounds sp kbd cs of (ks, sp, r) \<Rightarrow>
     (case dos_rounds sp r ds of (ks', sp, r) \<Rightarrow> (ks @ ks', sp, r)))"
  by (induction sp kbd cs rule: dos_rounds.induct) (auto split: prod.split)

lemma dos_rounds_shorter:
  "dos_rounds sp kbd cs = (ks, sp', r) \<Longrightarrow> length r \<le> length kbd + length (concat cs)"
proof (induction sp kbd cs arbitrary: ks rule: dos_rounds.induct)
  case (2 sp kbd c cs)
  obtain ks1 sp1 r1 where p: "poll_loop sp (kbd @ c) = (ks1, sp1, r1)" by (cases "poll_loop sp (kbd @ c)")
  obtain ks2 where d: "dos_rounds sp1 r1 cs = (ks2, sp', r)"
    using 2(2) p by (cases "dos_rounds sp1 r1 cs") auto
  have "length r \<le> length r1 + length (concat cs)" using 2(1) [OF p [symmetric] refl] d by blast
  then show ?case using poll_loop_shorter [OF p] by simp
qed simp

end
