(* ===== verification/Util.thy ===== *)
theory Util
  imports Screen "HOL-Library.Sublist"
begin

text \<open>
  \<open>src/util.c\<close>: allocation that ends the program instead of failing, \<open>match_prefix\<close>, and the log, which goes
  to a file or, on DOS, to a serial port. The text of a message is the argument \<open>msg\<close>: \<open>vsprintf\<close> is
  the library's. The file that is open, the driver of the port and what it wrote are the state; the
  environment and whether a file can be opened are arguments.
\<close>

section \<open>Memory\<close>

text \<open>The result of \<open>malloc\<close> is the next answer of the list; \<open>abort\<close> ends the program.\<close>

definition malloc_nf_impl :: "bool list \<Rightarrow> bool list res" where
  "malloc_nf_impl m = (case next_ans True m of (ok, m) \<Rightarrow> if \<not> ok then Inl AssertFail else Inr m)"

definition calloc_nf_impl :: "nat \<Rightarrow> 'a \<Rightarrow> bool list \<Rightarrow> ('a list \<times> bool list) res" where
  "calloc_nf_impl num zero m =
     (case next_ans True m of (ok, m) \<Rightarrow> if \<not> ok then Inl AssertFail else Inr (replicate num zero, m))"

text \<open>\<open>realloc\<close> keeps the beginning of the block; the bytes behind it are the argument \<open>junk\<close>.\<close>

definition realloc_nf_impl :: "'a list \<Rightarrow> nat \<Rightarrow> (nat \<Rightarrow> 'a) \<Rightarrow> bool list \<Rightarrow> ('a list \<times> bool list) res" where
  "realloc_nf_impl p sz junk m =
     (case next_ans True m of
        (ok, m) \<Rightarrow>
          if \<not> ok then Inl AssertFail
          else Inr (map (\<lambda>i. if i < length p then p ! i else junk i) [0..<sz], m))"

definition strdup_nf_impl :: "string \<Rightarrow> bool list \<Rightarrow> (string \<times> bool list) res" where
  "strdup_nf_impl s m = (case next_ans True m of (ok, m) \<Rightarrow> if \<not> ok then Inl AssertFail else Inr (s, m))"

section \<open>Strings\<close>

fun match_prefix :: "string \<Rightarrow> string \<Rightarrow> int" where
  "match_prefix (s # str) (p # pre) = (if s \<noteq> p then 0 else match_prefix str pre)"
| "match_prefix str pre = (if pre \<noteq> [] then 0 else 1)"

lemma match_prefix_prefix: "match_prefix str pre = 1 \<longleftrightarrow> prefix pre str" "match_prefix str pre \<in> {0, 1}"
  by (induction str pre rule: match_prefix.induct) auto

section \<open>The serial port\<close>

definition UART1_BASE :: "16 word" where [simp]: "UART1_BASE = 0x3f8"
definition UART2_BASE :: "16 word" where [simp]: "UART2_BASE = 0x2f8"
definition UART_DATA :: "16 word" where [simp]: "UART_DATA = 0"
definition UART_DIVLO :: "16 word" where [simp]: "UART_DIVLO = 0"
definition UART_DIVHI :: "16 word" where [simp]: "UART_DIVHI = 1"
definition UART_FIFO :: "16 word" where [simp]: "UART_FIFO = 2"
definition UART_LCTL :: "16 word" where [simp]: "UART_LCTL = 3"
definition UART_MCTL :: "16 word" where [simp]: "UART_MCTL = 4"
definition UART_LSTAT :: "16 word" where [simp]: "UART_LSTAT = 5"

text \<open>
  \<open>logfile\<close> is the name of the open file and \<open>log_text\<close> what was written to it; \<open>outs\<close> are the bytes written
  to ports, \<open>stats\<close> the answers of the line status port, ready when there are none left.
\<close>

record logger =
  logfile :: "string option"
  log_text :: string
  sdev :: int
  iobase :: "16 word"
  outs :: "(16 word \<times> 8 word) list"
  stats :: "8 word list"

definition log_start :: "8 word list \<Rightarrow> logger" where
  "log_start st = \<lparr>logfile = None, log_text = [], sdev = -1, iobase = 0, outs = [], stats = st\<rparr>"

definition outp :: "16 word \<Rightarrow> 8 word \<Rightarrow> logger \<Rightarrow> logger" where
  "outp port v l = l\<lparr>outs := outs l @ [(port, v)]\<rparr>"

definition setup_serial :: "logger \<Rightarrow> int \<times> logger" where
  "setup_serial l =
     (if sdev l \<noteq> 0 \<and> sdev l \<noteq> 1 then (-1, l\<lparr>sdev := -1\<rparr>)
      else
        let l = l\<lparr>iobase := (if sdev l = 0 then UART1_BASE else UART2_BASE)\<rparr>;
            p = (\<lambda>r. iobase l OR r);
            l = outp (p UART_LCTL) 0x80 l;
            l = outp (p UART_DIVLO) (ucast ((12 :: 16 word) AND 0xff)) l;
            l = outp (p UART_DIVHI) (ucast (drop_bit 8 (12 :: 16 word))) l;
            l = outp (p UART_LCTL) 0x03 l;
            l = outp (p UART_FIFO) 0x07 l;
            l = outp (p UART_MCTL) 0x0b l
        in (0, l))"

text \<open>The loop that waits until the transmitter is empty.\<close>

fun wait_empty :: "8 word list \<Rightarrow> 8 word list" where
  "wait_empty [] = []"
| "wait_empty (s # r) = (if s AND 0x20 = 0 then wait_empty r else r)"

definition wait_lstat :: "logger \<Rightarrow> logger" where
  "wait_lstat l = l\<lparr>stats := wait_empty (stats l)\<rparr>"

function ser_putchar :: "char \<Rightarrow> logger \<Rightarrow> logger" where
  "ser_putchar c l =
     (let l = (if c = LF then ser_putchar CR l else l)
      in outp (iobase l OR UART_DATA) (of_char c) (wait_lstat l))"
  by pat_completeness auto
termination
  by (relation "measure (\<lambda>(c, l). if c = LF then 1 else 0)") auto

declare ser_putchar.simps [simp del]

fun ser_puts :: "string \<Rightarrow> logger \<Rightarrow> logger" where
  "ser_puts [] l = l"
| "ser_puts (c # s) l =
     (let l = wait_lstat l;
          l = (if c = LF then outp (iobase l OR UART_DATA) (of_char CR) l else l)
      in ser_puts s (outp (iobase l OR UART_DATA) (of_char c) l))"

section \<open>The log\<close>

text \<open>\<open>sscanf (fname, "COM%d", &sdev)\<close> with the number it stores.\<close>

definition scan_d :: "string \<Rightarrow> int option" where
  "scan_d s =
     (let t = dropWhile isspace s;
          u = (if t \<noteq> [] \<and> (hd t = CHR ''-'' \<or> hd t = CHR ''+'') then tl t else t)
      in if u = [] \<or> \<not> isdigit (hd u) then None else Some (atoi s))"

definition scan_port :: "string \<Rightarrow> string \<Rightarrow> int option" where
  "scan_port name fname = (if prefix name fname then scan_d (drop (length name) fname) else None)"

definition log_name :: "bool \<Rightarrow> (string \<Rightarrow> string option) \<Rightarrow> string" where
  "log_name dos env =
     (case env ''VISFTP_LOG'' of
        Some e \<Rightarrow> e
      | None \<Rightarrow>
          if dos
          then (let tmpdir = (case env ''TEMP'' of None \<Rightarrow> env ''VISFTP'' | Some t \<Rightarrow> Some t)
                in case tmpdir of
                     Some t \<Rightarrow> t @ [CHR 0x5C] @ ''visftp.log''
                   | None \<Rightarrow> ''c:'' @ [CHR 0x5C] @ ''visftp.log'')
          else ''/tmp/visftp.log'')"

definition loginit :: "bool \<Rightarrow> (string \<Rightarrow> string option) \<Rightarrow> (string \<Rightarrow> bool) \<Rightarrow> logger \<Rightarrow> int \<times> logger" where
  "loginit dos env can_open l =
     (let fname = log_name dos env;
          port = (case scan_port ''COM'' fname of Some n \<Rightarrow> Some n | None \<Rightarrow> scan_port ''com'' fname)
      in case (if dos then port else None) of
           Some n \<Rightarrow>
             (case setup_serial (l\<lparr>sdev := n - 1\<rparr>) of
                (r, l) \<Rightarrow> if r = -1 then (-1, l\<lparr>sdev := -1\<rparr>) else (0, l))
         | None \<Rightarrow>
             if \<not> can_open fname then (-1, l) else (0, l\<lparr>logfile := Some fname, log_text := []\<rparr>))"

definition log_open :: "bool \<Rightarrow> logger \<Rightarrow> bool" where
  "log_open dos l \<longleftrightarrow> logfile l \<noteq> None \<or> dos \<and> 0 \<le> sdev l"

definition logmsg ::
  "bool \<Rightarrow> (string \<Rightarrow> string option) \<Rightarrow> (string \<Rightarrow> bool) \<Rightarrow> string \<Rightarrow> string \<Rightarrow> logger \<Rightarrow> logger res" where
  "logmsg dos env can_open tag msg l =
     (case (if log_open dos l then (0, l) else loginit dos env can_open l) of
        (r, l) \<Rightarrow>
          if r = -1 then Inr l
          else if dos \<and> sdev l \<noteq> -1
          then (if length tag + 2 \<ge> 512 \<or> length msg \<ge> 512 then Inl Overrun else Inr (ser_puts msg l))
          else Inr (l\<lparr>log_text := log_text l @ tag @ '': '' @ msg\<rparr>))"

text \<open>The calls to the user interface in these functions have empty bodies in \<open>src/tui.c\<close>.\<close>

definition errmsg where "errmsg dos env can_open = logmsg dos env can_open ''error''"
definition warnmsg where "warnmsg dos env can_open = logmsg dos env can_open ''warning''"
definition infomsg where "infomsg dos env can_open = logmsg dos env can_open ''info''"

fun log_all ::
  "bool \<Rightarrow> (string \<Rightarrow> string option) \<Rightarrow> (string \<Rightarrow> bool) \<Rightarrow> (string \<times> string) list \<Rightarrow> logger \<Rightarrow> logger res" where
  "log_all dos env can_open [] l = Inr l"
| "log_all dos env can_open ((tag, msg) # ms) l =
     (case logmsg dos env can_open tag msg l of Inl e \<Rightarrow> Inl e | Inr l \<Rightarrow> log_all dos env can_open ms l)"

section \<open>What is written\<close>

lemma log_all_file:
  "logfile l = Some f \<Longrightarrow> \<not> dos \<or> sdev l = -1 \<Longrightarrow>
    log_all dos env can_open ms l = Inr (l\<lparr>log_text := log_text l @ concat (map (\<lambda>(tag, msg). tag @ '': '' @ msg) ms)\<rparr>)"
  by (induction ms arbitrary: l) (auto simp: logmsg_def log_open_def)

text \<open>The bytes a text stands for on the line.\<close>

fun crlf :: "string \<Rightarrow> string" where
  "crlf [] = []"
| "crlf (c # s) = (if c = LF then [CR, LF] else [c]) @ crlf s"

lemma ser_puts_bytes:
  "outs (ser_puts s l) = outs l @ map (\<lambda>c. (iobase l OR UART_DATA, of_char c)) (crlf s)"
  "iobase (ser_puts s l) = iobase l" "sdev (ser_puts s l) = sdev l" "logfile (ser_puts s l) = logfile l"
  by (induction s l rule: ser_puts.induct) (simp_all add: Let_def outp_def wait_lstat_def)

lemma ser_putchar_bytes:
  "outs (ser_putchar c l) = outs l @ map (\<lambda>c. (iobase l OR UART_DATA, of_char c)) (crlf [c])"
  by (simp add: ser_putchar.simps [of c] ser_putchar.simps [of CR] Let_def outp_def wait_lstat_def)

lemma log_all_serial:
  assumes "\<forall>(tag, msg) \<in> set ms. length tag \<le> 509 \<and> length msg < 512"
  shows "0 \<le> sdev l \<Longrightarrow> logfile l = None \<Longrightarrow> \<exists>l'. log_all True env can_open ms l = Inr l'
    \<and> outs l' = outs l @ map (\<lambda>c. (iobase l OR UART_DATA, of_char c)) (crlf (concat (map snd ms)))"
  using assms
proof (induction ms arbitrary: l)
  case (Cons m ms)
  obtain tag msg where m: "m = (tag, msg)" by (cases m)
  have one: "logmsg True env can_open tag msg l = Inr (ser_puts msg l)"
    using Cons.prems m by (simp add: logmsg_def log_open_def)
  have c: "crlf (a @ b) = crlf a @ crlf b" for a b by (induction a) auto
  show ?case
    using Cons.IH [of "ser_puts msg l"] Cons.prems m one by (simp add: ser_puts_bytes c)
qed simp

end
