(* ===== verification/Spec2Isabelle.thy ===== *)
theory Spec2Isabelle
  imports Session Servers Screens Tgfx_Unix Input Util
begin

text \<open>
  visftp is a full screen FTP client for DOS and UNIX, written in C (\<open>src/\<close> in the following is the
  directory \<open>src/src\<close> of the repository). This development models the program as functions and proves what
  makes its parts correct, and, where the code has a defect, what goes wrong.

  \<^bold>\<open>The program\<close>

  \<open>main\<close> (\<open>main.c\<close>) parses its arguments, reads the list of saved servers, connects and then runs a loop
  around \<open>select\<close>: a readable socket goes to the engine (\<open>ftp_handle\<close> in \<open>ftp.c\<close>), a key to \<open>keypress\<close>, and
  \<open>updateui\<close> redraws what has changed. The engine keeps a control connection, at most one data connection
  and a queue of operations; replies go to a handler that the last command has set, data to another one, and
  an operation that ends calls back into \<open>main.c\<close>. The user interface is two list widgets (\<open>tui_list.c\<close>,
  \<open>tui.c\<close>) and a file viewer (\<open>viewer.c\<close>) on top of a small drawing interface with two backends
  (\<open>unix/tgfx.c\<close>, \<open>dos/tgfx.c\<close>). The list of servers is a text that the tree store (\<open>treestor.c\<close>,
  \<open>ts_text.c\<close>) loads and saves. Everything grows in the arrays of \<open>darray.c\<close>.

  \<^bold>\<open>Theories\<close>

  \<^item> \<open>Prelude\<close>: the faults and the error monad, the functions of the C library the program uses on bytes and
    strings, and the scripts that answer for the operating system.
  \<^item> \<open>Darray\<close>: \<open>darray.c\<close>, \<open>darray.h\<close>. The locale \<open>stack_array\<close> says what a client may expect of an array.
  \<^item> \<open>Ftp_Text\<close>, \<open>Ftp_Listing\<close>, \<open>Ftp_Queue\<close>, \<open>Ftp\<close>: \<open>ftp.c\<close>, \<open>ftp.h\<close>. The texts of the protocol, the parser of
    listings, the linked list of operations (locale \<open>fifo\<close>) and the engine. The record \<open>sys\<close> is
    \<open>struct ftp\<close> with the heap it uses, the answers the system calls will give and what the engine did
    (\<open>emit\<close>). Its component \<open>app\<close> is the state of the client, which the callbacks change.
  \<^item> \<open>Ftp_Inv\<close>: the invariant \<open>ftp_inv\<close> of the engine. The locales \<open>ftp_env\<close> and \<open>ftp_client\<close> say what
    completion callbacks have to keep; inside, every entry point is shown to keep the invariant.
  \<^item> \<open>Screen\<close>, \<open>Viewer\<close>, \<open>Tui\<close>, \<open>Tui_List\<close>: keys and drawing calls, \<open>viewer.c\<close>, \<open>tui.c\<close>, \<open>tui_list.c\<close>.
  \<^item> \<open>Client\<close>, \<open>Client_Inv\<close>: \<open>main.c\<close>. The record \<open>client\<close> holds its global variables; \<open>client_done\<close> are the
    completion callbacks, an interpretation of \<open>ftp_client\<close>; \<open>main_round\<close> is one round of the main loop
    and \<open>reach\<close> the states it can reach. \<open>Client_Inv\<close> shows that every step keeps the invariant \<open>inv\<close>.
  \<^item> \<open>Transfers\<close>: whole downloads, packet by packet. \<open>Dialogue\<close>: whole replies, passive and active mode, and a
    change of directory from the command to the listing.
  \<^item> \<open>Session\<close>: sequences of events (\<open>events\<close>): the login up to the first listing, and the transfer of a file. The
    locale \<open>receiver\<close> is what \<open>handle_data\<close> expects of a data handler, as long as there is \<open>room\<close> for the packets; it is interpreted for \<open>dproc_list\<close>
    (\<open>listing\<close>) and \<open>dproc_xfer\<close> (\<open>file_data\<close>). \<open>awaits\<close> describes an engine between two replies, \<open>well_typed\<close>
    the \<open>void\<close> pointers it holds.
  \<^item> \<open>Ts_Float\<close>, \<open>Ts_Value\<close>, \<open>Ts_Node\<close>, \<open>Ts_Text\<close>: \<open>treestor.c\<close>, \<open>treestor.h\<close>, \<open>ts_text.c\<close>. Values are
    datatypes, since nothing points into them; attributes and nodes live in a store of addresses
    (\<open>tstore\<close>), since the code links them with pointers. \<open>malloc\<close> answers from a script.
  \<^item> \<open>Ts_Tree\<close>: the trees a store holds (\<open>holds\<close>), and what each operation does to them; the locale
    \<open>named_chain\<close> is the search by name, for attributes and for children.
  \<^item> \<open>Ts_Parser\<close>, \<open>Ts_Print\<close>: the parser on every text, and the round trip of saving and loading.
  \<^item> \<open>Servers\<close>: \<open>read_servers\<close> and \<open>main\<close> up to the main loop.
  \<^item> \<open>Tgfx_Dos\<close>, \<open>Tgfx_Unix\<close>, \<open>Input\<close>, \<open>Util\<close>: the two backends, the two keyboards, \<open>util.c\<close>.
  \<^item> \<open>Screens\<close>: what \<open>main.c\<close>, the lists and the viewer draw, on the screen of DOS.

  \<^bold>\<open>Conventions\<close>

  A run that would be undefined or end the program is a value \<open>Inl\<close> of the error monad: \<open>Overread\<close> and
  \<open>Overrun\<close> of a buffer, \<open>NullDeref\<close>, \<open>UseAfterFree\<close> (also for \<open>free\<close> of freed memory), \<open>BadCast\<close> (a
  \<open>void\<close> pointer of the wrong kind), \<open>AssertFail\<close> (also \<open>abort\<close>), \<open>NoReturn\<close> (fuel used up). \<open>safeE E P m\<close>
  means that \<open>m\<close> ends in a fault of \<open>E\<close> or in a result with \<open>P\<close>. Integers that the code adds or scales within
  small bounds are \<open>int\<close>, addresses, ports and bits are words. The arithmetic that can leave its type wraps: \<open>atoi\<close>, the size
  of a receive buffer and the counts of \<open>progress\<close> (\<open>int32\<close>, and \<open>int64\<close> for a \<open>long\<close>, which has 64 bits here and 32 on DOS),
  the port given to \<open>htons\<close> (16 bits). Sizes of arrays are \<open>nat\<close>: the bytes of an array are taken to fit an \<open>int\<close>, so
  \<open>szelem * elem\<close> in \<open>darray.c\<close> does not overflow.

  Strings are lists of characters without the terminating zero; where the zero or the size of a buffer matters, the buffer is
  modelled with all its bytes (\<open>crecv\<close>, the receive buffers, the viewer, the listing parser). A receive buffer (\<open>recvbuf\<close>)
  is the whole block that \<open>malloc\<close> and \<open>realloc\<close> returned, \<open>rb_data\<close> its part that was received; what the rest holds is
  the component \<open>stale\<close> of the state, arbitrary bytes that every theorem holds for. The listing parser gets the block from
  the current line to its end, and reads past the received bytes where the code does.

  The operating system, the server and the user are not modelled but answer from lists that are part of the
  state, so that each theorem holds for all their answers; a list that is used up means that nothing more
  happens. \<open>qsort\<close> is a sort by the comparison function; C leaves open how it orders equal elements.

  \<^bold>\<open>Fuel\<close>

  \<open>ftp_handle\<close> recurs through \<open>ftp_waitresp\<close>; each nested call consumes an answer of \<open>select\<close>, and the fuel is
  the number of answers left. A parser gets \<open>load_fuel\<close>, three units for each character and three more: each
  nested call has read a token. Loops over the lists of a store get the number of addresses in use, one more
  than a list without a cycle can have nodes; freeing and saving get twice that number, for a node and the
  loop over its children. The theorems \<open>ftp_handle_returns\<close>, \<open>config_parser_safe\<close>, \<open>tree_freed\<close> and
  \<open>config_roundtrip\<close> show that it is enough: \<open>NoReturn\<close> is never the result. All other recursion is shown
  to end by a measure. The theorems on whole listings hold for listings of at most 2^30 bytes (\<open>max_block\<close>), the largest
  receive buffer whose size is an \<open>int\<close>; what happens beyond is \<open>receive_buffer_bounded\<close>.

  \<^bold>\<open>What the lemmas show\<close>

  \<^item> For arrays, the queue, trees and lists: each operation does to the abstract list or tree what its name
    says, for every sequence of operations.
  \<^item> For the engine and the client: one invariant, kept by every event, key and refresh, from the start of
    the program on; downloads and listings are complete and in order however the packets are cut.
  \<^item> For the engine as a whole: a session from the connection to the first directory, and the transfer of a file, through
    the queue, the handlers and the nested wait, with data and replies in any order that the two connections allow; and what
    goes wrong when two transfers are queued, or without passive mode.
  \<^item> For texts: parsers against printers, in both directions, and parsers on every input.
  \<^item> For the screen: a cell by cell description of the DOS box, the pair that is switched on when curses draws, the keys of DOS; a refresh
    stays inside of the frame buffer.
  \<^item> Some theorems are about defects: an input on which the code fails, or the exact condition.

  \<^bold>\<open>Not modelled\<close>

  \<^item> The libraries: the Watt-32 headers under \<open>libs/\<close>, curses, the socket layer, \<open>printf\<close> beyond the conversions
    used, \<open>strerror\<close>. Their numbers are parameters (\<open>curses_keys\<close>, \<open>curses_lib\<close>).
  \<^item> The interrupt that \<open>detect_lfn\<close> calls, a parameter (\<open>query\<close>). The DOS name of the file of
    servers, which is \<open>visftp.srv\<close> without the dot.
  \<^item> Functions with empty bodies (\<open>tui_init\<close>, \<open>tui_vstatus\<close>, \<open>tui_vmsgbox\<close>, \<open>init_input\<close>, \<open>tg_init\<close> on DOS) and
    messages to \<open>stderr\<close>.
  \<^item> Memory that leaks, which no theorem is about.
\<close>

section \<open>The program\<close>

text \<open>C1:
  In every state the program can reach, whatever keys are pressed and whatever the server, the file
  system and the memory allocator answer, the invariant of the engine and of the client holds, and
  the next round of the main loop ends with a state that satisfies it again or with one of the
  faults of \<open>ftp_faults\<close>: it never follows a \<open>void\<close> pointer of the wrong kind, never frees data with
  the wrong function, and never hangs.
\<close>

theorem main_loop_invariant:
  "reach st \<Longrightarrow> ftp_inv client_ok (fst st)
    \<and> safeE ftp_faults (round_ok (fst st)) (main_round lfn keys ready st)"
  using reach_inv main_round_step by blast

theorem main_loop_invariant_witness: "\<exists>st. main_start boot0 = Inr (Some st) \<and> ftp_inv client_ok (fst st)"
proof -
  obtain st where st: "main_start boot0 = Inr (Some st)" using boot0_starts by blast
  moreover have "reach st"
    using st by (rule reach_start [rotated]) (simp add: boot_def boot0_def client0_def)
  ultimately show ?thesis using main_loop_invariant [of st] by blast
qed

text \<open>C6:
  \<open>ftp_handle\<close> returns for every event in every state that satisfies the invariant: the nesting
  through \<open>ftp_waitresp\<close> and the loops over the sockets end. The result satisfies the invariant.
\<close>

theorem ftp_handle_returns:
  "ftp_inv client_ok s \<Longrightarrow> ftp_handle client_done fd s \<noteq> Inl NoReturn
    \<and> ftp_handle client_done fd s \<noteq> Inl BadCast
    \<and> (\<forall>s'. ftp_handle client_done fd s = Inr s' \<longrightarrow> ftp_inv client_ok s')"
  using visftp.handle_safe [of s fd] by (auto dest: step_ok_inv)

theorem ftp_handle_returns_witness: "ftp_handle client_done 3 (idle client0) \<noteq> Inl NoReturn"
  using ftp_handle_returns [OF idle_inv [of client_ok client0, OF client0_ok], of 3] by blast

text \<open>C10:
  The \<open>void\<close> pointers of the engine are well typed. In every state that the program can reach the argument of the data
  handler is of the type to which the handler casts it, and so is the argument of the reply handler that uses one; running
  them, on any packet and any reply, never casts a pointer to the wrong type, and every event of the engine leaves them well
  typed.
\<close>

theorem handlers_typed:
  "reach st \<Longrightarrow> well_typed (fst st)
    \<and> (\<forall>f bs. dproc (fst st) = Some f \<and> length bs \<le> DRECV_SIZE \<longrightarrow>
        run_dproc client_done f bs (dproc_cls (fst st)) (fst st) \<noteq> Inl BadCast)
    \<and> (\<forall>f code line. cproc (fst st) = Some f \<longrightarrow>
        run_cproc engine client_done f code line (cproc_cls (fst st)) ((fst st)\<lparr>last_resp := code\<rparr>) \<noteq> Inl BadCast)
    \<and> (\<forall>fd s. engine fd (fst st) = Inr s \<longrightarrow> well_typed s)"
proof -
  assume "reach st"
  then have i: "inv (fst st)" by (rule reach_inv)
  then have s: "cstep (fst st) (fst st)" by (rule step_ok_refl)
  have "run_dproc client_done f bs (dproc_cls (fst st)) (fst st) \<noteq> Inl BadCast"
    if "dproc (fst st) = Some f" "length bs \<le> DRECV_SIZE" for f bs
    using visftp.eng.run_dproc_safe [OF s that, of "dat_rx (fst st)"] by auto
  moreover have "run_cproc engine client_done f code line (cproc_cls (fst st)) ((fst st)\<lparr>last_resp := code\<rparr>) \<noteq> Inl BadCast"
    if "cproc (fst st) = Some f" for f code line
    using visftp.eng.run_cproc_safe [OF _ s that, of "Suc (length (sel_in (fst st)))" code line] i
    by (auto simp: visftp.eng.good_def)
  moreover have "well_typed t" if "engine fd (fst st) = Inr t" for fd t
    using visftp.handle_safe [OF i, of fd] that by (auto dest!: step_ok_inv intro: inv_well_typed)
  ultimately show ?thesis using inv_well_typed [OF i] by blast
qed

theorem handlers_typed_witness: "\<exists>st. main_start boot0 = Inr (Some st) \<and> well_typed (fst st)"
proof -
  obtain st where st: "main_start boot0 = Inr (Some st)" using boot0_starts by blast
  moreover have "reach st"
    using st by (rule reach_start [rotated]) (simp add: boot_def boot0_def client0_def)
  ultimately show ?thesis using handlers_typed [of st] by blast
qed

section \<open>Downloads\<close>

text \<open>A receive buffer as \<open>ftp_list\<close> allocates it, in memory that holds zeros.\<close>

definition empty_buf :: recvbuf where
  "empty_buf = \<lparr>rb_buf = replicate 1024 NUL, rb_size = 0, rb_bufsz = 1024\<rparr>"

lemma empty_buf_ok: "buf_ok empty_buf" "rb_data empty_buf = []" "rb_size empty_buf = 0" "rb_bufsz empty_buf = 1024"
  by (simp_all add: empty_buf_def buf_ok_def rb_data_def)

text \<open>A directory listing in the format of \<open>ls -l\<close> with CR LF line ends, cut into packets in any way,
  ends as the sorted list of its entries: same names, types and sizes, none lost or doubled; the
  receive buffer is freed, the data handler reset and the engine one step less busy.
\<close>

theorem listing_download:
  assumes "packets_ok ps" "concat ps = concat (map ls_text es)" "list_all ls_wf es" "length (concat ps) \<le> max_block"
    and "bufs s i = Some b" "buf_ok b" "rb_data b = []" "mem_in s = []"
  shows "\<exists>s'. bindE (feed (\<lambda>p. dproc_list p (ClsBuf i)) ps s) (dproc_list [] (ClsBuf i)) = Inr s'
    \<and> mset (map dirent_view (darr_list (dirent s'))) = mset (map ls_view es)
    \<and> sorted_wrt (\<lambda>a b. ftp_direntcmp a b \<le> 0) (darr_list (dirent s'))
    \<and> busy s' = busy s - 1 \<and> bufs s' i = None \<and> dproc s' = None"
  using list_download [OF assms] by blast

theorem listing_download_witness:
  "\<exists>s'. bindE (feed (\<lambda>p. dproc_list p (ClsBuf 0)) [ls_text ls_example]
      ((idle ())\<lparr>bufs := [0 \<mapsto> empty_buf]\<rparr>)) (dproc_list [] (ClsBuf 0)) = Inr s'
    \<and> busy s' = -1"
  using listing_download [of "[ls_text ls_example]" "[ls_example]"
      "(idle ())\<lparr>bufs := [0 \<mapsto> empty_buf]\<rparr>" 0 empty_buf]
    ls_example_wf ls_example_short empty_buf_ok
  by (auto simp: packets_ok_def DRECV_SIZE_def)

text \<open>The packets of a file, in any number, are written to the local file in order and completely; the
  count of bytes never passes the announced total. When the server closes the connection the file
  is closed and the completion callback runs, once, on the transfer without its file.
\<close>

theorem file_download:
  assumes "packets_ok ps" "xfers s i = Some x" "x_op x = FTP_RETR" "x_fp x = Some f"
    "x_count x \<le> x_total x" "x_done x = Some d"
  shows "\<exists>t x'. feed (\<lambda>p. dproc_xfer cb p (ClsXfer i)) ps s = Inr t
    \<and> files t f = files s f @ concat ps \<and> out t = out s \<and> busy t = busy s \<and> xfers t i = Some x'
    \<and> x' = x\<lparr>x_count := min (x_total x) (x_count x + int (length (concat ps)))\<rparr>
    \<and> dproc_xfer cb [] (ClsXfer i) t =
        bindE (cb d i ((emit (OFclose f) (emit (OLog Info ''data connection closed'' []) t))
            \<lparr>xfers := (xfers t)(i \<mapsto> x'\<lparr>x_fp := None\<rparr>)\<rparr>))
          (\<lambda>s. Inr (s\<lparr>busy := busy s - 1\<rparr>))"
proof -
  from file_packets [OF assms(1-5)] obtain t where t: "feed (\<lambda>p. dproc_xfer cb p (ClsXfer i)) ps s = Inr t"
    "files t f = files s f @ concat ps" "out t = out s" "busy t = busy s"
    "xfers t i = Some (x\<lparr>x_count := min (x_total x) (x_count x + int (length (concat ps)))\<rparr>)" by blast
  moreover have "x_done x = Some d" using assms(6) .
  ultimately show ?thesis
    using assms(3,4) by (simp add: dproc_xfer_def deref_xfer_def Let_def)
qed

theorem file_download_witness:
  "\<exists>s'. feed (\<lambda>p. dproc_xfer client_done p (ClsXfer 0)) [''abc'', ''def'']
      ((idle client0)\<lparr>xfers := [0 \<mapsto> xfer_example]\<rparr>) = Inr s' \<and> files s' 0 = ''abcdef''"
  using file_download [of "[''abc'', ''def'']" "(idle client0)\<lparr>xfers := [0 \<mapsto> xfer_example]\<rparr>" 0 xfer_example 0 Xfer_done client_done]
  by (auto simp: packets_ok_def DRECV_SIZE_def xfer_example_def)

text \<open>C12:
  A remote file that is opened in the viewer: after its packets and the end of the data, when the
  announced size is right and not zero, the viewer is open and shows exactly the nonempty lines of
  the file that a line end closes; the transfer is freed.
\<close>

theorem view_download:
  assumes "packets_ok ps" "ps \<noteq> []" "xfers s i = Some x" "x_op x = FTP_RETR" "x_fp x = None"
    "x_mem x = Some (darr_alloc 0 1)" "x_count x = 0" "x_total x = int (length (concat ps))"
    "x_done x = Some View_done"
  shows "\<exists>s' ls. bindE (feed (\<lambda>p. dproc_xfer client_done p (ClsXfer i)) ps s)
      (dproc_xfer client_done [] (ClsXfer i)) = Inr s'
    \<and> view_isopen (c_viewer (app s')) \<and> v_lines (c_viewer (app s')) = Some ls
    \<and> map (span_text (concat ps)) (darr_list ls) = text_lines (concat ps)
    \<and> xfers s' i = None \<and> busy s' = busy s - 1"
proof -
  have ok: "darr_ok (darr_alloc 0 1 :: char darr)" by simp
  have "x_count x \<le> x_total x" using assms(7,8) by simp
  from view_packets [where cb = client_done, OF assms(1,3-6) ok this] obtain t m where t:
    "feed (\<lambda>p. dproc_xfer client_done p (ClsXfer i)) ps s = Inr t" "darr_ok m" "darr_list m = concat ps"
    "xfers t i = Some (x\<lparr>x_mem := Some m, x_count := int (length (concat ps))\<rparr>)" "busy t = busy s"
    using assms(7,8) by (auto simp: darr_list_alloc)
  let ?n = "int (length (concat ps))" and ?nm = "x_rname x"
  have "concat ps \<noteq> []" using assms(1,2) by (cases ps) (auto simp: packets_ok_def)
  then have pos: "0 < ?n" by simp
  from view_memopen_lines [of ?n "DarrMem m" ?nm "Some Darr_free" "c_viewer (app t)"] t(3) obtain v ls where v:
    "view_memopen ?nm (Some (DarrMem m)) ?n (Some Darr_free) (c_viewer (app t)) = Inr v"
    "v_lines v = Some ls" "v_data v = Some (DarrMem m)" "spans_ok (concat ps) ls (text_lines (concat ps))"
    by auto
  show ?thesis
    using t v pos assms(4,5,9)
    by (simp add: dproc_xfer_def deref_xfer_def Let_def client_done_def view_done_def act_redraw_def
        spans_ok_def view_isopen_def emit_def)
qed

theorem view_download_witness:
  "\<exists>s'. bindE (feed (\<lambda>p. dproc_xfer client_done p (ClsXfer 0)) [''ab'', [LF]]
      ((idle client0)\<lparr>xfers := [0 \<mapsto> xfer_example\<lparr>x_fp := None, x_mem := Some (darr_alloc 0 1), x_total := 3,
        x_done := Some View_done\<rparr>]\<rparr>)) (dproc_xfer client_done [] (ClsXfer 0)) = Inr s'
    \<and> view_isopen (c_viewer (app s'))"
  using view_download [of "[''ab'', [LF]]" "(idle client0)\<lparr>xfers := [0 \<mapsto> xfer_example\<lparr>x_fp := None,
      x_mem := Some (darr_alloc 0 1), x_total := 3, x_done := Some View_done\<rparr>]\<rparr>" 0
      "xfer_example\<lparr>x_fp := None, x_mem := Some (darr_alloc 0 1), x_total := 3, x_done := Some View_done\<rparr>"]
  by (auto simp: packets_ok_def DRECV_SIZE_def xfer_example_def)

text \<open>Reading back what \<open>ls -l\<close> prints: \<open>parse_dirent\<close> over all lines gives exactly the entries, in order,
  with the targets of symbolic links cut off and sizes of files kept to 32 bits.
\<close>

theorem listing_roundtrip:
  "list_all ls_wf es \<Longrightarrow>
    \<exists>d. parse_listing ent0 (length (concat (map ls_text es))) (concat (map ls_text es) @ junk) (darr_alloc 0 12) = Inr d
    \<and> map dirent_view (darr_list d) = map ls_view es"
  using parse_listing_ls [of es "darr_alloc 0 12" ent0] by (auto simp: darr_list_alloc)

theorem listing_roundtrip_witness:
  "\<exists>d. parse_listing ent0 (length (ls_text ls_example)) (ls_text ls_example @ ''junk'') (darr_alloc 0 12) = Inr d
    \<and> map dirent_view (darr_list d) = [(''pub'', FTP_DIR, None)]"
  using listing_roundtrip [of "[ls_example]" "''junk''"] ls_example_wf
  by (auto simp: ls_view_def ls_type_def ls_example_def)

text \<open>The end of the data connection: the block is parsed, and the entries it gives are sorted.\<close>

lemma block_parsed:
  assumes "bufs s i = Some b" "rb_size b = n" "rb_buf b = blk"
  shows "parse_listing ent0 n blk (darr_clear (dirent s)) = Inl e \<Longrightarrow> dproc_list [] (ClsBuf i) s = Inl e"
    and "parse_listing ent0 n blk (darr_clear (dirent s)) = Inr d \<Longrightarrow> darr_ok d \<Longrightarrow> \<exists>s'. dproc_list [] (ClsBuf i) s = Inr s'
      \<and> set (darr_list (dirent s')) = set (darr_list d)
      \<and> mset (map f (darr_list (dirent s'))) = mset (map f (darr_list d))"
  using assms by (simp_all add: dproc_list_def deref_buf_def Let_def darr_qsort_list)

text \<open>C32:
  A listing whose lines end with LF alone: the search for the end of a line looks for CR first, so it runs through all
  received bytes into the rest of the block, which no one has written. What that memory happens to hold decides the outcome:
  with neither CR nor a zero byte in it the search reads past the block (so it does whenever the block is full); with a zero
  byte first the listing is read correctly; with a CR first the name of the last entry runs on, through the line end and up
  to that CR. (The entry is not a symbolic link, and no arrow stands in front of the CR.)
\<close>

theorem listing_without_cr:
  assumes "bufs s i = Some b" "buf_ok b" "list_all ls_wf (es @ [e])" "ls_target e = None"
    and "rb_data b = concat (map ls_lf (es @ [e]))" "rest = drop (rb_size b) (rb_buf b)"
  shows "(CR \<notin> set rest \<and> NUL \<notin> set rest \<longrightarrow> dproc_list [] (ClsBuf i) s = Inl Overread)
    \<and> (\<forall>r r'. rest = r @ NUL # r' \<and> CR \<notin> set r \<longrightarrow> (\<exists>s'. dproc_list [] (ClsBuf i) s = Inr s'
        \<and> mset (map dirent_view (darr_list (dirent s'))) = mset (map ls_view (es @ [e]))))
    \<and> (\<forall>r r'. rest = r @ CR # r' \<and> CR \<notin> set r \<and> NUL \<notin> set r \<and> no_arrow r \<longrightarrow> (\<exists>s' x. dproc_list [] (ClsBuf i) s = Inr s'
        \<and> x \<in> set (darr_list (dirent s')) \<and> de_name x = ls_name e @ LF # r))"
proof -
  let ?t = "concat (map ls_lf (es @ [e]))" and ?d = "darr_clear (dirent s)"
  have buf: "rb_buf b = ?t @ rest"
    using assms(5,6) append_take_drop_id [of "rb_size b" "rb_buf b"] by (simp only: rb_data_def)
  have len: "rb_size b = length ?t" using rb_data_length [OF assms(2)] assms(5) by simp
  have no: "CR \<notin> set ?t" "NUL \<notin> set ?t" "0 < length ?t" using lf_no_CR [OF assms(3)] by (auto simp: ls_lf_def)
  note parsed = block_parsed [OF assms(1) len buf]
  show ?thesis
  proof (intro conjI allI impI)
    assume "CR \<notin> set rest \<and> NUL \<notin> set rest"
    then show "dproc_list [] (ClsBuf i) s = Inl Overread" using no by (intro parsed(1) parse_listing_no_CR) auto
  next
    fix r r'
    assume r: "rest = r @ NUL # r' \<and> CR \<notin> set r"
    then have "CR \<notin> set r" by blast
    from parse_listing_lf [where ent = ent0 and d = ?d and c = r', OF assms(3) darr_ok_clear this] obtain d where
      d: "parse_listing ent0 (length ?t) (?t @ rest) ?d = Inr d" "darr_ok d"
      "map dirent_view (darr_list d) = map ls_view (es @ [e])"
      using r by (auto simp: darr_list_clear)
    show "\<exists>s'. dproc_list [] (ClsBuf i) s = Inr s' \<and> mset (map dirent_view (darr_list (dirent s'))) = mset (map ls_view (es @ [e]))"
      using parsed(2) [OF d(1,2), of dirent_view] unfolding d(3) by blast
  next
    fix r r'
    assume r: "rest = r @ CR # r' \<and> CR \<notin> set r \<and> NUL \<notin> set r \<and> no_arrow r"
    have "list_all ls_wf es" "ls_wf e" using assms(3) by simp_all
    from parse_listing_far_CR [where a = r and ent = ent0 and d = ?d and c = r', OF this assms(4) _ _ _ darr_ok_clear]
    obtain d x where d: "parse_listing ent0 (length ?t) (?t @ rest) ?d = Inr d" "darr_ok d" "x \<in> set (darr_list d)"
      "de_name x = ls_name e @ LF # r"
      using r by auto
    then show "\<exists>s' x. dproc_list [] (ClsBuf i) s = Inr s' \<and> x \<in> set (darr_list (dirent s')) \<and> de_name x = ls_name e @ LF # r"
      using parsed(2) [OF d(1,2)] by blast
  qed
qed

definition lf_buf :: "string \<Rightarrow> recvbuf" where
  "lf_buf r = \<lparr>rb_buf = ls_lf ls_example @ r, rb_size = length (ls_lf ls_example), rb_bufsz = 1024\<rparr>"

lemma lf_buf_ok: "length r = 1024 - length (ls_lf ls_example) \<Longrightarrow> buf_ok (lf_buf r) \<and> rb_data (lf_buf r) = ls_lf ls_example"
  using ls_example_short by (simp add: lf_buf_def buf_ok_def rb_data_def ls_lf_def ls_text_eq)

theorem listing_without_cr_witness:
  "dproc_list [] (ClsBuf 0) ((idle ())\<lparr>bufs := [0 \<mapsto> lf_buf (replicate (1024 - length (ls_lf ls_example)) CHR ''x'')]\<rparr>) = Inl Overread
    \<and> (\<exists>s' x. dproc_list [] (ClsBuf 0) ((idle ())\<lparr>bufs := [0 \<mapsto> lf_buf (replicate (1024 - length (ls_lf ls_example)) CR)]\<rparr>) = Inr s'
        \<and> x \<in> set (darr_list (dirent s')) \<and> de_name x = ''pub'' @ [LF])"
proof -
  define n where "n = 1024 - length (ls_lf ls_example)"
  define S where "S r = (idle ())\<lparr>bufs := [0 \<mapsto> lf_buf r]\<rparr>" for r
  have n: "replicate n CR = [] @ CR # replicate (n - 1) CR"
    using ls_example_short by (cases n) (simp_all add: n_def ls_lf_def ls_text_eq)
  have e: "ls_target ls_example = None" "ls_name ls_example = ''pub''" by (simp_all add: ls_example_def)
  have S: "bufs (S r) 0 = Some (lf_buf r)" "r = drop (rb_size (lf_buf r)) (rb_buf (lf_buf r))" for r
    by (simp_all add: S_def lf_buf_def)
  have b: "buf_ok (lf_buf (replicate n c))" "rb_data (lf_buf (replicate n c)) = concat (map ls_lf ([] @ [ls_example]))" for c
    using lf_buf_ok [of "replicate n c"] by (simp_all add: n_def)
  have wf: "list_all ls_wf ([] @ [ls_example])" using ls_example_wf by simp
  note L = listing_without_cr [OF S(1) b(1) wf e(1) b(2) S(2)]
  have "dproc_list [] (ClsBuf 0) (S (replicate n CHR ''x'')) = Inl Overread" using L [of "CHR ''x''"] by simp
  moreover have "\<exists>s' x. dproc_list [] (ClsBuf 0) (S (replicate n CR)) = Inr s'
        \<and> x \<in> set (darr_list (dirent s')) \<and> de_name x = ls_name ls_example @ LF # []"
    using L [THEN conjunct2, THEN conjunct2, rule_format, of CR "[]" "replicate (n - 1) CR"] n by simp
  ultimately show ?thesis using e(2) by (simp add: S_def n_def)
qed

text \<open>C16:
  The receive buffer of a listing never overflows, and what becomes of a packet of at most 256 bytes is exactly this: when it
  fits it is stored behind the bytes received before; when it does not and the block has less than 2^30 bytes and \<open>realloc\<close>
  works, the block doubles and the packet is stored; otherwise (\<open>realloc\<close> fails, also because the doubled size is no \<open>int\<close>)
  the packet is dropped with a message and nothing else changes. The invariant is kept.
\<close>

theorem receive_buffer_bounded:
  assumes "ftp_inv client_ok s" "dproc s = Some Dproc_list" "buf \<noteq> []" "length buf \<le> DRECV_SIZE" "sys_malloc s = (ok, t)"
  shows "\<exists>i b. dproc_cls s = ClsBuf i \<and> bufs s i = Some b \<and> rb_size b \<le> length (rb_buf b) \<and> int (length (rb_buf b)) = rb_bufsz b
    \<and> (int (rb_size b + length buf) \<le> rb_bufsz b \<longrightarrow> (\<exists>b'. dproc_list buf (ClsBuf i) s = Inr (s\<lparr>bufs := (bufs s)(i \<mapsto> b')\<rparr>)
        \<and> buf_ok b' \<and> rb_data b' = rb_data b @ buf \<and> rb_bufsz b' = rb_bufsz b))
    \<and> (int (rb_size b + length buf) > rb_bufsz b \<and> rb_bufsz b < 2 ^ 30 \<and> ok \<longrightarrow>
        (\<exists>b'. dproc_list buf (ClsBuf i) s = Inr (t\<lparr>bufs := (bufs s)(i \<mapsto> b')\<rparr>)
          \<and> buf_ok b' \<and> rb_data b' = rb_data b @ buf \<and> rb_bufsz b' = 2 * rb_bufsz b))
    \<and> (int (rb_size b + length buf) > rb_bufsz b \<and> (rb_bufsz b \<ge> 2 ^ 30 \<or> \<not> ok) \<longrightarrow>
        dproc_list buf (ClsBuf i) s
          = Inr (emit (OLog Err ''failed to resize receive buffer'' []) (if rb_bufsz b < 2 ^ 30 then t else s)))
    \<and> (\<forall>s'. dproc_list buf (ClsBuf i) s = Inr s' \<longrightarrow> ftp_inv client_ok s')"
proof -
  obtain i b where b: "dproc_cls s = ClsBuf i" "bufs s i = Some b" "buf_ok b" using assms(1,2) by (auto simp: ftp_inv_def)
  have "safeE {Overread} (step_ok client_ok s) (dproc_list buf (ClsBuf i) s)"
    using assms(1,4) b(2) by (intro visftp.eng.dproc_list_safe) (simp_all add: step_ok_refl)
  then have "\<forall>s'. dproc_list buf (ClsBuf i) s = Inr s' \<longrightarrow> ftp_inv client_ok s'" by (auto dest: step_ok_inv)
  moreover note packet_fits [OF b(2,3) assms(3)]
  moreover have "\<exists>b'. dproc_list buf (ClsBuf i) s = Inr (t\<lparr>bufs := (bufs s)(i \<mapsto> b')\<rparr>)
      \<and> buf_ok b' \<and> rb_data b' = rb_data b @ buf \<and> rb_bufsz b' = 2 * rb_bufsz b"
    if "int (rb_size b + length buf) > rb_bufsz b" "rb_bufsz b < 2 ^ 30" "ok"
    using packet_grows [OF b(2,3) assms(3,4) that(1)] that(2,3) assms(5) by simp
  moreover have "dproc_list buf (ClsBuf i) s
      = Inr (emit (OLog Err ''failed to resize receive buffer'' []) (if rb_bufsz b < 2 ^ 30 then t else s))"
    if "int (rb_size b + length buf) > rb_bufsz b" "rb_bufsz b \<ge> 2 ^ 30 \<or> \<not> ok"
    using packet_dropped [OF b(2,3) assms(3) that(1)] that(2) assms(5) by (cases "rb_bufsz b < 2 ^ 30") auto
  moreover have "rb_size b \<le> length (rb_buf b)" "int (length (rb_buf b)) = rb_bufsz b" using b(3) by (simp_all add: buf_ok_def)
  ultimately show ?thesis by (intro exI [of _ i] exI [of _ b]) (simp add: b(1,2))
qed

theorem receive_buffer_bounded_witness:
  "\<exists>b'. dproc_list ''abc'' (ClsBuf 0) ((idle client0)\<lparr>dproc := Some Dproc_list, dproc_cls := ClsBuf 0, next_buf := 1,
      bufs := [0 \<mapsto> empty_buf]\<rparr>)
    = Inr ((idle client0)\<lparr>dproc := Some Dproc_list, dproc_cls := ClsBuf 0, next_buf := 1, bufs := [0 \<mapsto> b']\<rparr>) \<and> rb_data b' = ''abc''"
proof -
  let ?s = "(idle client0)\<lparr>dproc := Some Dproc_list, dproc_cls := ClsBuf 0, next_buf := 1, bufs := [0 \<mapsto> empty_buf]\<rparr>"
  have inv: "ftp_inv client_ok ?s" using client0_ok empty_buf_ok by (simp add: ftp_inv_def idle_def CRECV_SIZE_def)
  have m: "sys_malloc ?s = (fst (sys_malloc ?s), snd (sys_malloc ?s))" by simp
  have "rb_size empty_buf = 0" "rb_bufsz empty_buf = 1024" "rb_data empty_buf = []" by (simp_all add: empty_buf_def rb_data_def)
  then show ?thesis using receive_buffer_bounded [OF inv _ _ _ m, of "''abc''"] by (auto simp: DRECV_SIZE_def)
qed

text \<open>The order of a listing: directories before files, and names in the order of \<open>strcmp\<close> among each.
\<close>

theorem entries_sorted:
  "darr_ok d \<Longrightarrow> mset (darr_list (darr_qsort ftp_direntcmp d)) = mset (darr_list d)
    \<and> sorted_wrt (\<lambda>a b. if de_type a = de_type b then strcmp (de_name a) (de_name b) \<le> 0
        else de_type a = FTP_DIR) (darr_list (darr_qsort ftp_direntcmp d))"
  using direntcmp.sorted_qsort [of "darr_list d"] by (simp add: darr_qsort_list direntcmp_le)

theorem entries_sorted_witness:
  "mset (darr_list (darr_qsort ftp_direntcmp (darr_push (darr_alloc 0 12) ent0))) = {#ent0#}"
  using entries_sorted [of "darr_push (darr_alloc 0 12) ent0"]
  by (simp add: da.push_inv da.push_list darr_list_alloc)

section \<open>Commands and replies\<close>

text \<open>A reply 227 with an address in parentheses makes the client connect to exactly that address and
  port, on the socket that becomes the data connection.
\<close>

theorem passive_connects:
  assumes "\<forall>c \<in> set tx. \<not> isdigit c" "post = [] \<or> \<not> isdigit (hd post)"
    and "sock_in s = fd # fds" "fd \<noteq> -1" "conn_in s = True # cs"
  shows "\<exists>s'. cproc_pasv 227 (''227 '' @ tx @ CHR ''('' # port_args a p @ post) s = Inr (s', 0)
    \<and> data s' = fd \<and> status s' = FTP_CONN_PASV \<and> OConnect fd a (uint p) \<in> set (out s')"
  using assms(3-5) parse_pasv_port_args [OF assms(1,2), of a p]
  by (simp add: cproc_pasv_def sys_socket_def sys_connect_def emit_def)

theorem passive_connects_witness:
  "\<exists>s'. cproc_pasv 227 (''227 ok '' @ CHR ''('' # port_args 0x7f000001 2021 @ '')'')
      ((idle ())\<lparr>sock_in := [4], conn_in := [True]\<rparr>) = Inr (s', 0) \<and> data s' = 4"
  using passive_connects [where tx = "''ok ''" and post = "'')''" and a = "0x7f000001" and p = 2021
      and s = "(idle ())\<lparr>sock_in := [4], conn_in := [True]\<rparr>" and fd = 4]
  by (auto simp: isdigit_def ccode_def)

text \<open>C14:
  The address in the \<open>PORT\<close> command that \<open>ftp_active\<close> sends is the one of the listening socket: reading
  its six numbers back gives the same address and port.
\<close>

theorem port_command_roundtrip:
  assumes "sock_in s = fd # fds" "fd \<noteq> -1" "bind_in s = True # bs" "name_in s = Some (a, p) # ns"
    and "0 \<le> ctl s" "length (port_args a p) \<le> 248"
  shows "\<exists>s'. ftp_active s = Inr (s', 0) \<and> lis s' = fd \<and> cproc s' = Some Cproc_active
    \<and> last (out s') = OSend (ctl s) (''PORT '' @ port_args a p @ [CR, LF])
    \<and> parse_pasv (''227 '' @ CHR ''('' # port_args a p @ '')'') = Some (a, uint p)"
proof -
  have rt: "parse_pasv (''227 '' @ CHR ''('' # port_args a p @ '')'') = Some (a, uint p)"
    using parse_pasv_port_args [of "[]" "'')''" a p] by (simp add: isdigit_def ccode_def)
  show ?thesis
    using assms rt by (simp add: ftp_active_def sys_socket_def sys_bind_def sys_getsockname_def
        sendcmd_def emit_def Let_def)
qed

theorem port_command_roundtrip_witness:
  "\<exists>s'. ftp_active ((idle ())\<lparr>sock_in := [5], bind_in := [True], name_in := [Some (0x7f000001, 2021)]\<rparr>)
      = Inr (s', 0) \<and> lis s' = 5"
proof -
  have "length (port_args 0x7f000001 2021) \<le> 248"
    by (simp add: port_args_def commas_def dec_str.simps)
  then show ?thesis
    using port_command_roundtrip [where s = "(idle ())\<lparr>sock_in := [5], bind_in := [True],
      name_in := [Some (0x7f000001, 2021)]\<rparr>" and fd = 5 and a = "0x7f000001" and p = 2021 and fds = "[]" and bs = "[]" and ns = "[]"] by auto
qed

text \<open>When the server refuses passive mode, the client gives it up for good and tries active mode.
\<close>

theorem passive_fallback:
  "code \<noteq> 227 \<Longrightarrow> cproc_pasv code buf s =
    bindE (ftp_active ((emit (OLog Err ''ftp_passive failed'' []) s)\<lparr>pasv_mode := False\<rparr>)) (\<lambda>(s, _). Inr (s, 0))
    \<and> (\<forall>s' r. cproc_pasv code buf s = Inr (s', r) \<longrightarrow> \<not> pasv_mode s')"
proof -
  have keep: "pasv_mode s' = pasv_mode s" if "ftp_active s = Inr (s', r)" for s s' :: "'a sys" and r
    using that by (auto simp: ftp_active_def sys_socket_def sys_bind_def sys_getsockname_def sendcmd_def
        emit_def Let_def res_simps split: if_splits prod.splits bool.splits option.splits)
  assume "code \<noteq> 227"
  then show ?thesis by (auto simp: cproc_pasv_def nopasv_def res_simps dest: keep)
qed

theorem passive_fallback_witness:
  "cproc_pasv 502 ''502 no'' (idle ()) =
    bindE (ftp_active ((emit (OLog Err ''ftp_passive failed'' []) (idle ()))\<lparr>pasv_mode := False\<rparr>)) (\<lambda>(s, _). Inr (s, 0))"
  using passive_fallback [of 502 "''502 no''" "idle ()"] by simp

text \<open>A reply of three digits and a blank is its code, with a hyphen instead (more lines follow) the
  negated code; anything else after the digits is no reply.
\<close>

theorem reply_codes:
  "n < 1000 \<Longrightarrow> \<not> isdigit d \<Longrightarrow> respcode (code3 n @ d # t)
    = (if isspace d then int n else if d = CHR ''-'' then - int n else 0)
    \<and> \<bar>respcode r\<bar> \<le> 999"
  using respcode_code3 [of n d t] respcode_bounds [of r] by blast

theorem reply_codes_witness: "respcode (code3 226 @ '' done'') = 226"
  using reply_codes [of 226 "CHR '' ''" "''done''"] by (simp add: isdigit_def isspace_def ccode_def)

text \<open>RFC 959 doubles the quotes inside the name of a directory in a reply 257; \<open>get_quoted_text\<close> stops at
  the first of them, so such a name is cut off there. Names without quotes are read back whole.
\<close>

theorem quoted_directory_names:
  "DQUOTE \<notin> set p \<Longrightarrow> get_quoted_text (p @ DQUOTE # rfc_quoted s @ DQUOTE # t)
    = Some (takeWhile (\<lambda>c. c \<noteq> DQUOTE) s)"
  by (rule get_quoted_rfc)

theorem quoted_directory_names_witness:
  "get_quoted_text (''257 '' @ DQUOTE # rfc_quoted (''a'' @ DQUOTE # ''b'') @ DQUOTE # []) = Some ''a''"
  using quoted_directory_names [of "''257 ''" "''a'' @ DQUOTE # ''b''" "[]"] by simp

text \<open>On a connection a command of at most 253 bytes is sent with CR LF behind it, and the engine is one
  step busier; a longer one writes past the buffer of 256 bytes.
\<close>

theorem sendcmd_exact:
  "0 \<le> ctl s \<Longrightarrow>
    (if length cmd \<le> 253
     then \<exists>s'. sendcmd cmd s = Inr s' \<and> last (out s') = OSend (ctl s) (cmd @ [CR, LF]) \<and> busy s' = busy s + 1
     else sendcmd cmd s = Inl Overrun)"
  by (auto simp: sendcmd_def Let_def emit_def min_def)

theorem sendcmd_exact_witness: "sendcmd (replicate 254 CHR ''a'') (idle ()) = Inl Overrun"
  using sendcmd_exact [of "idle ()" "replicate 254 CHR ''a''"] by simp

text \<open>After a successful login the client sends the type command at once and queues asking for the
  current directory and for its listing, in this order.
\<close>

theorem login_sequence:
  assumes "0 \<le> ctl s" "q_ok (opqueue s)" "q_list (opqueue s) = []" "mem_in s = []"
  shows "\<exists>s'. login_reply h 230 s = Inr s' \<and> busy s' = 1
    \<and> out s' = out s @ [OLog Info ''login successful'' [], OLog Info ''send: %s'' [''type I''],
        OSend (ctl s) (''type I'' @ [CR, LF])]
    \<and> map op_code (q_list (opqueue s')) = [FTP_PWD, FTP_LIST]"
proof -
  let ?s = "emit (OLog Info ''login successful'' []) (s\<lparr>busy := 0\<rparr>)"
  have s: "0 \<le> ctl ?s" "q_ok (opqueue ?s)" "q_list (opqueue ?s) = []" "mem_in ?s = []" "busy ?s = 0"
    using assms by (simp_all add: emit_def)
  show ?thesis
    by (rule newconn_starts [OF s, of h]) (auto simp: login_reply_def emit_def plain_op_def)
qed

theorem login_sequence_witness:
  "\<exists>s'. login_reply (ftp_handle client_done) 230 (idle client0) = Inr s' \<and> busy s' = 1"
  using login_sequence [of "idle client0"] by auto

text \<open>While the engine is busy an operation is not started: it goes to the end of the queue, and nothing
  is sent.
\<close>

theorem busy_queue_defers:
  assumes "q_ok (opqueue s)" "busy s \<noteq> 0 \<or> q_list (opqueue s) \<noteq> []" "mem_in s = []"
  shows "\<exists>s'. ftp_queue h op arg s = Inr (s', 0) \<and> out s' = out s \<and> busy s' = busy s
    \<and> q_list (opqueue s') = q_list (opqueue s) @ [\<lparr>op_code = op, op_arg = arg, op_data = None\<rparr>]"
proof -
  have g: "\<not> (busy s = 0 \<and> qhead (opqueue s) = None)" using assms(1,2) q_head_list by blast
  from opq.enqE [OF assms(1)] obtain q' where
    "enq_op \<lparr>op_code = op, op_arg = arg, op_data = None\<rparr> (opqueue s) = Inr q'"
    "q_list q' = q_list (opqueue s) @ [\<lparr>op_code = op, op_arg = arg, op_data = None\<rparr>]" .
  with assms(3) show ?thesis
    unfolding ftp_queue_def if_not_P [OF g] by (cases arg) (auto simp: sys_malloc_def)
qed

theorem busy_queue_defers_witness:
  "\<exists>s'. ftp_queue (ftp_handle client_done) FTP_PWD None ((idle client0)\<lparr>busy := 1\<rparr>) = Inr (s', 0) \<and> out s' = []"
  using busy_queue_defers [of "(idle client0)\<lparr>busy := 1\<rparr>" "ftp_handle client_done" FTP_PWD None] by auto

text \<open>C15:
  The linked list of pending operations behaves as a first-in first-out queue for every sequence of
  enqueuing and dequeuing, and never touches a node that was freed.
\<close>

theorem queue_is_fifo: "q_ok q \<Longrightarrow> queue_run ops q = Inr (fifo_run ops (q_list q))"
  by (rule queue_run_fifo)

theorem queue_is_fifo_witness:
  "queue_run [QEnq \<lparr>op_code = FTP_PWD, op_arg = None, op_data = None\<rparr>, QDeq] empty_queue
    = Inr [\<lparr>op_code = FTP_PWD, op_arg = None, op_data = None\<rparr>]"
  using queue_is_fifo [of empty_queue "[QEnq \<lparr>op_code = FTP_PWD, op_arg = None, op_data = None\<rparr>, QDeq]"] by simp

text \<open>What arrives on the control connection without a line end is thrown away: \<open>handle_control\<close> keeps the
  rest of a chunk only when the chunk had a line end before it.
\<close>

theorem partial_reply_lost:
  assumes "num_crecv s < CRECV_SIZE" "ctl_rx s = [Rx bs]" "bs \<noteq> []" "LF \<notin> set bs"
    and "num_crecv s + length bs \<le> CRECV_SIZE" "length (crecv s) = CRECV_SIZE"
  shows "\<exists>s'. handle_control h cb s = Inr (s', 0) \<and> num_crecv s' = 0 \<and> out s' = out s \<and> ctl_rx s' = []
    \<and> busy s' = busy s"
proof -
  have scan: "\<exists>c'. scan_lines h cb k pos 0 t = Inr (t\<lparr>crecv := c'\<rparr>, 0)"
    if "\<forall>i < k. crecv t ! (pos + i) \<noteq> LF" for k pos and t :: "'a sys"
    using that
  proof (induction k arbitrary: pos t)
    case 0
    then show ?case by (auto intro!: exI [of _ "crecv t"])
  next
    case (Suc k)
    have hd: "crecv t ! pos \<noteq> LF" using Suc.prems by (metis add_0_right zero_less_Suc)
    have tl: "\<forall>i < k. crecv t ! (Suc pos + i) \<noteq> LF" using Suc.prems by fastforce
    then have "\<forall>i < k. crecv (t\<lparr>crecv := (crecv t)[pos := NUL]\<rparr>) ! (Suc pos + i) \<noteq> LF" by simp
    from Suc.IH [OF this] Suc.IH [OF tl] hd show ?case by (auto simp: Let_def)
  qed
  let ?n = "num_crecv s"
  let ?t = "s\<lparr>ctl_rx := [], crecv := take ?n (crecv s) @ bs @ drop (?n + length bs) (crecv s)\<rparr>"
  have "\<forall>i < length bs. crecv ?t ! (?n + i) \<noteq> LF"
    using assms(1,4,6) by (auto simp: nth_append in_set_conv_nth)
  from scan [OF this] obtain c' where "scan_lines h cb (length bs) ?n 0 ?t = Inr (?t\<lparr>crecv := c'\<rparr>, 0)" by blast
  with assms show ?thesis
    by (auto simp: handle_control_def rx_size_def rx_take_def keep_rest_def Let_def CRECV_SIZE_def)
qed

theorem partial_reply_lost_witness:
  "\<exists>s'. handle_control (ftp_handle client_done) client_done ((idle client0)\<lparr>ctl_rx := [Rx ''220 Wel'']\<rparr>)
    = Inr (s', 0) \<and> num_crecv s' = 0"
  using partial_reply_lost [of "(idle client0)\<lparr>ctl_rx := [Rx ''220 Wel'']\<rparr>" "''220 Wel''"]
  by (auto simp: CRECV_SIZE_def)

text \<open>\<open>ftp_close\<close> closes every open socket once, and then there are none left to wait for.
\<close>

theorem close_leaves_nothing:
  "ftp_sockets (ftp_close s) n = []
    \<and> out (ftp_close s) = out s @ map OClose (filter (\<lambda>fd. 0 \<le> fd) [ctl s, lis s, data s])
    \<and> ftp_sockets s n = take (nat n) (filter (\<lambda>fd. 0 \<le> fd) [ctl s, lis s, data s])"
  by (auto simp: ftp_sockets_def ftp_close_def put_socket_def Let_def emit_def nat_diff_distrib
      take_Cons' split: nat.splits)

section \<open>The user interface\<close>

text \<open>C26:
  However the user moves in a list, jumps to an entry or selects, the texts stay as they are, the number of selected
  entries is right and the list can be drawn. In a list with entries the cursor stays on an entry that is visible (or on none,
  as in the beginning), the window stays within the entries, and no key fails. In a list without entries the cursor can only
  be on none or, after Left or Page Up, on the missing first one; Insert then reads an entry that does not exist.
\<close>

theorem list_navigation:
  assumes "list_step\<^sup>*\<^sup>* w w'" "list_ok w" "darr_size (entries w) = 0 \<Longrightarrow> cells (entries w) = []"
  shows "item_texts w' = item_texts w \<and> num_sel w' = sel_count w' \<and> (\<exists>cmds. draw_list_at w' xy = Inr cmds)
    \<and> (if darr_list (entries w) \<noteq> [] then list_ok w' \<and> keys_work w'
       else cur w' \<in> {-1, 0} \<and> view_offs w' = 0
         \<and> (cur w' = 0 \<longrightarrow> tui_list_toggle_sel (cur w') w' = Inl Overread)
         \<and> (\<exists>u. tui_list_cur_start w' = Inr (u, 0) \<and> cur u = 0))"
proof -
  have nav: "nav_ok w'" "item_texts w' = item_texts w" using list_steps_nav [OF assms(1) list_ok_nav [OF assms(2,3)]] by blast+
  have wf: "darr_ok (entries w)" "darr_ok (entries w')" "w_type w' = TUI_LIST"
    using assms(2) nav(1) by (simp_all add: list_ok_def nav_ok_def list_wf_def)
  have "length (darr_list (entries w')) = length (darr_list (entries w))" using nav(2) by (metis length_map)
  then have n: "darr_size (entries w') = length (darr_list (entries w))" using wf(2) by (simp add: darr_size_list)
  show ?thesis
  proof (cases "darr_list (entries w) = []")
    case True
    then have "darr_size (entries w') = 0" using n by simp
    then show ?thesis
      using True nav nav_draw missing_entry [OF nav(1)] wf(3) by (auto simp: nav_ok_def tui_list_cur_start_def as_list_def)
  next
    case False
    then have "list_ok w'" using n nav(1) nav_ok_list [of w'] by simp
    then show ?thesis using False nav nav_draw list_ok_keys by (simp add: list_ok_def)
  qed
qed

theorem list_navigation_witness:
  "\<exists>w w'. list_step list_example w \<and> list_ok w
    \<and> list_step (tui_list_new ''Local'' 40 1 40 21 PNull PNull) w' \<and> cur w' = 0 \<and> tui_list_toggle_sel 0 w' = Inl Overread"
proof -
  let ?e = "tui_list_new ''Local'' 40 1 40 21 PNull PNull"
  have "safeE {} (\<lambda>_. True) (tui_list_cur_next list_example)"
    by (rule safeE_mono [OF cur_next_ok [OF list_example_ok]]) auto
  then obtain w r where "tui_list_cur_next list_example = Inr (w, r)" by (cases "tui_list_cur_next list_example") auto
  then have s: "list_step list_example w" by (rule s_next)
  have "darr_list (entries list_example) \<noteq> []" by (simp add: list_example_def darr_defs darr_list_def)
  then have w: "list_ok w" using list_navigation [of list_example w] s list_example_ok by (auto simp: list_example_def darr_defs)
  have e: "list_ok ?e" "darr_list (entries ?e) = []" "cells (entries ?e) = []"
    by (simp_all add: tui_list_new_def list_defs tui_widget_def widget.defs tui_set_callback_def no_slots_def darr_alloc_def
        darr_size_def darr_ok_def darr_wf_def darr_list_def)
  then obtain w' where w': "tui_list_cur_start ?e = Inr (w', 0)" "cur w' = 0" using list_navigation [of ?e ?e] by auto
  then have "list_step ?e w'" by (intro s_start)
  then have "list_step\<^sup>*\<^sup>* ?e w'" by (rule r_into_rtranclp)
  then have "tui_list_toggle_sel 0 w' = Inl Overread"
    using list_navigation [of ?e w'] e w'(2) by simp
  then show ?thesis using s w \<open>list_step ?e w'\<close> w'(2) by blast
qed

text \<open>With room for all of them, \<open>tui_list_get_sel\<close> gives the indices of the selected entries in order,
  and the number it returns is how many there are.
\<close>

theorem selected_entries:
  assumes "list_ok w" "int (darr_size (entries w)) \<le> maxsel"
  shows "\<exists>selv. tui_list_get_sel maxsel w = Inr (selv, int (length selv))
    \<and> selv = map int (filter (\<lambda>k. e_sel (darr_list (entries w) ! k)) [0..<darr_size (entries w)])"
proof -
  have "darr_ok (entries w)" using assms(1) by (simp add: list_ok_def list_wf_def)
  then show ?thesis using get_sel_ok [OF assms] sel_count_indices by simp
qed

theorem selected_entries_witness: "\<exists>selv. tui_list_get_sel 1 list_example = Inr (selv, int (length selv))"
  using selected_entries [OF list_example_ok, of 1] by (auto simp: list_example_def darr_defs)

text \<open>C28:
  A directory whose subdirectories have names of at most 126 bytes is shown whole and in order, each
  subdirectory with a slash behind its name, and the cursor goes to the first entry.
\<close>

theorem directory_shown:
  assumes "list_ui w" "darr_ok d" "darr_list d \<noteq> []"
    and "\<forall>e \<in> set (darr_list d). de_type e = FTP_DIR \<longrightarrow> length (de_name e) \<le> 126"
  shows "\<exists>w'. show_dir d w = Inr w' \<and> map e_text (darr_list (entries w')) = map entry_label (darr_list d)
    \<and> cur w' = 0 \<and> view_offs w' = 0 \<and> filter e_sel (darr_list (entries w')) = [] \<and> num_sel w' = num_sel w"
proof -
  have "\<exists>w'. refill (map entry_label (darr_list d)) w = Inr w' \<and> list_wf w' \<and> cursor_ok w' \<and> cur w' = 0
      \<and> view_offs w' = 0 \<and> num_sel w' = num_sel w
      \<and> darr_list (entries w') = map (\<lambda>s. \<lparr>e_text = s, e_sel = False\<rparr>) (map entry_label (darr_list d))"
    using assms(1,3) by (intro refill_ok) (auto simp: list_ui_def split: if_splits)
  then show ?thesis using show_dir_refill [OF assms(2,4)] by (auto simp: comp_def)
qed

theorem directory_shown_witness:
  "\<exists>w'. show_dir dir_example (tui_list_new ''Remote'' 0 1 40 21 PNull PNull) = Inr w'
    \<and> map e_text (darr_list (entries w')) = [''pub/'']"
  using directory_shown [OF list_ui_new dir_example_list(1), of 21 0 40 1 "''Remote''"]
  by (auto simp: dir_example_list entry_label_def)

text \<open>C35:
  A refresh forgets which entries were selected but not how many: \<open>tui_list_get_sel\<close> then returns the
  old number and writes nothing, and the transfer of the selection reads an index that no one wrote.
\<close>

theorem selection_goes_stale:
  assumes "list_ui (c_uilist (app s) 0)" "c_focus (app s) = 0" "0 < num_sel (c_uilist (app s) 0)"
    and "darr_list (dirent s) = [e]" "de_type e = FTP_FILE" "darr_ok (dirent s)"
  shows "\<exists>w. show_dir (dirent s) (c_uilist (app s) 0) = Inr w \<and> act_transfer lfn (set_list 0 w s) = Inl Overread"
proof -
  from directory_shown [OF assms(1,6)] assms(4,5) obtain w where w:
    "show_dir (dirent s) (c_uilist (app s) 0) = Inr w" "filter e_sel (darr_list (entries w)) = []"
    "num_sel w = num_sel (c_uilist (app s) 0)" "map e_text (darr_list (entries w)) = [de_name e]"
    by (auto simp: entry_label_def)
  have "safeE {Overrun} list_ui (show_dir (dirent s) (c_uilist (app s) 0))"
    by (rule show_dir_ok [OF assms(1,6)])
  with w(1) have ui: "list_ui w" by simp
  then have ok: "darr_ok (entries w)" and t: "w_type w = TUI_LIST" by (simp_all add: list_ui_def list_wf_def)
  from w(4) obtain x where x: "darr_list (entries w) = [x]" by (cases "darr_list (entries w)") auto
  have sz: "darr_size (entries w) = 1" using ok x by (simp add: darr_size_list)
  have nx: "\<not> e_sel x" using w(2) x by (simp split: if_splits)
  have "sel_loop (entries w) 0 1 1 = Inr []"
    using sel_loop_list [OF ok, of 0 1 1] sz x nx by simp
  then have "tui_list_get_sel 1 w = Inr ([], num_sel w)"
    using t sz by (simp add: tui_list_get_sel_def as_list_def)
  moreover have "tui_num_list_items w = Inr 1"
    using t sz by (simp add: tui_num_list_items_def as_list_def)
  moreover obtain k where "nat (num_sel w) = Suc k"
    using assms(3) w(3) by (cases "nat (num_sel w)") auto
  ultimately have "act_transfer lfn (set_list 0 w s) = Inl Overread"
    using assms(2,3) w(3) by (simp add: act_transfer_def focus_list_def set_list_def)
  with w(1) show ?thesis by blast
qed

theorem selection_goes_stale_witness:
  "\<exists>w. show_dir (darr_push (darr_alloc 0 12) \<lparr>de_name = ''x'', de_type = FTP_FILE, de_size = Some 1\<rparr>)
      (tui_list_new ''R'' 0 1 40 21 PNull PNull \<lparr>num_sel := 1\<rparr>) = Inr w"
proof -
  let ?d = "darr_push (darr_alloc 0 12) \<lparr>de_name = ''x'', de_type = FTP_FILE, de_size = Some 1\<rparr>"
  let ?s = "idle (client0\<lparr>c_uilist := (\<lambda>_. tui_list_new ''R'' 0 1 40 21 PNull PNull \<lparr>num_sel := 1\<rparr>)\<rparr>)\<lparr>dirent := ?d\<rparr>"
  have "c_focus client0 = 0" by (simp add: client0_def)
  then show ?thesis
    using selection_goes_stale [of ?s "\<lparr>de_name = ''x'', de_type = FTP_FILE, de_size = Some 1\<rparr>"] list_ui_new [of 21 0 40 1 "''R''"]
    by (auto simp: da.push_list da.push_inv darr_list_alloc)
qed

text \<open>C36:
  An empty directory clears the list but leaves the cursor on the index it had, where no entry is; the next
  Enter reads that entry of the directory, which does not exist.
\<close>

theorem empty_directory_cursor:
  assumes "list_ui (c_uilist (app s) 0)" "c_focus (app s) = 0" "0 \<le> cur (c_uilist (app s) 0)"
  shows "\<exists>w. show_dir (darr_clear (dirent s)) (c_uilist (app s) 0) = Inr w
    \<and> darr_list (entries w) = [] \<and> cur w = cur (c_uilist (app s) 0) \<and> tui_get_list_cur w = Inr (cur (c_uilist (app s) 0))
    \<and> act_activate ((set_list 0 w s)\<lparr>dirent := darr_clear (dirent s)\<rparr>) = Inl Overread"
proof -
  have wf: "list_wf (c_uilist (app s) 0)" using assms(1) by (rule list_ui_list_wf)
  from refill_empty [OF wf assms(3)] obtain w where w: "refill [] (c_uilist (app s) 0) = Inr w"
    "cur w = cur (c_uilist (app s) 0)" "darr_list (entries w) = []" by blast
  have d: "show_dir (darr_clear (dirent s)) (c_uilist (app s) 0) = refill [] (c_uilist (app s) 0)"
    using show_dir_refill [of "darr_clear (dirent s)"] by (simp add: darr_list_clear)
  have "safeE {Overrun} list_ui (show_dir (darr_clear (dirent s)) (c_uilist (app s) 0))"
    by (rule show_dir_ok [OF assms(1)]) simp
  with w d have ty: "w_type w = TUI_LIST" by (simp add: list_ui_def list_wf_def)
  moreover have "darr_get (darr_clear (dirent s)) k = Inl Overread" for k
    by (auto simp: darr_get_def darr_clear_def darr_resize_desc_def realloc_cells_def Let_def)
  ultimately show ?thesis
    using w d assms(2) by (simp add: act_activate_def focus_list_def set_list_def tui_get_list_cur_def as_list_def
        ftp_dirent_at_def)
qed

theorem empty_directory_cursor_witness:
  "\<exists>w. show_dir (darr_clear (darr_alloc 0 12)) (tui_list_new ''R'' 0 1 40 21 PNull PNull \<lparr>entries := entries list_example, cur := 0\<rparr>) = Inr w
    \<and> darr_list (entries w) = [] \<and> cur w = 0"
proof -
  let ?w = "tui_list_new ''R'' 0 1 40 21 PNull PNull \<lparr>entries := entries list_example, cur := 0\<rparr>"
  have e: "darr_ok (entries list_example)" "darr_size (entries list_example) = 1"
    using list_example_ok by (auto simp: list_ok_def list_wf_def list_example_def darr_defs)
  have "list_ui ?w"
    using list_ui_new [of 21 0 40 1 "''R''"] e by (simp add: list_ui_def in_frame_def list_wf_def cursor_ok_def VISLINES_def)
      (simp add: tui_list_new_def Let_def tui_widget_def widget.defs tui_set_callback_def)
  moreover have "c_focus client0 = 0" by (simp add: client0_def)
  ultimately show ?thesis
    using empty_directory_cursor [of "idle (client0\<lparr>c_uilist := (\<lambda>_. ?w)\<rparr>)"] by auto
qed

text \<open>Adding a widget to a parent that is not its own puts it in front of the children, which stay in
  their order, and makes the parent its parent.
\<close>

theorem widget_added:
  assumes "wstore_ok m" "children m par ns" "get_link m w PAR = Inr p" "p \<noteq> Some par"
    and "w \<notin> set ns" "w \<noteq> par"
  shows "\<exists>m'. tui_add_widget par w m = Inr m' \<and> children m' par (w # ns)
    \<and> tui_parent m' w = Inr (Some par)"
  using add_widget_children [OF assms] by (auto simp: tui_parent_def simp del: PAR_def)

theorem widget_added_witness: "\<exists>m'. tui_add_widget 0 1 two_widgets = Inr m' \<and> children m' 0 [1]"
  using widget_added [OF two_widgets_ok] by auto

text \<open>Removing a child takes it out of the children of its parent, keeps the order of the others, and
  leaves it without parent and sibling; the loop ends within the number of children.
\<close>

theorem widget_removed:
  assumes "wstore_ok m" "children m par ns" "get_link m w PAR = Inr (Some par)"
    and "w \<in> set ns" "par \<notin> set ns" "length ns \<le> fuel"
  shows "\<exists>m'. tui_remove_widget fuel par w m = Inr m' \<and> children m' par (remove1 w ns)
    \<and> tui_parent m' w = Inr None \<and> get_link m' w NEXT = Inr None"
  using remove_widget_children [OF assms] by (auto simp: tui_parent_def simp del: PAR_def NEXT_def)

theorem widget_removed_witness:
  "\<exists>m m'. tui_add_widget 0 1 two_widgets = Inr m \<and> tui_remove_widget 1 0 1 m = Inr m' \<and> children m' 0 []"
proof -
  from add_widget_children [OF two_widgets_ok] obtain m where m: "tui_add_widget 0 1 two_widgets = Inr m"
    "wstore_ok m" "children m 0 [1]" "get_link m 1 PAR = Inr (Some 0)" by auto
  with widget_removed [of m 0 "[1]" 1 1] show ?thesis by auto
qed

text \<open>Going from a widget to the screen and back gives the same point, at any depth of the tree.
\<close>

theorem coordinates_inverse: "tui_wtoscr n m p xy = Inr xy' \<Longrightarrow> tui_scrtow n m p xy' = Inr xy"
  by (rule wtoscr_scrtow)

theorem coordinates_inverse_witness: "tui_scrtow 1 two_widgets (Some 1) (4, 6) = Inr (3, 4)"
proof -
  have "tui_wtoscr 1 two_widgets (Some 1) (3, 4) = Inr (4, 6)"
    by (simp add: two_widgets_def tui_button_def tui_widget_def Let_def w_deref_def w_link_def no_slots_def)
  then show ?thesis by (rule coordinates_inverse)
qed

text \<open>C37:
  The slots \<open>TUI_DRAW\<close> and \<open>TUI_FREE\<close> lie behind the three functions of a widget and are its callback
  arguments: the argument of a button is called as a function when the button is drawn, and a list
  passes its own \<open>free_list\<close> to the callback the client gave it.
\<close>

theorem callback_slots_overlap:
  "cb \<noteq> PNull \<Longrightarrow> tui_draw drawf (Suc n) i (m(i \<mapsto> tui_button t x y cb (PUser k))) = Inl BadCast
    \<and> w_calls (tui_call_callback TUI_ONMODIFY (tui_list_new t x y w h cb d)) = [(cb, PFree_list)]"
  by (simp add: w_deref_def tui_button_def tui_set_callback_def tui_widget_def no_slots_def Let_def
      tui_call_callback_def tui_list_new_def widget.defs numeral_eq_Suc)

theorem callback_slots_overlap_witness:
  "tui_draw (\<lambda>m i. Inr []) 1 0 [0 \<mapsto> tui_button ''ok'' 0 0 (PUser 1) (PUser 2)] = Inl BadCast"
  using callback_slots_overlap [of "PUser 1" "\<lambda>m i. Inr []" 0 0 Map.empty "''ok''" 0 0 2] by simp

text \<open>A refresh of the screen keeps the invariant and reads only what is there: entries, titles, the
  transfer it shows. Its one fault is the text of a directory entry in a buffer of 128 bytes.
\<close>

theorem refresh_safe:
  "ftp_inv client_ok s \<Longrightarrow> safeE {Overrun} (\<lambda>(s', d). ftp_inv client_ok s') (updateui s)"
proof -
  assume "ftp_inv client_ok s"
  then have "safeE {Overrun} (\<lambda>p. cstep s (fst p)) (updateui s)"
    by (intro updateui_ok step_ok_refl)
  then show ?thesis by (rule safeE_mono) (auto dest: step_ok_inv)
qed

theorem refresh_safe_witness: "safeE {Overrun} (\<lambda>(s', d). ftp_inv client_ok s') (updateui (idle client0))"
  using refresh_safe [OF idle_inv [of client_ok client0, OF client0_ok]] .

text \<open>C33:
  A directory entry with a name of more than 126 bytes, which the server chooses, overruns the
  buffer of the refresh.
\<close>

theorem long_directory_name:
  assumes "list_ui w" "darr_ok d" "e \<in> set (darr_list d)" "de_type e = FTP_DIR" "126 < length (de_name e)"
  shows "show_dir d w = Inl Overrun"
proof -
  from clear_list_entries [OF list_ui_list_wf [OF assms(1)]] obtain v where v: "tui_clear_list w = Inr v" "list_wf v"
    by blast
  moreover have "fill_list d 0 (darr_size d) v = Inl Overrun"
    using assms(3-5) v(2) by (intro fill_list_overrun [OF assms(2)]) auto
  ultimately show ?thesis by (simp add: show_dir_def)
qed

theorem long_directory_name_witness:
  "show_dir (darr_push (darr_alloc 0 12) \<lparr>de_name = replicate 127 CHR ''a'', de_type = FTP_DIR, de_size = None\<rparr>)
    (tui_list_new ''R'' 0 1 40 21 PNull PNull) = Inl Overrun"
  by (rule long_directory_name [of _ _ "\<lparr>de_name = replicate 127 CHR ''a'', de_type = FTP_DIR, de_size = None\<rparr>"])
    (simp_all add: list_ui_new da.push_inv da.push_list darr_list_alloc)

text \<open>Without long file names a downloaded file gets a name in the form of DOS, at most eight characters, and at
  most three after a dot; a name of this form is kept, and with long names every name is.
\<close>

theorem short_names:
  "(CHR ''.'' \<notin> set ext \<longrightarrow> fixname False (base @ CHR ''.'' # ext) = take 8 base @ CHR ''.'' # take 3 ext)
    \<and> (CHR ''.'' \<notin> set base \<longrightarrow> fixname False base = take 8 base)
    \<and> length (fixname False name) \<le> 12 \<and> fixname True name = name"
proof -
  have "length (fixname False name) \<le> 12" by (simp add: fixname_def Let_def min_def)
  moreover have "CHR ''.'' \<notin> set base \<longrightarrow> fixname False base = take 8 base" by (simp add: fixname_def)
  moreover have "fixname True name = name" by (simp add: fixname_def)
  ultimately show ?thesis using fixname_split by blast
qed

theorem short_names_witness: "fixname False ''longfilename.text'' = ''longfile.tex''"
  using short_names [of "''text''" "''longfilename''" "[]"] by simp

text \<open>DOS numbers the drives from 1 for A, so \<open>detect_lfn\<close> asks about the drive after the current one: when only that drive
  has no long names, the names on the current one are cut all the same.
\<close>

definition dos_root :: "nat \<Rightarrow> string" where
  "dos_root drv = char_of (64 + drv) # CHR '':'' # [CHR 0x5c]"

lemma lfn_of_next_drive:
  assumes "query (dos_root drv) = (0x4000, False)" "query (dos_root (Suc drv)) = (0x7100, True)"
  shows "fixname (fst (detect_lfn query drv True False)) name = fixname False name"
  using assms(2) by (simp add: detect_lfn_def lfn_request_def dos_root_def)

text \<open>The argument \<open>user:pass@host\<close> is taken apart at the first at sign and, before it, at the first colon.
\<close>

theorem host_argument:
  assumes "CHR '':'' \<notin> set u" "CHR ''@'' \<notin> set u" "CHR ''@'' \<notin> set p"
  shows "parse_host (u @ CHR '':'' # p @ CHR ''@'' # h) opts
      = opts\<lparr>opt_host := h, opt_user := Some u, opt_pass := Some p\<rparr>
    \<and> parse_host (u @ CHR ''@'' # h) opts = opts\<lparr>opt_host := h, opt_user := Some u, opt_pass := None\<rparr>
    \<and> parse_host u opts = opts\<lparr>opt_host := u, opt_user := None, opt_pass := None\<rparr>"
proof -
  have a: "strchr (u @ CHR '':'' # p @ CHR ''@'' # h) CHR ''@'' = Some (CHR ''@'' # h)"
    "strchr (u @ CHR ''@'' # h) CHR ''@'' = Some (CHR ''@'' # h)" "strchr u CHR ''@'' = None"
    using assms by (simp_all add: strchr_append strchr_None)
  have b: "takeWhile (\<lambda>c. c \<noteq> CHR ''@'') (u @ CHR '':'' # p @ CHR ''@'' # h) = u @ CHR '':'' # p"
    "takeWhile (\<lambda>c. c \<noteq> CHR ''@'') (u @ CHR ''@'' # h) = u"
    using assms by (auto simp: takeWhile_append)
  have c: "strchr (u @ CHR '':'' # p) CHR '':'' = Some (CHR '':'' # p)" "strchr u CHR '':'' = None"
    using assms by (simp_all add: strchr_append strchr_None)
  have d: "takeWhile (\<lambda>c. c \<noteq> CHR '':'') (u @ CHR '':'' # p) = u" using assms by (auto simp: takeWhile_append)
  show ?thesis by (simp add: parse_host_def a b c d Let_def)
qed

theorem host_argument_witness:
  "parse_host ''joe:x@host'' default_options = default_options\<lparr>opt_host := ''host'', opt_user := Some ''joe'', opt_pass := Some ''x''\<rparr>"
  using host_argument [of "''joe''" "''x''" "''host''" default_options] by simp

text \<open>C27:
  For every sequence of pushing, popping and clearing, the dynamic array holds what a list would, and
  its buffer has room for at most three times the elements in use and two more.
\<close>

theorem array_is_a_list:
  "darr_ok d \<Longrightarrow> darr_tight d \<Longrightarrow> darr_list (darr_run ops d) = list_run ops (darr_list d)
    \<and> darr_ok (darr_run ops d) \<and> max_elem (darr_run ops d) \<le> 3 * nelem (darr_run ops d) + 2"
  using darr_run_list [of d ops] by (simp add: darr_tight_def)

theorem array_is_a_list_witness: "darr_list (darr_run [DPush 1, DPush (2::nat), DPop] (darr_alloc 0 4)) = [1]"
  using array_is_a_list [of "darr_alloc 0 4" "[DPush 1, DPush (2::nat), DPop]"]
  by (simp add: darr_list_alloc) (simp add: darr_tight_def darr_alloc_def)

section \<open>The viewer\<close>

text \<open>Opening data in the viewer splits it into its lines: the pieces between carriage returns and line
  feeds that are not empty, in order, except for what follows the last line end.
\<close>

theorem viewer_lines:
  assumes "length bs \<le> length (vmem_bytes m)" "take (length bs) (vmem_bytes m) = bs"
  shows "\<exists>v' ls. view_memopen name (Some m) (int (length bs)) f v = Inr v' \<and> v_lines v' = Some ls
    \<and> map (span_text bs) (darr_list ls) = text_lines bs \<and> v_dirty v' = 0xffff"
proof -
  from view_memopen_lines [of "int (length bs)" m name f v] assms obtain v' ls where
    "view_memopen name (Some m) (int (length bs)) f v = Inr v'" "v_lines v' = Some ls"
    "spans_ok bs ls (text_lines bs)" by auto
  moreover from this(1) have "v_dirty v' = 0xffff" by (auto simp: view_memopen_def Let_def res_simps)
  ultimately show ?thesis by (auto simp: spans_ok_def)
qed

theorem viewer_lines_witness:
  "\<exists>v' ls. view_memopen ''f'' (Some (Malloced (''a'' @ [LF, LF] @ ''bc'' @ [CR, LF] @ ''d''))) 7 None viewer0 = Inr v'
    \<and> v_lines v' = Some ls
    \<and> map (span_text (''a'' @ [LF, LF] @ ''bc'' @ [CR, LF])) (darr_list ls) = [''a'', ''bc'']"
  using viewer_lines [of "''a'' @ [LF, LF] @ ''bc'' @ [CR, LF]" "Malloced (''a'' @ [LF, LF] @ ''bc'' @ [CR, LF] @ ''d'')" "''f''" None viewer0]
  by (auto simp: text_lines_def)

text \<open>C29:
  Every key is handled in an open viewer: it stays open with its data and lines unless the key is
  Escape or F10, and then the data is freed with the function it was opened with.
\<close>

theorem viewer_keys:
  assumes "viewer_ok v" "view_isopen v"
  shows "\<exists>v'. view_input key v = Inr v' \<and> viewer_ok v'
    \<and> (if key = 27 \<or> key = KB_F10 then \<not> view_isopen v'
       else v_data v' = v_data v \<and> v_lines v' = v_lines v \<and> v_title v' = v_title v)"
proof -
  obtain ls where ls: "v_lines v = Some ls" using assms by (rule viewer_ok_lines)
  show ?thesis
  proof (cases "key = 27 \<or> key = KB_F10")
    case True
    then show ?thesis
      using view_close_safe [OF assms(1)] by (auto simp: view_input_def view_isopen_def touch_text_def
          viewer_ok_def split: option.split vmem.split)
  next
    case False
    have t: "view_scroll key ls v = Some v' \<Longrightarrow> v_title v' = v_title v" for v'
      by (auto simp: view_scroll_def view_end_def touch_text_def Let_def split: if_splits)
    show ?thesis
    proof (cases "view_scroll key ls v")
      case None
      then show ?thesis using False ls assms(1) by (simp add: view_input_def)
    next
      case (Some v')
      then have "view_input key v = Inr (touch_text v')" using False ls by (simp add: view_input_def)
      moreover have "viewer_ok v'" using Some assms(1) by (rule view_scroll_viewer_ok)
      ultimately show ?thesis
        using view_scroll_keeps [OF Some] t [OF Some] False by (simp add: touch_text_ok) (simp add: touch_text_def)
    qed
  qed
qed

theorem viewer_keys_witness: "\<exists>v'. view_input KB_F10 viewer_example = Inr v' \<and> \<not> view_isopen v'"
  using viewer_keys [of viewer_example KB_F10]
  by (auto simp: viewer_example_def viewer_ok_def viewer0_def view_isopen_def)

text \<open>C34:
  The window is drawn with as many rows as there are lines, wherever it starts: after one step down in
  a short file the last row is read from behind the lines.
\<close>

theorem viewer_scroll_overreads:
  assumes "view_memopen name (Some m) sz f v0 = Inr v" "v_vscroll v0 = 0" "v_lines v = Some ls"
    and "2 \<le> darr_size ls" "darr_size ls \<le> 21"
  shows "\<exists>v'. view_input KB_DOWN v = Inr v' \<and> view_update v' = Inl Overread"
proof -
  have "darr_fresh (darr_alloc 0 16 :: (nat \<times> nat) darr)" by (simp add: darr_fresh_def darr_alloc_def darr_ok_def darr_wf_def)
  then have fr: "darr_fresh ls"
    using assms(1,3) by (auto simp: view_memopen_def Let_def res_simps split: if_splits option.splits dest: split_spans_fresh)
  have vs: "v_vscroll v = 0" "v_dirty v = 0xffff"
    using assms(1,2) by (auto simp: view_memopen_def Let_def res_simps)
  let ?v = "touch_text (v\<lparr>v_vscroll := 1\<rparr>)"
  have inp: "view_input KB_DOWN v = Inr ?v"
    using assms(3,4) vs by (simp add: view_input_def view_scroll_def ccode_def)
  have "(0xffff OR UI_TEXT) AND UI_TEXT \<noteq> 0" "0xffff OR UI_TEXT \<noteq> 0" by (simp_all add: UI_TEXT_def)
  then have d: "v_dirty ?v AND UI_TEXT \<noteq> 0" "v_dirty ?v \<noteq> 0"
    using vs by (auto simp: touch_text_def)
  have "darr_get ls (1 + int (0 + (darr_size ls - 1))) = Inl Overread"
    using fresh_get [OF fr] assms(4) by (simp add: darr_size_def)
  then have "draw_rows ?v ls bytes 0 (min (darr_size ls) (nat (num_vislines - 1))) = Inl Overread" for bytes
    using assms(4,5) by (intro draw_rows_past) (auto simp: num_vislines_def touch_text_def intro!: exI [of _ "darr_size ls - 1"])
  then have "view_update ?v = Inl Overread"
    using d assms(3) by (simp add: view_update_def Let_def touch_text_def split: option.split)
  with inp show ?thesis by blast
qed

theorem viewer_scroll_overreads_witness:
  "\<exists>v v'. view_memopen ''f'' (Some (Malloced [CHR ''a'', LF, CHR ''b'', LF])) 4 None viewer0 = Inr v
    \<and> view_input KB_DOWN v = Inr v' \<and> view_update v' = Inl Overread"
proof -
  from view_memopen_lines [of 4 "Malloced [CHR ''a'', LF, CHR ''b'', LF]" "''f''" None viewer0]
  obtain v ls where v: "view_memopen ''f'' (Some (Malloced [CHR ''a'', LF, CHR ''b'', LF])) 4 None viewer0 = Inr v"
    "v_lines v = Some ls" "spans_ok [CHR ''a'', LF, CHR ''b'', LF] ls [''a'', ''b'']"
    by (auto simp: text_lines_def)
  then have "darr_size ls = 2" by (auto simp: spans_ok_def darr_size_list dest: arg_cong [where f = length])
  with viewer_scroll_overreads [OF v(1) _ v(2)] v(1) show ?thesis by (auto simp: viewer0_def)
qed

text \<open>A row of the viewer depends on the first 78 bytes of its line only, however far the window is moved
  to the right: the rest of a longer line can never be seen.
\<close>

theorem viewer_width:
  "78 \<le> length a \<Longrightarrow> draw_row hs row 0 (a @ b) = draw_row hs row 0 (a @ b')"
  by (rule draw_row_cut) simp_all

theorem viewer_width_witness:
  "draw_row 5 1 0 (replicate 78 CHR ''x'' @ ''seen'') = draw_row 5 1 0 (replicate 78 CHR ''x'' @ ''never'')"
  by (rule viewer_width) simp

section \<open>The control connection\<close>

text \<open>C13:
  A reply that arrives whole, in one packet, is given to \<open>proc_control\<close> once and without its line
  end, and nothing of it is kept; a fault of the reply's handler is the fault of the call.
\<close>

theorem reply_line_processed:
  assumes "num_crecv s = 0" "length (crecv s) = CRECV_SIZE" "ctl_rx s = [Rx (l @ [CR, LF])]"
    and "\<forall>c \<in> set l. c \<noteq> CR \<and> c \<noteq> LF \<and> c \<noteq> NUL" "length l \<le> 254"
  shows "\<exists>c. length c = CRECV_SIZE \<and> (case proc_control h cb l (s\<lparr>ctl_rx := [], crecv := c\<rparr>) of
      Inl e \<Rightarrow> handle_control h cb s = Inl e
    | Inr t \<Rightarrow> ctl_rx t = [] \<longrightarrow> handle_control h cb s = Inr (t\<lparr>num_crecv := 0\<rparr>, 0))"
proof -
  have l: "one_line l" using assms(4) by (simp add: one_line_def)
  obtain c k where c: "length c = CRECV_SIZE"
    "handle_control h cb s = bindE (proc_control h cb l (s\<lparr>ctl_rx := [], crecv := c\<rparr>))
      (\<lambda>t. control_loop h cb (Suc k) (t\<lparr>num_crecv := 0\<rparr>))"
    by (rule control_line [OF assms(1-3) l assms(5)])
  have "control_loop h cb (Suc k) (t\<lparr>num_crecv := 0\<rparr>) = Inr (t\<lparr>num_crecv := 0\<rparr>, 0)" if "ctl_rx t = []" for t
    using control_blocks [OF that] that by (simp del: control_loop.simps)
  with c show ?thesis by (intro exI [of _ c]) (auto split: sum.split simp del: control_loop.simps)
qed

theorem reply_line_processed_witness:
  "\<exists>t. handle_control (ftp_handle client_done) client_done ((idle client0)\<lparr>ctl_rx := [Rx (''hello'' @ [CR, LF])]\<rparr>) = Inr (t, 0)"
proof -
  have r: "respcode ''hello'' = 0" by (simp add: respcode_def isdigit_def ccode_def)
  have l: "reply_line ''hello'' = ''hello''" by (simp add: reply_line_def isspace_def ccode_def)
  show ?thesis
    using reply_line_processed [of "(idle client0)\<lparr>ctl_rx := [Rx (''hello'' @ [CR, LF])]\<rparr>" "''hello''" "ftp_handle client_done" client_done]
    by (auto simp: proc_control_def r l Let_def emit_def CRECV_SIZE_def)
qed

text \<open>The replies with which a handler ends a command, whatever the command was, and starts no other.\<close>

definition ends_command :: "cproc \<Rightarrow> nat \<Rightarrow> bool" where
  "ends_command f n \<longleftrightarrow>
     (case f of
        Cproc_active \<Rightarrow> True
      | Cproc_pasv \<Rightarrow> False
      | Cproc_pwd \<Rightarrow> True
      | Cproc_cwd \<Rightarrow> n \<noteq> 250
      | Cproc_list \<Rightarrow> 200 \<le> n
      | Cproc_xfer \<Rightarrow> 200 \<le> n \<and> n < 400)"

text \<open>C30:
  A reply that no command asked for, which an idle engine gets. The handler of the last command is still set and counts it
  as the end of a command (\<open>ends_command\<close>: after a listing every final reply, for instance the 421 of a server that is about to close
  the connection, after a request for the directory every reply, after a change of directory all but 250, after a transfer
  the replies 2xx and 3xx): the count of commands under way becomes negative and the assertion of \<open>ftp_handle\<close> ends the
  program. After a transfer an error reply calls its completion callback again, on the transfer that was freed. (The server
  does not close the connection in the same round; then \<open>ftp_handle\<close> returns before the assertion.)
\<close>

theorem unsolicited_reply_aborts:
  assumes "num_crecv s = 0" "length (crecv s) = CRECV_SIZE"
    and "ctl_rx s = Rx (code3 n @ CHR '' '' # tx @ [CR, LF]) # rest" "rest = [] \<or> hd rest = RxBlock" "0 < n" "n < 1000"
    and "\<forall>c \<in> set tx. c \<noteq> CR \<and> c \<noteq> LF \<and> c \<noteq> NUL" "length tx \<le> 250"
    and "cproc s = Some f" "busy s = 0"
  shows "(ends_command f n \<longrightarrow> ftp_handle cb (ctl s) s = Inl AssertFail)
    \<and> (f = Cproc_xfer \<and> 400 \<le> n \<and> cproc_cls s = ClsXfer i \<and> xfers s i = None \<longrightarrow> ftp_handle cb (ctl s) s = Inl UseAfterFree)"
proof -
  let ?h = "ftp_handle_n (length (sel_in s)) cb"
  have tx: "one_line tx" using assms(7) by (simp add: one_line_def)
  have rx: "ctl_rx s = Rx (rline n tx @ [CR, LF]) # rest" using assms(3) by (simp add: rline_def)
  have "handle_step cb ?h (ctl s) s = Inl AssertFail" if e: "ends_command f n"
  proof (rule handle_reply [OF assms(1,2) rx tx assms(8,4,6,5,9), of ?h cb])
    fix c
    let ?u = "s\<lparr>ctl_rx := rest, crecv := c, out := out s @ [OLog Info ''recv: %s'' [rline n tx]], last_resp := int n\<rparr>"
    assume step: "\<And>t r. run_cproc ?h cb f (int n) (rline n tx) (cproc_cls s) ?u = Inr (t, r) \<Longrightarrow> ctl_rx t = rest \<Longrightarrow>
      handle_step cb ?h (ctl s) s =
        (let t = t\<lparr>busy := busy t - (if r \<le> 0 then 1 else 0), num_crecv := 0, ctl_rx := tl rest\<rparr>
         in if busy t \<le> 0 then if busy t \<noteq> 0 then Inl AssertFail else exec_queued ?h t else Inr t)"
    have "\<exists>t r. run_cproc ?h cb f (int n) (rline n tx) (cproc_cls s) ?u = Inr (t, r) \<and> ctl_rx t = rest \<and> busy t = 0 \<and> r \<le> 0"
      using e assms(10) by (cases f) (auto simp: ends_command_def run_cproc_def cproc_active_def cproc_pwd_def cproc_cwd_def
          cproc_list_def cproc_xfer_def ftp_close_def emit_def Let_def split: option.split)
    then obtain t r where t: "run_cproc ?h cb f (int n) (rline n tx) (cproc_cls s) ?u = Inr (t, r)" "ctl_rx t = rest"
      "busy t = 0" "r \<le> 0" by blast
    show "handle_step cb ?h (ctl s) s = Inl AssertFail" using step [OF t(1,2)] t(3,4) by (simp add: Let_def)
  qed
  moreover have "handle_step cb ?h (ctl s) s = Inl UseAfterFree"
    if "f = Cproc_xfer" "400 \<le> n" "cproc_cls s = ClsXfer i" "xfers s i = None"
    using that assms(9) by (intro handle_fault [OF assms(1,2) rx tx assms(8,4,6,5,9)])
      (simp add: run_cproc_def cproc_xfer_def deref_xfer_def emit_def Let_def)
  ultimately show ?thesis by (simp add: ftp_handle_def)
qed

theorem unsolicited_reply_aborts_witness:
  "ftp_handle client_done 3 ((idle client0)\<lparr>cproc := Some Cproc_list, ctl_rx := [Rx (code3 421 @ '' Timeout'' @ [CR, LF])]\<rparr>)
      = Inl AssertFail
    \<and> ftp_handle client_done 3 ((idle client0)\<lparr>cproc := Some Cproc_xfer, cproc_cls := ClsXfer 0,
          ctl_rx := [Rx (code3 421 @ '' Timeout'' @ [CR, LF])]\<rparr>) = Inl UseAfterFree"
  using unsolicited_reply_aborts [of "(idle client0)\<lparr>cproc := Some Cproc_list, ctl_rx := [Rx (code3 421 @ '' Timeout'' @ [CR, LF])]\<rparr>"
      421 "''Timeout''" "[]" Cproc_list client_done]
    unsolicited_reply_aborts [of "(idle client0)\<lparr>cproc := Some Cproc_xfer, cproc_cls := ClsXfer 0,
        ctl_rx := [Rx (code3 421 @ '' Timeout'' @ [CR, LF])]\<rparr>"
      421 "''Timeout''" "[]" Cproc_xfer client_done 0]
  by (auto simp: CRECV_SIZE_def ends_command_def)

text \<open>C11:
  A change of directory in an idle engine is carried through. The command goes out at once; when the
  server has accepted it (250), named the directory (257) and opened a port for data (227), the client
  has asked for the name, entered passive mode, connected to exactly that address and port, and asked for
  the listing, in this order and nothing else. It then shows the name of the server, waits for the two ends
  of the listing with an empty receive buffer, and nothing is left in its queue.
\<close>

theorem directory_change_served:
  assumes "awaits 0 [] s" "lis s < 0" "data s = -1" "pasv_mode s" "length d \<le> 240"
    and "ctl_rx s = [Rx (rline 250 tx0 @ [CR, LF]), RxBlock, Rx (rline 257 (DQUOTE # d' @ DQUOTE # tx1) @ [CR, LF]), RxBlock,
          Rx (rline 227 (tx @ CHR ''('' # port_args a p @ post) @ [CR, LF])]"
    and "one_line tx0" "length tx0 \<le> 250"
    and "one_line (DQUOTE # d' @ DQUOTE # tx1)" "length (DQUOTE # d' @ DQUOTE # tx1) \<le> 250" "DQUOTE \<notin> set d'"
    and "one_line (tx @ CHR ''('' # port_args a p @ post)" "length (tx @ CHR ''('' # port_args a p @ post) \<le> 250"
    and "\<forall>c \<in> set tx. \<not> isdigit c" "post = [] \<or> \<not> isdigit (hd post)"
    and "sock_in s = fd # fds" "0 \<le> fd" "conn_in s = True # cs" "sel_in s = Sel True e # sl"
  shows "\<exists>t u v i b. ftp_queue h FTP_CHDIR (Some d) s = Inr (t, 0) \<and> ftp_handle cb (ctl s) t = Inr u \<and> ftp_handle cb (ctl s) u = Inr v
    \<and> sent v = sent s @ map (\<lambda>c. c @ [CR, LF]) [cwd_text d, ''pwd'', ''PASV'', ''list'']
    \<and> data v = fd \<and> OConnect fd a (uint p) \<in> set (out v) \<and> curdir v = Some d' \<and> awaits 2 [] v
    \<and> dproc v = Some Dproc_list \<and> dproc_cls v = ClsBuf i \<and> bufs v i = Some b \<and> buf_ok b \<and> rb_data b = []"
proof -
  obtain t where t: "ftp_queue h FTP_CHDIR (Some d) s = Inr (t, 0)" "awaits 1 [] t" "cproc t = Some Cproc_cwd"
    "ctl_rx t = ctl_rx s" "same_net s t" "sent t = sent s @ [cwd_text d @ [CR, LF]]"
    by (rule chdir_sent [OF assms(1,5)])
  note rx = t(4) [unfolded assms(6)]
  obtain u where u: "handle_step cb (handle_step cb (ftp_handle_n (length sl) cb)) (ctl t) t = Inr u"
    "awaits 1 [plain_op FTP_LIST] u" "cproc u = Some Cproc_pwd"
    "ctl_rx u = tl (tl (ctl_rx s))" "same_net t u" "sent u = sent t @ [''pwd'' @ [CR, LF]]"
    by (rule cwd_accepted [OF t(2,3) rx assms(7,8)]) (use assms(6) in simp)
  note net = t(5) u(5)
  have co: "passive_works a p fd [] (u\<lparr>ctl_rx := [Rx (rline 227 (tx @ CHR ''('' # port_args a p @ post) @ [CR, LF])]\<rparr>)"
    using net assms(2-4,16-19) offers_text [OF assms(12-15)] by (auto simp: passive_works_def same_defs)
  have rx': "ctl_rx u = Rx (rline 257 (DQUOTE # d' @ DQUOTE # tx1) @ [CR, LF]) # RxBlock
      # [Rx (rline 227 (tx @ CHR ''('' # port_args a p @ post) @ [CR, LF])]" using u(4) assms(6) by simp
  obtain v where v: "handle_step cb (handle_step cb (ftp_handle_n (length sl) cb)) (ctl u) u = Inr v" "asked_list v"
    "opened a p fd u v" "sent v = sent u @ map (\<lambda>c. c @ [CR, LF]) [''PASV'', ''list'']" "curdir v = Some d'"
    by (rule pwd_answered [OF u(2,3) rx' names_dir_quoted [OF assms(9-11)] co])
  have "ctl t = ctl s" "ctl u = ctl s" "sel_in t = Sel True e # sl" "sel_in u = Sel True e # sl"
    using net assms(19) by (simp_all add: same_defs)
  then have "ftp_handle cb (ctl s) t = Inr u" "ftp_handle cb (ctl s) u = Inr v"
    using u(1) v(1) by (simp_all add: ftp_handle_def ftp_handle_knot)
  then show ?thesis using t(1,6) u(6) v(2-5) by (fastforce simp: asked_list_def opened_def)
qed

theorem directory_change_served_witness:
  "\<exists>t u v. ftp_queue (ftp_handle client_done) FTP_CHDIR (Some ''pub'') dialogue_example = Inr (t, 0)
    \<and> ftp_handle client_done 3 t = Inr u \<and> ftp_handle client_done 3 u = Inr v \<and> data v = 4 \<and> curdir v = Some ''/pub''
    \<and> sent v = map (\<lambda>c. c @ [CR, LF]) [''cwd pub'', ''pwd'', ''PASV'', ''list'']"
  using directory_change_served [of dialogue_example "''pub''" "''ok''" "''/pub''" "'' is it''" "''Passive ''" "0x7f000001" 2021 "'')''"
        4 "[]" "[]" 0 "[]" "ftp_handle client_done" client_done] port_example
  by (auto simp: dialogue_example_def awaits_def sent_def cwd_text_def CRECV_SIZE_def isdigit_def ccode_def)

text \<open>C31:
  Without passive mode no listing and no file is ever asked for: \<open>ftp_active\<close> only listens, so there is no
  data connection yet when \<open>prepare_data\<close> looks for it, and the operation is given up after it has left the
  queue. The server accepts the port, and the engine is idle with nothing to do.
\<close>

theorem active_mode_drops_the_listing:
  assumes "awaits 0 [] s" "\<not> pasv_mode s" "data s = -1" "length (port_args a p) \<le> 248"
    and "sock_in s = fd # fds" "fd \<noteq> -1" "bind_in s = True # bs" "name_in s = Some (a, p) # ns"
    and "ctl_rx s = [Rx (rline 200 tx @ [CR, LF])]" "one_line tx" "length tx \<le> 250"
  shows "\<exists>t u. ftp_queue h FTP_LIST None s = Inr (t, 0) \<and> ftp_handle cb (ctl s) t = Inr u
    \<and> sent u = sent s @ [''PORT '' @ port_args a p @ [CR, LF]] \<and> awaits 0 [] u \<and> lis u = fd \<and> dproc u = dproc s"
proof -
  have "qhead (opqueue s) = None" "busy s = 0" using assms(1) q_head_list by (auto simp: awaits_def)
  moreover obtain t where t: "ftp_list h s = Inr (t, -1)" "awaits 1 [] t" "cproc t = Some Cproc_active" "dproc t = dproc s"
    "lis t = fd" "ctl_rx t = ctl_rx s" "ctl t = ctl s" "sent t = sent s @ [''PORT '' @ port_args a p @ [CR, LF]]"
    by (rule list_active [OF assms(1-8)])
  ultimately have q: "ftp_queue h FTP_LIST None s = Inr (t, 0)" by (simp add: ftp_queue_def exec_op.simps)
  obtain u where "handle_step cb (ftp_handle_n (length (sel_in t)) cb) (ctl t) t = Inr u" "awaits 0 [] u" "dproc u = dproc t"
    "lis u = lis t" "sent u = sent t"
    by (rule port_accepted [OF t(2,3) _ assms(10,11)]) (use t(6) assms(9) in auto)
  then show ?thesis using q t by (auto simp: ftp_handle_def)
qed

theorem active_mode_drops_the_listing_witness:
  "\<exists>t u. ftp_queue (ftp_handle client_done) FTP_LIST None active_example = Inr (t, 0) \<and> ftp_handle client_done 3 t = Inr u
    \<and> sent u = [''PORT 127,0,0,1,7,229'' @ [CR, LF]]"
  using active_mode_drops_the_listing [of active_example "0x7f000001" 2021 5 "[]" "[]" "[]" "''ok''" "ftp_handle client_done" client_done] port_example
  by (auto simp: active_example_def awaits_def sent_def CRECV_SIZE_def)

text \<open>C7:
  A session from the connection to the first directory. The client connects, answers the greeting with the
  name and the password, sets the type, asks for the directory, enters passive mode, connects to the address it is given and
  asks for the listing, each as the reply before it arrives. The listing may come in any packets, and the reply that ends it
  at any point \<open>m\<close> between them: as long as it is not longer than 2^30 bytes (the largest receive buffer) the engine ends idle, with an empty queue, the name of the directory and exactly the
  entries of the listing, sorted.
\<close>

theorem first_listing_shown:
  assumes "fresh s" "sock_in s = c # fd # socks" "0 \<le> c" "0 \<le> fd" "fd \<noteq> c" "host_in s = Some addr # hs" "conn_in s = True # True # cs"
    and "sel_in s = Sel True e # sl" "\<forall>x \<in> set (login_texts s). length x \<le> 253"
    and "ctl_rx s = concat (map (\<lambda>(n, l). [Rx (rline n l @ [CR, LF]), RxBlock])
          [(220, l1), (331, l2), (230, l3), (200, l4), (257, DQUOTE # d @ DQUOTE # l5),
           (227, tx @ CHR ''('' # port_args a p @ post), (150, l6)]) @ [Rx (rline 226 l7 @ [CR, LF])]"
    and "\<forall>l \<in> set [l1, l2, l3, l4, DQUOTE # d @ DQUOTE # l5, tx @ CHR ''('' # port_args a p @ post, l6, l7]. line_ok l"
    and "DQUOTE \<notin> set d" "\<forall>c \<in> set tx. \<not> isdigit c" "post = [] \<or> \<not> isdigit (hd post)"
    and "packets_ok ps" "concat ps = concat (map ls_text es)" "list_all ls_wf es" "length (concat ps) \<le> 2 ^ 30"
    and "dat_rx s = map Rx ps @ [Rx []]" "m \<le> Suc (length ps div 4)"
  shows "\<exists>t u v. ftp_connect host port s = (t, 0) \<and> events cb (replicate 5 c) t = Inr u
    \<and> OConnect fd a (uint p) \<in> set (out u) \<and> sent u = sent s @ map (\<lambda>x. x @ [CR, LF]) (login_texts s)
    \<and> events cb (c # replicate m fd @ c # replicate (Suc (length ps div 4) - m) fd) u = Inr v
    \<and> sent v = sent u \<and> awaits 0 [] v \<and> data v = -1 \<and> dproc v = None \<and> curdir v = Some d \<and> shown_listing es v"
proof -
  obtain t where t: "ftp_connect host port s = (t, 0)" "awaits 0 [] t" "ctl t = c" "cproc t = None" "lis t = lis s" "data t = data s"
    "pasv_mode t = pasv_mode s" "user t = user s" "pass t = pass s" "ctl_rx t = ctl_rx s" "sel_in t = sel_in s" "dat_rx t = dat_rx s"
    "sock_in t = fd # socks" "conn_in t = True # cs" "sent t = sent s"
    using connect_works [OF assms(1-3,6,7)] by blast
  let ?rest = "[RxBlock, Rx (rline 150 l6 @ [CR, LF]), RxBlock, Rx (rline 226 l7 @ [CR, LF])]"
  let ?open = "Rx (rline 227 (tx @ CHR ''('' # port_args a p @ post) @ [CR, LF]) # ?rest"
  have lo: "line_ok (DQUOTE # d @ DQUOTE # l5)" "line_ok (tx @ CHR ''('' # port_args a p @ post)" "line_ok l6" "line_ok l7"
    using assms(11) by simp_all
  have nd: "names_dir (DQUOTE # d @ DQUOTE # l5) d" using lo(1) assms(12) by (intro names_dir_quoted) (simp_all add: line_ok_def)
  have "offers (tx @ CHR ''('' # port_args a p @ post) a p"
    using lo(2) by (intro offers_text assms(13,14)) (simp_all add: line_ok_def)
  then have co: "passive_works a p fd ?rest (t\<lparr>ctl_rx := ?open\<rparr>)"
    using assms(1,4,8) t by (auto simp: passive_works_def fresh_def)
  have texts: "login_texts t = login_texts s" using t(8,9) by (simp add: login_texts_def)
  obtain u where u: "events cb (replicate 5 (ctl t)) t = Inr u" "asked_list u" "opened a p fd t u" "ctl_rx u = tl ?rest"
    "sent u = sent t @ map (\<lambda>c. c @ [CR, LF]) (login_texts t)" "curdir u = Some d"
    by (rule session_login [OF t(2,4) _ _ _ nd co, of l1 l2 l3 l4 cb]) (use assms(9-11) t(10) texts in simp_all)
  have net: "data u = fd" "ctl u = c" "dat_rx u = map Rx ps @ [Rx []]" "OConnect fd a (uint p) \<in> set (out u)"
    using u(3) t(3,12) assms(19) by (simp_all add: opened_def same_rest_def)
  obtain v where "events cb (ctl u # replicate m (data u) @ ctl u # replicate (Suc (length ps div 4) - m) (data u)) u = Inr v"
    "awaits 0 [] v" "listed es (curdir u) v" "sent v = sent u"
    by (rule listing_served_at [OF u(2) assms(15-18) net(3) _ _ _ lo(3,4) assms(20), of cb]) (use net u(4) assms(4,5) in simp_all)
  then show ?thesis using t(1,3,15) u(1,5,6) net texts by (auto simp: listed_def)
qed

theorem first_listing_shown_witness:
  "\<exists>t u v. ftp_connect ''host'' 21 session_example = (t, 0) \<and> events client_done (replicate 5 3) t = Inr u
    \<and> sent u = map (\<lambda>x. x @ [CR, LF]) [''user anonymous'', ''pass foobar'', ''type I'', ''pwd'', ''PASV'', ''list'']
    \<and> events client_done [3, 3, 4] u = Inr v \<and> shown_listing [ls_example] v \<and> curdir v = Some ''/''"
  using first_listing_shown [of session_example 3 4 "[]" "0x7f000001" "[]" "[]" 0 "[]" "''hello''" "''password''" "''welcome''" "''binary''"
      "''/''" "[]" "''Passive ''" "0x7f000001" 2021 "'')''" "''here it comes''" "''done''" "[ls_text ls_example]" "[ls_example]" 0
      "''host''" 21 client_done]
    ls_example_wf ls_example_short port_example
  by (auto simp: session_example_def fresh_def login_texts_def line_ok_def packets_ok_def DRECV_SIZE_def CRECV_SIZE_def isdigit_def
      ccode_def sent_def)

text \<open>C8:
  A file that is transferred in an idle engine arrives completely. The client opens the data connection, asks
  for the file and takes the announced size; the file may come in any packets, and the reply that ends the transfer at any
  point \<open>m\<close> between them. The local file then holds exactly the bytes of the packets and is closed, the transfer is freed and
  not shown any more, and the engine is idle.
\<close>

theorem download_served:
  assumes "awaits 0 [] s" "ctl s \<noteq> fd" "packets_ok ps" "dat_rx s = map Rx ps @ [Rx []]"
    and "passive_works a p fd [RxBlock, Rx (rline 150 (tx @ CHR ''('' # dec_str n @ CHR '' '' # post) @ [CR, LF]), RxBlock,
          Rx (rline 226 l @ [CR, LF])] s"
    and "line_ok (tx @ CHR ''('' # dec_str n @ CHR '' '' # post)" "line_ok l" "CHR ''('' \<notin> set tx" "int n < 2 ^ 63"
    and "xfers s i = Some x" "x_op x = FTP_RETR" "x_fp x = Some f" "x_done x = Some Xfer_done" "x_count x = 0" "files s f = []"
    and "length (x_rname x) \<le> 248" "m \<le> Suc (length ps div 4)"
  shows "\<exists>t u. ftp_queue_transfer (ftp_handle client_done) i s = Inr (t, 0)
    \<and> events client_done (ctl s # replicate m fd @ ctl s # replicate (Suc (length ps div 4) - m) fd) t = Inr u
    \<and> sent u = sent s @ map (\<lambda>c. c @ [CR, LF]) [''PASV'', ''retr '' @ x_rname x]
    \<and> stored i f (concat ps) u \<and> awaits 0 [] u \<and> data u = -1"
proof -
  let ?l = "tx @ CHR ''('' # dec_str n @ CHR '' '' # post"
  let ?rest = "[RxBlock, Rx (rline 150 ?l @ [CR, LF]), RxBlock, Rx (rline 226 l @ [CR, LF])]"
  have "qhead (opqueue s) = None" "busy s = 0" using assms(1) q_head_list by (auto simp: awaits_def)
  moreover obtain t where t: "ftp_transfer (ftp_handle client_done) (Some i) s = Inr (t, 0)" "asked_file i t" "opened a p fd s t"
    "ctl_rx t = tl ?rest" "sent t = sent s @ map (\<lambda>c. c @ [CR, LF]) [''PASV'', ''retr '' @ x_rname x]"
    by (rule file_passive [OF assms(1,5) agrees_handle assms(10,11,16)])
  ultimately have q: "ftp_queue_transfer (ftp_handle client_done) i s = Inr (t, 0)"
    by (simp add: ftp_queue_transfer_def exec_op.simps)
  have net: "data t = fd" "ctl t = ctl s" "dat_rx t = map Rx ps @ [Rx []]" "xfers t i = Some x" "files t f = []" "0 \<le> fd"
    using t(3) assms(4,5,10,15) by (auto simp: opened_def same_rest_def passive_works_def)
  have "code3 150 = ''150''" by code_simp
  then have "CHR ''('' \<notin> set (code3 150 @ '' '' @ tx)" using assms(8) by simp
  then have "strchr ((code3 150 @ '' '' @ tx) @ CHR ''('' # dec_str n @ CHR '' '' # post) CHR ''('' = Some (CHR ''('' # dec_str n @ CHR '' '' # post)"
    by (subst strchr_append) auto
  then have size: "strchr (rline 150 ?l) CHR ''('' = Some (CHR ''('' # dec_str n @ CHR '' '' # post)" by (simp add: rline_def)
  obtain u where "events client_done (ctl t # replicate m (data t) @ ctl t # replicate (Suc (length ps div 4) - m) (data t)) t = Inr u"
    "awaits 0 [] u" "stored i f (concat ps) u" "data u = -1" "sent u = sent t"
    by (rule file_served_at [OF t(2) assms(3) net(3) _ _ net(4) assms(11-14) net(5) _ assms(6,7) size scan_total_size [OF assms(9)] _ assms(17)])
      (use net t(4) assms(2) in simp_all)
  then show ?thesis using q t(5) net(1,2) by auto
qed

theorem download_served_witness:
  "\<exists>t u. ftp_queue_transfer (ftp_handle client_done) 0 download_example = Inr (t, 0)
    \<and> events client_done [3, 3, 4] t = Inr u \<and> sent u = map (\<lambda>c. c @ [CR, LF]) [''PASV'', ''retr a.txt'']
    \<and> files u 0 = ''abcdef'' \<and> xfers u 0 = None"
proof -
  have "passive_works 0x7f000001 2021 4 [RxBlock, Rx (rline 150 (''sent '' @ CHR ''('' # dec_str 6 @ CHR '' '' # ''bytes)'') @ [CR, LF]), RxBlock,
      Rx (rline 226 ''ok'' @ [CR, LF])] download_example"
    using offers_text [of "''Passive ''" "0x7f000001" 2021 "'')''"] port_example
    by (auto simp: passive_works_def download_example_def open_reply_def isdigit_def ccode_def)
  from download_served [OF _ _ _ _ this, of "[''abc'', ''def'']" 0 xfer_example 0 0] size_example show ?thesis
    by (auto simp: download_example_def awaits_def packets_ok_def DRECV_SIZE_def CRECV_SIZE_def line_ok_def xfer_example_def sent_def
        stored_def)
qed

text \<open>C9:
  When two transfers wait in the queue, as when several files are selected, they are mixed up. The reply to
  \<open>PASV\<close> for the first is read by the \<open>ftp_handle\<close> inside of \<open>ftp_waitresp\<close>, which finds the engine idle and starts the second:
  it asks for its file on the data connection of the first. Then the first asks too, and takes the handler. The
  server sends the second file, and it is stored in the local file of the first.
\<close>

theorem queued_transfers_mixed_up:
  assumes "awaits 0 [file_op i, file_op j] s" "passive_works a p fd rest s"
    and "xfers s i = Some x" "x_op x = FTP_RETR" "length (x_rname x) \<le> 248" "x_fp x = Some f"
    and "xfers s j = Some y" "x_op y = FTP_RETR" "length (x_rname y) \<le> 248" "bs \<noteq> []"
  shows "\<exists>t u. exec_queued (ftp_handle cb) s = Inr t \<and> data t = fd \<and> dproc t = Some Dproc_xfer
    \<and> sent t = sent s @ map (\<lambda>c. c @ [CR, LF]) [''PASV'', ''retr '' @ x_rname y, ''retr '' @ x_rname x]
    \<and> run_dproc cb Dproc_xfer bs (dproc_cls t) t = Inr u \<and> files u f = files s f @ bs"
proof -
  obtain t where t: "exec_queued (ftp_handle cb) s = Inr t" "dproc t = Some Dproc_xfer" "dproc_cls t = ClsXfer i"
    "opened a p fd s t" "sent t = sent s @ map (\<lambda>c. c @ [CR, LF]) [''PASV'', ''retr '' @ x_rname y, ''retr '' @ x_rname x]"
    by (rule transfers_mixed [OF assms(1,2) agrees_handle assms(3-5,7-9)])
  then have "xfers t i = Some x" "files t = files s" "data t = fd" using assms(3) by (simp_all add: opened_def same_rest_def)
  then show ?thesis
    using t assms(4,6,10) by (auto simp: run_dproc_def dproc_xfer_def deref_xfer_def Let_def)
qed

theorem queued_transfers_mixed_up_witness:
  "\<exists>t u. exec_queued (ftp_handle client_done) mixed_example = Inr t
    \<and> sent t = map (\<lambda>c. c @ [CR, LF]) [''PASV'', ''retr b.txt'', ''retr a.txt'']
    \<and> run_dproc client_done Dproc_xfer ''text of b'' (dproc_cls t) t = Inr u \<and> files u 0 = ''text of b''"
proof -
  have "passive_works 0x7f000001 2021 4 [] mixed_example"
    using offers_text [of "''Passive ''" "0x7f000001" 2021 "'')''"] port_example
    by (auto simp: passive_works_def mixed_example_def open_reply_def isdigit_def ccode_def)
  from queued_transfers_mixed_up [OF _ this, of 0 1 xfer_example 0 "xfer_example\<lparr>x_rname := ''b.txt'', x_fp := Some 1\<rparr>" "''text of b''"
      client_done] two_queued_ok
  show ?thesis by (auto simp: mixed_example_def awaits_def CRECV_SIZE_def xfer_example_def sent_def)
qed

section \<open>The tree store\<close>

text \<open>C3:
  What \<open>ts_save\<close> writes, \<open>ts_load\<close> reads back: a tree of named nodes whose values can be printed (strings
  without quotes, whole numbers of at most six digits, arrays of 2 to 31 elements that are not all
  numbers, nested in any way) is the same after it was saved to a file and loaded from it, into a store
  that may hold other trees.
\<close>

theorem config_roundtrip:
  assumes "good st t" "erase t = tree_of T" "printable T" "writable fname" "ts_mem st0 = []" "0 < ts_brk st0"
  shows "\<exists>fs' a st' t'. ts_save fs writable st (at_addr t) fname = Inr (0, fs')
    \<and> ts_load fs' fname st0 = Inr (Some a, st') \<and> good st' t' \<and> at_addr t' = a \<and> erase t' = erase t"
proof -
  obtain s a st' t' where "ts_text_save (2 * ts_brk st) st (at_addr t) = Inr s" "ts_text_load s st0 = Inr (Some a, st')"
    "good st' t'" "at_addr t' = a" "erase t' = erase t"
    using save_load [OF assms(1-3,5,6)] by blast
  then show ?thesis
    using assms(4) by (intro exI [of _ "fs(fname \<mapsto> s)"] exI [of _ a] exI [of _ st'] exI [of _ t']) (simp add: ts_save_def ts_load_def)
qed

definition config_kids :: "ttree list" where
  "config_kids =
     [TNode ''server'' [(''name'', VStr ''home''), (''host'', VStr ''ftp.example.org''), (''user'', VStr ''jo'')] [],
      TNode ''server'' [(''name'', VStr ''work''), (''host'', VStr ''10.0.0.1''), (''tags'', VArr [VStr ''a'', VNum (-7)])] []]"

definition config_example :: ttree where
  "config_example = TNode ''servers'' [(''version'', VNum 2)] config_kids"

lemma config_example_printable: "printable config_example"
  by code_simp

theorem config_roundtrip_witness:
  "\<exists>st t fs' a st' t'. erase t = tree_of config_example
    \<and> ts_save (\<lambda>_. None) (\<lambda>_. True) st (at_addr t) ''cfg'' = Inr (0, fs')
    \<and> ts_load fs' ''cfg'' (empty_store []) = Inr (Some a, st') \<and> at_addr t' = a \<and> erase t' = erase t"
proof -
  have e: "ts_mem (empty_store []) = []" "0 < ts_brk (empty_store [])" by (simp_all add: empty_store_def)
  obtain st t where "good st t" "erase t = tree_of config_example"
    using load_exact [OF config_example_printable e(2,1)] by blast
  then show ?thesis
    using config_roundtrip [of st t config_example "\<lambda>_. True" "''cfg''" "empty_store []" "\<lambda>_. None"] e config_example_printable
    by blast
qed

text \<open>C4:
  The parser of the configuration file ends for every text and every outcome of the allocator. It
  gives no tree, or one in which every node has a name, the pointers are right and no value is
  freed. Only when \<open>malloc\<close> fails it may follow a null pointer or free memory twice.
\<close>

theorem config_parser_safe:
  assumes "0 < ts_brk st"
  shows "(\<exists>r st'. ts_text_load txt st = Inr (r, st')
      \<and> (r = None \<or> (\<exists>t. r = Some (at_addr t) \<and> good st' t \<and> at_name t \<noteq> None)))
    \<or> False \<in> set (ts_mem st) \<and> ts_text_load txt st \<in> {Inl UseAfterFree, Inl NullDeref}"
proof -
  let ?E = "{f. False \<in> set (ts_mem st) \<and> f \<in> {UseAfterFree, NullDeref}}"
  have "safeE ?E (load_post ?E st) (ts_text_load txt st)"
    by (rule text_load_safe [OF assms]) (auto simp: mem_faults_def)
  then show ?thesis
    by (cases "ts_text_load txt st") (fastforce simp: load_post_def)+
qed

theorem config_parser_safe_witness:
  "(\<exists>r st'. ts_text_load ''a { b = [1, [''  (empty_store [True, False]) = Inr (r, st')
      \<and> (r = None \<or> (\<exists>t. r = Some (at_addr t) \<and> good st' t \<and> at_name t \<noteq> None)))
    \<or> ts_text_load ''a { b = [1, ['' (empty_store [True, False]) \<in> {Inl UseAfterFree, Inl NullDeref}"
  using config_parser_safe [of "empty_store [True, False]" "''a { b = [1, [''"] by (auto simp: empty_store_def)

text \<open>C18:
  \<open>ts_lookup\<close> follows a path of names with dots between them: from the root, which must have the first
  name, to the first child of each further name, and in the last node to the first attribute of
  the last name.
\<close>

theorem path_lookup:
  assumes "tree_at st par nxt t" "all_named t" "at_name t = Some nm" "l \<noteq> []" "\<forall>x \<in> set (r # l). CHR ''.'' \<notin> set x"
  shows "ts_lookup st (Some (at_addr t)) (join_dots (r # l))
    = Inr (if r = nm then map_option fst (follow l t) else None)"
  using assms by (rule lookup_holds)

text \<open>A store with a node of two children, and one more node that is not linked yet.\<close>

definition linked_node :: "string \<Rightarrow> nat option \<Rightarrow> nat option \<Rightarrow> nat option \<Rightarrow> nat option \<Rightarrow> ts_node" where
  "linked_node nm list tail par nxt =
     ts_init_node\<lparr>n_name := Some nm, n_child_list := list, n_child_tail := tail, n_parent := par, n_next := nxt\<rparr>"

definition family :: tstore where
  "family = (empty_store [])\<lparr>ts_brk := 7, ts_nodes :=
     [1 \<mapsto> (linked_node ''top'' (Some 2) (Some 3) None None)\<lparr>n_attr_list := Some 5, n_attr_tail := Some 5\<rparr>,
      2 \<mapsto> linked_node ''one'' None None (Some 1) (Some 3), 3 \<mapsto> linked_node ''two'' None None (Some 1) None,
      4 \<mapsto> linked_node ''new'' None None None None],
     ts_attrs := [5 \<mapsto> \<lparr>a_name = Some ''x'', a_val = ts_init_value, a_next = None, a_freed = False\<rparr>]\<rparr>"

abbreviation leaf :: "nat \<Rightarrow> string \<Rightarrow> atree" where
  "leaf a nm \<equiv> ANode a (Some nm) [] []"

abbreviation family_of :: "atree list \<Rightarrow> atree" where
  "family_of ks \<equiv> ANode 1 (Some ''top'') [(5, ''x'', ts_init_value)] ks"

lemma family_tree: "good family (family_of [leaf 2 ''one'', leaf 3 ''two''])" "holds family None None (leaf 4 ''new'')"
  by (simp_all add: good_def tree_at_def tree_ok_def family_def linked_node_def empty_store_def ts_init_node_def)

theorem path_lookup_witness:
  "ts_lookup family (Some 1) ''top.x'' = Inr (Some 5) \<and> ts_lookup family (Some 1) ''top.two.x'' = Inr None"
proof -
  have t: "tree_at family None None (family_of [leaf 2 ''one'', leaf 3 ''two''])"
    and a: "all_named (family_of [leaf 2 ''one'', leaf 3 ''two''])" using family_tree(1) by (auto simp: good_def)
  show ?thesis
    using path_lookup [OF t a, of "''top''" "[''x'']" "''top''"] path_lookup [OF t a, of "''top''" "[''two'', ''x'']" "''top''"]
    by (simp add: attr_named_def child_named_def)
qed

text \<open>C19:
  \<open>ts_add_child\<close> makes a tree without a parent the last child of a node and leaves everything outside
  of the two trees as it is.
\<close>

theorem child_added:
  assumes "tree_at st par nxt (ANode a nm ats ks)" "holds st None e c"
    "distinct (node_addrs (ANode a nm ats (ks @ [c])))"
  shows "\<exists>st'. ts_add_child a (at_addr c) st = Inr st' \<and> holds st' par nxt (ANode a nm ats (ks @ [c]))
    \<and> ts_attrs st' = ts_attrs st
    \<and> (\<forall>z. z \<notin> set (node_addrs (ANode a nm ats (ks @ [c]))) \<longrightarrow> ts_nodes st' z = ts_nodes st z)"
proof -
  have h: "holds st par nxt (ANode a nm ats ks)" using assms(1) by (simp only: tree_at_def)
  show ?thesis using add_child_holds [OF h assms(2,3)] by blast
qed

theorem child_added_witness:
  "\<exists>st'. ts_add_child 1 4 family = Inr st' \<and> holds st' None None (family_of [leaf 2 ''one'', leaf 3 ''two'', leaf 4 ''new''])"
  using child_added [of family None None 1 "Some ''top''" "[(5, ''x'', ts_init_value)]" "[leaf 2 ''one'', leaf 3 ''two'']"
      None "leaf 4 ''new''"] family_tree by (auto simp: good_def simp del: holds.simps)

text \<open>C20:
  \<open>ts_remove_child\<close> takes exactly one child out of the children of a node, wherever it is in the list,
  and the child is a tree of its own afterwards; nothing else changes.
\<close>

theorem child_removed:
  assumes "tree_at st par nxt (ANode a nm ats (us @ c # vs))"
  shows "\<exists>st' e. ts_remove_child a (at_addr c) st = Inr (0, st') \<and> holds st' par nxt (ANode a nm ats (us @ vs))
    \<and> holds st' None e c \<and> ts_attrs st' = ts_attrs st
    \<and> (\<forall>z. z \<notin> set (node_addrs (ANode a nm ats (us @ c # vs))) \<longrightarrow> ts_nodes st' z = ts_nodes st z)"
  using remove_child_holds [OF assms] by blast

theorem child_removed_witness:
  "\<exists>st' e. ts_remove_child 1 2 family = Inr (0, st') \<and> holds st' None None (family_of [leaf 3 ''two''])
    \<and> holds st' None e (leaf 2 ''one'')"
  using child_removed [of family None None 1 "Some ''top''" "[(5, ''x'', ts_init_value)]" "[]" "leaf 2 ''one''"
      "[leaf 3 ''two'']"] family_tree by (auto simp: good_def simp del: holds.simps)

text \<open>C21:
  \<open>ts_free_tree\<close> frees each node and each attribute of a tree once, and nothing else.
\<close>

theorem tree_freed:
  assumes "good st t"
  shows "\<exists>st'. ts_free_tree (2 * ts_brk st) (Some (at_addr t)) st = Inr st'
    \<and> (\<forall>z. ts_nodes st' z = (if z \<in> set (node_addrs t) then None else ts_nodes st z))
    \<and> (\<forall>z. ts_attrs st' z = (if z \<in> set (attr_addrs t) then None else ts_attrs st z))"
proof -
  have t: "tree_at st None None t" "values_wf t" using assms by (auto simp: good_def)
  then have "length (node_addrs t) < ts_brk st + 1"
    by (intro length_addrs) (auto simp: tree_at_def tree_ok_def)
  then show ?thesis
    using free_tree_wipe [OF t, of "2 * ts_brk st"] by (auto simp: wipe_def)
qed

theorem tree_freed_witness:
  "\<exists>st'. ts_free_tree 14 (Some 1) family = Inr st' \<and> ts_nodes st' 1 = None \<and> ts_nodes st' 4 \<noteq> None \<and> ts_attrs st' 5 = None"
proof -
  have b: "2 * ts_brk family = 14" "ts_nodes family 4 \<noteq> None" by (simp_all add: family_def)
  show ?thesis using tree_freed [OF family_tree(1), unfolded b(1)] b(2) by auto
qed

text \<open>C38:
  An array of two or more numbers becomes a vector whose \<open>vec_size\<close> stays zero: its numbers are there, but
  \<open>print_value\<close> writes it as \<open>[]\<close>, which does not load again.
\<close>

theorem vector_not_saved:
  assumes "2 \<le> length arr" "\<forall>v \<in> set arr. wf_value v \<and> v_type v = TS_NUMBER"
  shows "\<exists>v. ts_set_value_arr ts_init_value arr [] = Inr (0, v, []) \<and> v_vec v = Some (map v_fnum arr)
    \<and> print_value v = Inr ''[]''"
  using assms set_value_arr_exact [of arr] by (auto simp: list_all_iff)

theorem vector_not_saved_witness:
  "\<exists>v. ts_set_value_arr ts_init_value [value_of (VNum 1), value_of (VNum 2)] [] = Inr (0, v, [])
    \<and> print_value v = Inr ''[]''"
  using vector_not_saved [of "[value_of (VNum 1), value_of (VNum 2)]"] by auto

text \<open>Numbers as the parser makes them, and their copies when the allocation after the next \<open>k\<close> fails.\<close>

definition number_value :: "ts_value \<Rightarrow> bool" where
  "number_value v \<longleftrightarrow> wf_value v \<and> v_type v = TS_NUMBER \<and> v_str v \<noteq> None \<and> v_vec v = None \<and> v_array v = None"

lemma copy_number:
  assumes "number_value v"
  shows "\<exists>d. ts_copy_value v (True # m) = Inr (0, d, m) \<and> wf_value d" "\<exists>d. ts_copy_value v (False # m) = Inr (-1, d, m)"
  using assms by (cases v; auto simp: number_value_def malloc_if_def malloc_def)+

lemma copy_numbers:
  "\<forall>v \<in> set vs. number_value v \<Longrightarrow> \<exists>ds bad. copy_elems vs (replicate k True @ False # m)
      = Inr (ds, bad, if k < length vs then m else replicate (k - length vs) True @ False # m)
    \<and> (\<forall>d \<in> set ds. wf_value d) \<and> (bad = None \<longleftrightarrow> length vs \<le> k) \<and> (length vs \<le> k \<longrightarrow> length ds = length vs)"
proof (induction vs arbitrary: k)
  case (Cons v vs)
  then have v: "number_value v" "\<forall>v \<in> set vs. number_value v" by simp_all
  show ?case
  proof (cases k)
    case 0
    obtain d where "ts_copy_value v (False # m) = Inr (-1, d, m)" using copy_number(2) [OF v(1)] by blast
    then show ?thesis using 0 by simp
  next
    case (Suc j)
    obtain d where "ts_copy_value v (True # replicate j True @ False # m) = Inr (0, d, replicate j True @ False # m)" "wf_value d"
      using copy_number(1) [OF v(1)] by blast
    then show ?thesis using Suc Cons.IH [OF v(2), of j] by fastforce
  qed
qed simp

text \<open>C39:
  \<open>ts_set_value_arr\<close> with an array of two or more numbers, when \<open>malloc\<close> fails for the first time after \<open>k\<close> successes, at
  any of the allocations it makes. It returns -1, and the value it leaves cannot be destroyed, as the parser does next, unless
  it was the very first allocation that failed: after a failed copy \<open>array_size\<close> is set and the array is null, and after a
  failed vector the freed array is still in place.
\<close>

theorem out_of_memory_faults:
  assumes "2 \<le> length arr" "\<forall>v \<in> set arr. number_value v" "k \<le> Suc (length arr)"
  shows "\<exists>v. ts_set_value_arr ts_init_value arr (replicate k True @ False # m) = Inr (-1, v, m)
    \<and> ts_destroy_value v = (if k = 0 then Inr () else if k \<le> length arr then Inl NullDeref else Inl UseAfterFree)"
proof (cases k)
  case 0
  then show ?thesis using assms(1) by (simp add: ts_set_value_arr_def copy_array_def ts_init_value_def malloc_def)
next
  case (Suc j)
  obtain ds bad where ds: "copy_elems arr (replicate j True @ False # m)
      = Inr (ds, bad, if j < length arr then m else replicate (j - length arr) True @ False # m)"
    "\<forall>d \<in> set ds. wf_value d" "bad = None \<longleftrightarrow> length arr \<le> j" "length arr \<le> j \<longrightarrow> length ds = length arr"
    using copy_numbers [OF assms(2), of j m] by blast
  have num: "list_all (\<lambda>a. v_type a = TS_NUMBER) arr" using assms(2) by (auto simp: list_all_iff number_value_def)
  have m: "malloc (True # l) = (True, l)" "malloc (False # l) = (False, l)" for l by (simp_all add: malloc_def)
  show ?thesis
  proof (cases "j < length arr")
    case True
    then show ?thesis
      using Suc ds assms(1) destroy_wf(2) [OF ds(2)]
      by (auto simp: ts_set_value_arr_def copy_array_def ts_init_value_def m)
  next
    case False
    then have "j = length arr" using Suc assms(3) by simp
    then show ?thesis
      using Suc ds assms(1) num destroy_wf(2) [OF ds(2)]
      by (auto simp: ts_set_value_arr_def copy_array_def ts_init_value_def m)
  qed
qed

theorem out_of_memory_faults_witness:
  "(\<exists>v. ts_set_value_arr ts_init_value [value_of (VNum 1), value_of (VNum 2)] [True, True, False] = Inr (-1, v, [])
      \<and> ts_destroy_value v = Inl NullDeref)
    \<and> (\<exists>v. ts_set_value_arr ts_init_value [value_of (VNum 1), value_of (VNum 2)] [True, True, True, False] = Inr (-1, v, [])
      \<and> ts_destroy_value v = Inl UseAfterFree)"
proof -
  have n: "\<forall>v \<in> set [value_of (VNum 1), value_of (VNum 2)]. number_value v" by (simp add: number_value_def ts_init_value_def)
  show ?thesis
    using out_of_memory_faults [OF _ n, of 2 "[]"] out_of_memory_faults [OF _ n, of 3 "[]"]
    by (simp add: numeral_eq_Suc)
qed

section \<open>The list of servers\<close>

text \<open>The typed getters give the value of the first attribute with the name, when it has the type asked for,
  and the default otherwise.
\<close>

theorem attribute_values:
  assumes "tree_at st par nxt t"
  shows "ts_get_attr_str st (at_addr t) name def_str
      = Inr (case attr_named name t of Some (a, nm, v) \<Rightarrow> if v_str v = None then def_str else v_str v | None \<Rightarrow> def_str)
    \<and> ts_get_attr_int st (at_addr t) name def_int
      = Inr (case attr_named name t of Some (a, nm, v) \<Rightarrow> if v_type v = TS_NUMBER then v_inum v else def_int | None \<Rightarrow> def_int)"
proof (cases "attr_named name t")
  case None
  then show ?thesis
    using get_attr_holds [OF assms] by (simp add: ts_get_attr_str_def ts_get_attr_int_def attr_value_def)
next
  case (Some x)
  obtain a nm v where x: "x = (a, nm, v)" by (cases x)
  note val = attr_value_holds [OF assms Some [unfolded x]]
  show ?thesis
    using get_attr_holds [OF assms, of name] Some x
    by (auto simp: ts_get_attr_str_def ts_get_attr_int_def val simp del: the_simps split: option.split)
qed

theorem attribute_values_witness:
  "ts_get_attr_str family 1 ''x'' (Some ''none'') = Inr (Some ''none'') \<and> ts_get_attr_int family 1 ''y'' 7 = Inr 7"
proof -
  have t: "tree_at family None None (family_of [leaf 2 ''one'', leaf 3 ''two''])" using family_tree(1) by (simp add: good_def)
  show ?thesis
    using attribute_values [OF t, of "''x''" "Some ''none''" 7] attribute_values [OF t, of "''y''" None 7]
    by (simp add: attr_named_def ts_init_value_def)
qed

text \<open>C17:
  The file of a list of servers gives exactly its servers with a name and a host, in their order,
  with the user, password and directory they have.
\<close>

theorem servers_loaded:
  assumes "printable (TNode ''servers'' ats ks)" "ts_mem st = []" "0 < ts_brk st"
    "fs (case cfgdir of None \<Rightarrow> fname | Some d \<Rightarrow> d @ ''/'' @ fname) = Some (text_of lvl (TNode ''servers'' ats ks))"
  shows "\<exists>l st'. read_servers cfgdir fs fname st = Inr (0, Some l, st') \<and> darr_ok l
    \<and> darr_list l = servers_of (TNode ''servers'' ats ks)"
proof -
  have "safeE {} (\<lambda>(r, l, st'). (r = 0 \<longleftrightarrow> l \<noteq> None) \<and> (\<forall>l'. l = Some l' \<longrightarrow> darr_ok l')) (read_servers cfgdir fs fname st)"
    using assms(2,3) by (intro read_servers_safe) auto
  then show ?thesis using read_servers_exact [where fs = fs and cfgdir = cfgdir and fname = fname and st = st and ats = ats and ks = ks and lvl = lvl] assms by auto
qed

text \<open>The file of the example.\<close>

definition config_files :: files where
  "config_files = [''/home/.visftp.srv'' \<mapsto> text_of 0 config_example]"

definition home_server :: server where
  "home_server = \<lparr>srv_name = ''home'', srv_host = ''ftp.example.org'', srv_user = Some ''jo'', srv_pass = None, srv_dir = None\<rparr>"

lemma config_example_servers: "servers_of config_example = [home_server,
    \<lparr>srv_name = ''work'', srv_host = ''10.0.0.1'', srv_user = None, srv_pass = None, srv_dir = None\<rparr>]"
  by (simp add: config_example_def config_kids_def home_server_def attr_str_def)

theorem servers_loaded_witness:
  "\<exists>l st'. read_servers (Some ''/home'') config_files ''.visftp.srv'' (empty_store []) = Inr (0, Some l, st')
    \<and> hd (darr_list l) = home_server"
proof -
  have t: "TNode ''servers'' [(''version'', VNum 2)] config_kids = config_example" by (simp add: config_example_def)
  show ?thesis
    using servers_loaded [where ats = "[(''version'', VNum 2)]" and ks = config_kids and st = "empty_store []" and fs = config_files
        and cfgdir = "Some ''/home''" and fname = "''.visftp.srv''" and lvl = 0]
      config_example_printable config_example_servers
    unfolding t by (auto simp: empty_store_def config_files_def simp del: printable.simps servers_of.simps text_of.simps)
qed

text \<open>C2:
  Whatever the configuration file holds, whatever the arguments are and however often \<open>malloc\<close> fails in
  the tree store, the start of the program ends: with the end of the program, with a state from which
  the main loop runs, or with one of the listed faults; a null pointer or a block freed twice only
  when \<open>malloc\<close> failed.
\<close>

theorem startup_safe:
  assumes "boot s"
  shows "main_init cfgdir fs m argv s = Inr None
    \<or> (\<exists>st. main_init cfgdir fs m argv s = Inr (Some st) \<and> reach st)
    \<or> main_init cfgdir fs m argv s = Inl Overread \<and> ''-'' \<in> set argv
    \<or> main_init cfgdir fs m argv s \<in> {Inl UseAfterFree, Inl NullDeref} \<and> False \<in> set m"
proof -
  let ?E = "{f. False \<in> set m \<and> f \<in> {UseAfterFree, NullDeref}}"
  have rs: "safeE ?E (\<lambda>(r, l, st'). (r = 0 \<longleftrightarrow> l \<noteq> None) \<and> (\<forall>l'. l = Some l' \<longrightarrow> darr_ok l'))
      (read_servers cfgdir fs ''.visftp.srv'' (empty_store m))"
    by (rule read_servers_safe) (auto simp: empty_store_def mem_faults_def)
  show ?thesis
  proof (cases "parse_args 0 argv default_options")
    case (Inl e)
    then show ?thesis using args_fault by (auto simp: main_init_def)
  next
    case (Inr r)
    show ?thesis
    proof (cases r)
      case (ArgsOk opts)
      show ?thesis
      proof (cases "read_servers cfgdir fs ''.visftp.srv'' (empty_store m)")
        case (Inl e)
        then show ?thesis using rs Inr ArgsOk by (auto simp: main_init_def)
      next
        case r2: (Inr x)
        obtain n l st' where x: "x = (n, l, st')" by (cases x)
        let ?s = "on_app (\<lambda>a. a\<lparr>c_opts := opts, c_srvlist := l\<rparr>) s"
        have e: "main_init cfgdir fs m argv s = main_start ?s" using Inr ArgsOk r2 x by (simp add: main_init_def)
        have "c_srvlist (app ?s) = l" by simp
        then obtain v where v: "main_start ?s = Inr v" using start_returns [of ?s] rs r2 x by (cases l) auto
        have "boot ?s" using assms by (simp add: boot_def)
        then show ?thesis using e v reach_start [of ?s] by (cases v) auto
      qed
    qed (use Inr in \<open>simp_all add: main_init_def\<close>)
  qed
qed

theorem startup_safe_witness:
  "main_init None (\<lambda>_. None) [False] [''-h''] boot0 = Inr None
    \<or> (\<exists>st. main_init None (\<lambda>_. None) [False] [''-h''] boot0 = Inr (Some st) \<and> reach st)
    \<or> main_init None (\<lambda>_. None) [False] [''-h''] boot0 \<in> {Inl UseAfterFree, Inl NullDeref}"
  using startup_safe [of boot0 None "\<lambda>_. None" "[False]" "[''-h'']"] by (simp add: boot_def boot0_def client0_def)

text \<open>C5:
  When the host on the command line is the name of an entry of the list, \<open>main\<close> uses the first entry with
  this name, and logs in with its user and password unless the command line has a user.
\<close>

theorem saved_server_used:
  assumes "printable (TNode ''servers'' ats ks)" "fs (dir @ ''/.visftp.srv'') = Some (text_of 0 (TNode ''servers'' ats ks))"
    "parse_args 0 argv default_options = Inr (ArgsOk opts)"
    "main_init (Some dir) fs [] argv s = Inr (Some (s', srv))"
  shows "srv = find (\<lambda>v. srv_name v = opt_host opts) (servers_of (TNode ''servers'' ats ks))
    \<and> user s' = fst (start_login opts srv)
    \<and> (user s' \<noteq> None \<longrightarrow> pass s' = Some (case snd (start_login opts srv) of Some p \<Rightarrow> p | None \<Rightarrow> ''foobar''))"
proof -
  let ?T = "TNode ''servers'' ats ks"
  obtain l st' where l: "read_servers (Some dir) fs ''.visftp.srv'' (empty_store []) = Inr (0, Some l, st')" "darr_ok l"
    "darr_list l = servers_of ?T"
    using read_servers_exact [where fs = fs and cfgdir = "Some dir" and fname = "''.visftp.srv''" and st = "empty_store []"
        and ats = ats and ks = ks and lvl = 0]
      read_servers_safe [where fs = fs and cfgdir = "Some dir" and fname = "''.visftp.srv''" and st = "empty_store []" and E = "{}"] assms(1,2) by (auto simp: empty_store_def)
  let ?s = "on_app (\<lambda>a. a\<lparr>c_opts := opts, c_srvlist := Some l\<rparr>) s"
  have m: "main_start ?s = Inr (Some (s', srv))"
    using assms(3,4) l(1) by (simp add: main_init_def)
  have f: "find_server (opt_host (c_opts (app ?s))) (c_srvlist (app ?s))
      = Inr (find (\<lambda>v. srv_name v = opt_host opts) (servers_of ?T))"
    using find_server_list [OF l(2)] l(3) by simp
  obtain k where k: "main_start ?s = Inr (k (find (\<lambda>v. srv_name v = opt_host opts) (servers_of ?T)))"
    "\<forall>srv t. k srv = Some t \<longrightarrow> snd t = srv \<and> user (fst t) = fst (start_login opts srv)
      \<and> (\<forall>u. user (fst t) = Some u \<longrightarrow> pass (fst t) = Some (case snd (start_login opts srv) of Some p \<Rightarrow> p | None \<Rightarrow> ''foobar''))"
    using main_start_find [of ?s, unfolded f bindE_Inr] m by auto
  have "k (find (\<lambda>v. srv_name v = opt_host opts) (servers_of ?T)) = Some (s', srv)" using k(1) m by simp
  then show ?thesis using k(2) by fastforce
qed

theorem saved_server_used_witness:
  "\<exists>s'. main_init (Some ''/home'') config_files [] [''home''] boot0 = Inr (Some (s', Some home_server))
    \<and> user s' = Some ''jo'' \<and> pass s' = Some ''foobar''"
proof -
  have t: "TNode ''servers'' [(''version'', VNum 2)] config_kids = config_example" by (simp add: config_example_def)
  have fs: "config_files (''/home'' @ ''/.visftp.srv'') = Some (text_of 0 config_example)" by (simp add: config_files_def)
  have args: "parse_args 0 [''home''] default_options = Inr (ArgsOk (default_options\<lparr>opt_host := ''home''\<rparr>))"
    by (simp add: parse_host_def default_options_def)
  have "\<exists>s' srv. main_init (Some ''/home'') config_files [] [''home''] boot0 = Inr (Some (s', srv))"
  proof -
    obtain l st' where l: "read_servers (Some ''/home'') config_files ''.visftp.srv'' (empty_store []) = Inr (0, Some l, st')"
      "darr_list l = servers_of config_example"
      using read_servers_exact [where fs = config_files and cfgdir = "Some ''/home''" and fname = "''.visftp.srv''"
          and st = "empty_store []" and ats = "[(''version'', VNum 2)]" and ks = config_kids and lvl = 0, unfolded t]
        config_example_printable fs by (auto simp: empty_store_def simp del: servers_of.simps text_of.simps)
    have "safeE {} (\<lambda>(r, l, st'). (r = 0 \<longleftrightarrow> l \<noteq> None) \<and> (\<forall>l'. l = Some l' \<longrightarrow> darr_ok l'))
        (read_servers (Some ''/home'') config_files ''.visftp.srv'' (empty_store []))"
      by (rule read_servers_safe) (simp_all add: empty_store_def)
    then have f: "find_server ''home'' (Some l) = Inr (Some home_server)"
      using l find_server_list [of l "''home''"] config_example_servers by (simp add: home_server_def del: servers_of.simps)
    show ?thesis
      using args l(1)
      by (simp add: main_init_def main_start_def boot0_def client0_def Let_def update_localdir_def ftp_alloc_def
        sys_malloc_def f default_options_def ftp_connect_def sys_socket_def ftp_auth_def home_server_def
        sys_gethostbyname_def sys_connect_def emit_def idle_def)
  qed
  then obtain s' srv where m: "main_init (Some ''/home'') config_files [] [''home''] boot0 = Inr (Some (s', srv))" by blast
  have "srv = Some home_server"
    using saved_server_used [where ats = "[(''version'', VNum 2)]" and ks = config_kids, unfolded t, OF config_example_printable fs args m] config_example_servers
    by (simp add: home_server_def del: servers_of.simps)
  moreover have "start_login (default_options\<lparr>opt_host := ''home''\<rparr>) (Some home_server) = (Some ''jo'', None)"
    by (simp add: start_login_def home_server_def default_options_def)
  ultimately show ?thesis
    using saved_server_used [where ats = "[(''version'', VNum 2)]" and ks = config_kids, unfolded t, OF config_example_printable fs args m] m by auto
qed

section \<open>Screen and keyboard\<close>

text \<open>C23:
  On DOS a box that fits the screen is drawn without a write outside of the frame buffer, and every
  cell of the screen shows what \<open>rect_cell\<close> says: the label over the frame, the frame over the filling,
  and outside of the box what was there.
\<close>

theorem dos_box_drawn:
  assumes "length (framebuf s) = 2000" "box_ok x y w h"
    "label \<noteq> None \<longrightarrow> 0 < h"
  shows "\<exists>fb. tg_rect_dos label x y w h frame s = Inr (s\<lparr>framebuf := fb\<rparr>) \<and> length fb = 2000
    \<and> (\<forall>cx cy. on_screen cx cy \<longrightarrow> fb ! nat (80 * cy + cx) = rect_cell s label x y w h frame cx cy)"
  using rect_drawn [OF assms] .

definition blank_screen :: dos_screen where
  "blank_screen = dos_start (replicate 2000 0x0720)"

theorem dos_box_drawn_witness:
  "\<exists>fb. tg_rect_dos (Some ''Local'') 40 1 40 21 True blank_screen = Inr (blank_screen\<lparr>framebuf := fb\<rparr>)
    \<and> fb ! 120 = 0x07c9 \<and> fb ! 122 = 0x074c \<and> fb ! 119 = 0x0720"
proof -
  have b: "length (framebuf blank_screen) = 2000" "box_ok 40 1 40 21" "Some ''Local'' \<noteq> None \<longrightarrow> (0 :: int) < 21"
    by (simp_all add: blank_screen_def dos_start_def box_ok_def)
  obtain fb where fb: "tg_rect_dos (Some ''Local'') 40 1 40 21 True blank_screen = Inr (blank_screen\<lparr>framebuf := fb\<rparr>)"
    "\<And>cx cy. on_screen cx cy \<Longrightarrow> fb ! nat (80 * cy + cx) = rect_cell blank_screen (Some ''Local'') 40 1 40 21 True cx cy"
    using dos_box_drawn [OF b, of True] by blast
  have "fb ! 120 = 0x07c9" "fb ! 122 = 0x074c" "fb ! 119 = 0x0720"
    using fb(2) [of 40 1] fb(2) [of 42 1] fb(2) [of 39 1]
    by (simp_all add: on_screen_def rect_cell_def rect_label_def on_border_def inside_def frame_char_def cell_def
      blank_screen_def dos_start_def ccode_def)
  then show ?thesis using fb(1) by blast
qed

text \<open>C22:
  On DOS a refresh in any state that satisfies the invariant is drawn inside of the frame buffer: bars, lists,
  viewer and progress, whatever the lists and the viewer show. The two texts that are not cut, the host and the name of the
  transferred file, have to fit into the buffer of \<open>tg_vtext\<close>.
\<close>

theorem screen_never_overrun:
  assumes "ftp_inv client_ok s" "names_short s" "screen_ok scr"
  shows "(\<forall>s' d. updateui s = Inr (s', d) \<longrightarrow> (\<exists>scr'. draw_all_dos d scr = Inr scr' \<and> screen_ok scr'))
    \<and> (\<forall>v d. view_update (c_viewer (app s)) = Inr (v, d) \<longrightarrow> (\<exists>scr'. draw_all_dos d scr = Inr scr' \<and> screen_ok scr'))"
proof -
  have s: "cstep s s" using assms(1) by (rule step_ok_refl)
  then have "0 \<le> v_hscroll (c_viewer (app s))" using cstep_viewer [of s s] by (simp add: viewer_ok_def)
  then show ?thesis
    using updateui_fits [OF s assms(2)] view_update_fits draw_all_fits [OF assms(3)] by blast
qed

definition redraw_example :: "client sys" where
  "redraw_example = idle (client0\<lparr>c_dirty := 0xffff\<rparr>)"

lemma redraw_example_drawn: "\<exists>s' d. updateui redraw_example = Inr (s', d)"
proof -
  have "\<not> isl (updateui redraw_example)" by code_simp
  then show ?thesis by (cases "updateui redraw_example") auto
qed

theorem screen_never_overrun_witness:
  "\<exists>s' d scr. updateui redraw_example = Inr (s', d) \<and> draw_all_dos d blank_screen = Inr scr \<and> screen_ok scr"
proof -
  have "client_ok (client0\<lparr>c_dirty := 0xffff\<rparr>) {}" by (simp add: client_ok_def client0_def list_ui_new)
  then have "ftp_inv client_ok redraw_example" unfolding redraw_example_def by (rule idle_inv)
  moreover have "names_short redraw_example" by (simp add: names_short_def redraw_example_def client0_def default_options_def)
  moreover have "screen_ok blank_screen" by (simp add: screen_ok_def blank_screen_def dos_start_def)
  ultimately show ?thesis using screen_never_overrun [of redraw_example blank_screen] redraw_example_drawn by blast
qed

text \<open>A longer name of a file, which the server chooses, is drawn behind that buffer.\<close>

lemma long_file_name_overruns:
  assumes "c_cur_xfer (app s) = Some i" "xfers s i = Some x" "255 \<le> length (x_rname x)"
    and "length (opt_host (c_opts (app s))) < 251" "screen_ok scr" "updateui s = Inr (s', d)"
  shows "draw_all_dos d scr = Inl Overrun"
proof -
  obtain t u d1 where 1: "ui_status s = Inr (t, u, d1)" using assms(6) by (auto simp: updateui_def res_simps)
  obtain t' u' d2 where 2: "ui_xfer t = Inr (t', u', d2)" using assms(6) 1 by (auto simp: updateui_def res_simps)
  have d: "\<exists>r. d = d1 @ d2 @ r"
    using assms(6) 1 2 by (auto simp: updateui_def res_simps Let_def split: if_splits)
  have t: "c_cur_xfer (app t) = Some i" "xfers t = xfers s" and f: "list_all fits d1"
    using 1 assms(1,4) by (auto simp: ui_status_def Let_def split: if_splits)
  obtain a r where "d2 = [TgFg White, TgBg Black, TgArrow 40 0 a (x_rname x)] @ r"
    using 2 t assms(2) by (auto simp: ui_xfer_def res_simps)
  then have "draw_all_dos d2 scr' = Inl Overrun" for scr'
    using assms(3) by (simp add: tg_text_dos_def)
  with d draw_all_fits [OF assms(5) f] show ?thesis by (auto simp: draw_all_append)
qed

text \<open>C24:
  On a terminal with 64 colours or more everything a call of the curses backend draws, text, lines and characters, is drawn
  while the pair of the colours that were set last is switched on (or carries that pair itself), whatever was drawn and
  switched on before; the pairs have different colours and numbers, each is defined once and before it is used, and a
  defined pair keeps its colours.
\<close>

theorem curses_colors:
  assumes "64 \<le> COLORS lib" "is_drawing d" "s = draw_all_unix lib ds (tg_init_unix lib)"
  shows "colors_ok lib s \<and> painting lib False s (draw_unix lib d s)"
proof -
  have r: "reached lib s" using draw_all_reached [OF reached_init assms(1)] assms(3) by simp
  then have "colors_ok lib s" by (simp add: reached_def)
  then show ?thesis using drawing_painting [OF _ reached_room [OF r assms(1)] assms(2)] by blast
qed

definition ncurses :: curses_lib where
  "ncurses = \<lparr>COLORS = 256, COLOR_RED = 1, COLOR_BLUE = 4, COLOR_CYAN = 6, COLOR_YELLOW = 3, ACS_LARROW = 0x40002c,
     ACS_RARROW = 0x40002b\<rparr>"

theorem curses_colors_witness:
  "painting ncurses False (draw_all_unix ncurses [TgFg Red] (tg_init_unix ncurses))
     (draw_unix ncurses (TgText 0 0 ''abc'') (draw_all_unix ncurses [TgFg Red] (tg_init_unix ncurses)))"
  using curses_colors [of ncurses "TgText 0 0 ''abc''" _ "[TgFg Red]"] by (simp add: ncurses_def)

text \<open>With eight colours the table of pairs is full after eight combinations, although curses has 64 pairs: the
  ninth is drawn with the pair of the eighth.
\<close>

lemma curses_out_of_pairs:
  "calls (draw_all_unix (ncurses\<lparr>COLORS := 8\<rparr>)
       (concat (map (\<lambda>c. [TgFg c, TgPutchar 0 0 CHR ''x'']) [Black, Blue, Green, Cyan, Red, Magenta, Yellow, White])
        @ [TgBg Blue, TgPutchar 0 1 CHR ''y'']) (tg_init_unix (ncurses\<lparr>COLORS := 8\<rparr>)))
   = calls (draw_all_unix (ncurses\<lparr>COLORS := 8\<rparr>)
       (concat (map (\<lambda>c. [TgFg c, TgPutchar 0 0 CHR ''x'']) [Black, Blue, Green, Cyan, Red, Magenta, Yellow, White]))
       (tg_init_unix (ncurses\<lparr>COLORS := 8\<rparr>))) @ [CMove 1 0, CAddch 121 8]"
  by code_simp

text \<open>C25:
  The keys the DOS program gets are those of the codes that were typed, in their order, however the codes
  are spread over the rounds of the main loop: a special key that a round ends inside of is
  completed in the next one. Quiet rounds empty the buffer.
\<close>

theorem dos_keys:
  assumes "length (concat chunks) \<le> n" "dos_rounds False [] (chunks @ replicate n []) = (keys, special, rest)"
  shows "keys = keys_of False (concat chunks) \<and> rest = []"
proof -
  obtain k1 sp1 r1 where a: "dos_rounds False [] chunks = (k1, sp1, r1)" by (cases "dos_rounds False [] chunks")
  obtain k2 where b: "dos_rounds sp1 r1 (replicate n []) = (k2, special, rest)" "keys = k1 @ k2"
    using assms(2) a by (cases "dos_rounds sp1 r1 (replicate n [])") (auto simp: dos_rounds_append)
  have "length r1 \<le> n" using dos_rounds_shorter [OF a] assms(1) by simp
  then have "rest = []" using dos_rounds_quiet b(1) by blast
  then show ?thesis using dos_rounds_keys [OF assms(2)] by simp
qed

theorem dos_keys_witness:
  "\<exists>special. dos_rounds False [] ([[97, 0], [72, 13]] @ replicate 4 []) = ([97, KB_UP, 10], special, [])"
proof -
  obtain ks sp r where d: "dos_rounds False [] ([[97, 0], [72, 13]] @ replicate 4 []) = (ks, sp, r)"
    by (metis prod_cases3)
  have "ks = keys_of False (concat [[97, 0], [72, 13]]) \<and> r = []"
    by (rule dos_keys [OF _ d]) simp
  then show ?thesis using d by (simp add: conv_special_def)
qed

text \<open>On curses the codes of the library are told apart: characters stay, the twelve function keys and the
  other keys of \<open>src/input.h\<close> are found, and an unknown code is no key.
\<close>

lemma curses_keys:
  assumes "keys_ok ck"
  shows "(0 \<le> c \<and> c < 128 \<longrightarrow> convkey ck c = c) \<and> (1 \<le> n \<and> n \<le> 12 \<longrightarrow> convkey ck (key_f ck n) = KB_F1 + (n - 1))
    \<and> map (convkey ck) (single_keys ck)
        = [KB_DEL, KB_INS, KB_UP, KB_DOWN, KB_LEFT, KB_RIGHT, KB_HOME, KB_END, KB_PGUP, KB_PGDN, 10, 8]"
  using convkey_chars [OF assms] convkey_function [OF assms] convkey_single [OF assms] by simp

section \<open>The log\<close>

text \<open>When the log file can be opened, every message is written to it with its tag, in order.
\<close>

theorem log_complete:
  assumes "can_open (log_name False env)" "ms \<noteq> []"
  shows "\<exists>l. log_all False env can_open ms (log_start st) = Inr l \<and> logfile l = Some (log_name False env)
    \<and> log_text l = concat (map (\<lambda>(tag, msg). tag @ '': '' @ msg) ms)"
proof -
  obtain tag msg ms' where ms: "ms = (tag, msg) # ms'" using assms(2) by (cases ms) auto
  let ?l = "(log_start st)\<lparr>logfile := Some (log_name False env), log_text := tag @ '': '' @ msg\<rparr>"
  have "logmsg False env can_open tag msg (log_start st) = Inr ?l"
    using assms(1) by (simp add: logmsg_def log_open_def loginit_def log_start_def Let_def)
  moreover have "log_all False env can_open ms' ?l
      = Inr (?l\<lparr>log_text := log_text ?l @ concat (map (\<lambda>(tag, msg). tag @ '': '' @ msg) ms')\<rparr>)"
    by (rule log_all_file) (auto simp: log_start_def)
  ultimately show ?thesis using ms by simp
qed

theorem log_complete_witness:
  "\<exists>l. log_all False (\<lambda>_. None) (\<lambda>_. True) [(''info'', ''a''), (''error'', ''b'')] (log_start []) = Inr l
    \<and> log_text l = ''info: aerror: b''"
  using log_complete [of "\<lambda>_. True" "\<lambda>_. None" "[(''info'', ''a''), (''error'', ''b'')]" "[]"] by auto

text \<open>C40:
  On a serial port a message is sent without its tag: \<open>vsprintf\<close> overwrites what \<open>sprintf\<close> put into the buffer.
  The bytes are those of the messages with a carriage return before each line feed, however long
  the port takes.
\<close>

theorem serial_log_without_tags:
  assumes "\<forall>(tag, msg) \<in> set ms. length tag \<le> 509 \<and> length msg < 512" "0 \<le> sdev l" "logfile l = None"
  shows "\<exists>l'. log_all True env can_open ms l = Inr l'
    \<and> outs l' = outs l @ map (\<lambda>c. (iobase l OR UART_DATA, of_char c)) (crlf (concat (map snd ms)))"
  using log_all_serial [OF assms] .

theorem serial_log_without_tags_witness:
  "\<exists>l'. log_all True (\<lambda>_. None) (\<lambda>_. True) [(''error'', ''a'' @ [LF])] ((log_start [0, 0x20])\<lparr>sdev := 0, iobase := UART1_BASE\<rparr>) = Inr l'
    \<and> outs l' = [(0x3f8, of_char CHR ''a''), (0x3f8, of_char CR), (0x3f8, of_char LF)]"
  using serial_log_without_tags [of "[(''error'', ''a'' @ [LF])]" "(log_start [0, 0x20])\<lparr>sdev := 0, iobase := UART1_BASE\<rparr>"
      "\<lambda>_. None" "\<lambda>_. True"] by (simp add: log_start_def)

end
